(* ===== verification/Prelude.thy ===== *)
theory Prelude
  imports Main "HOL-Library.Word"
begin

text \<open>
  Shared vocabulary of the development: the machine integer types, the result type for
  operations that may throw, raw byte memory with the copies the code makes into it, and the
  byte representation of a 32-bit integer in memory.
\<close>

unbundle bit_operations_syntax

type_synonym u8 = "8 word"
type_synonym u32 = "32 word"
type_synonym u64 = "64 word"

named_theorems mem_simps \<open>lemmas about raw byte memory\<close>
named_theorems u32_simps \<open>lemmas that move 32-bit arithmetic to the natural numbers\<close>

section \<open>Results of operations that may throw\<close>

definition bind_res :: "'e + 'a \<Rightarrow> ('a \<Rightarrow> 'e + 'b) \<Rightarrow> 'e + 'b" where
  "bind_res r f = (case r of Inl e \<Rightarrow> Inl e | Inr a \<Rightarrow> f a)"

lemma bind_res_simps [simp]:
  "bind_res (Inl e) f = Inl e" "bind_res (Inr a) f = f a"
  by (simp_all add: bind_res_def)

lemma bind_res_Inr_iff: "bind_res r f = Inr b \<longleftrightarrow> (\<exists>a. r = Inr a \<and> f a = Inr b)"
  by (cases r) simp_all

section \<open>Raw memory\<close>

text \<open>
  A block of memory is a list of bytes. \<open>memcpy_to\<close> copies a byte sequence to an offset; it
  keeps the length of the memory exactly when the copy stays in bounds.
\<close>

definition memcpy_to :: "u8 list \<Rightarrow> nat \<Rightarrow> u8 list \<Rightarrow> u8 list" where
  "memcpy_to mem off d = take off mem @ d @ drop (off + length d) mem"

definition mem_read :: "u8 list \<Rightarrow> nat \<Rightarrow> nat \<Rightarrow> u8 list" where
  "mem_read mem off n = take n (drop off mem)"

lemma length_memcpy_to [simp, mem_simps]:
  "off + length d \<le> length mem \<Longrightarrow> length (memcpy_to mem off d) = length mem"
  by (simp add: memcpy_to_def)

lemma nth_memcpy_to [mem_simps]:
  assumes "off + length d \<le> length mem" "i < length mem"
  shows "memcpy_to mem off d ! i =
    (if off \<le> i \<and> i < off + length d then d ! (i - off) else mem ! i)"
  using assms by (auto simp: memcpy_to_def nth_append)

lemma length_mem_read [simp, mem_simps]:
  "off + n \<le> length mem \<Longrightarrow> length (mem_read mem off n) = n"
  by (simp add: mem_read_def)

lemma nth_mem_read [mem_simps]:
  "off + n \<le> length mem \<Longrightarrow> i < n \<Longrightarrow> mem_read mem off n ! i = mem ! (off + i)"
  by (simp add: mem_read_def)

section \<open>A 32-bit integer in memory\<close>

text \<open>The object representation of a \<open>uint32_t\<close>, little-endian.\<close>

definition u32_bytes :: "u32 \<Rightarrow> u8 list" where
  "u32_bytes w = [ucast w, ucast (drop_bit 8 w), ucast (drop_bit 16 w), ucast (drop_bit 24 w)]"

definition u32_of_bytes :: "u8 list \<Rightarrow> u32" where
  "u32_of_bytes bs =
     ucast (bs ! 0) OR push_bit 8 (ucast (bs ! 1)) OR
     push_bit 16 (ucast (bs ! 2)) OR push_bit 24 (ucast (bs ! 3))"

lemma length_u32_bytes [simp]: "length (u32_bytes w) = 4"
  by (simp add: u32_bytes_def)

lemma u32_of_bytes_u32_bytes [simp]: "u32_of_bytes (u32_bytes w) = w"
proof (rule bit_word_eqI)
  fix n assume n: "n < LENGTH(32)"
  then have "n < 8 \<or> 8 \<le> n \<and> n < 16 \<or> 16 \<le> n \<and> n < 24 \<or> 24 \<le> n \<and> n < 32"
    by auto
  then show "bit (u32_of_bytes (u32_bytes w)) n = bit w n"
    unfolding u32_of_bytes_def u32_bytes_def
    by (elim disjE conjE)
      (simp_all add: bit_or_iff bit_push_bit_iff bit_ucast_iff bit_drop_bit_eq less_diff_conv2)
qed

section \<open>32-bit arithmetic without wrap-around\<close>

lemma unat_add_u32 [u32_simps]:
  "unat (a::u32) + unat b < 2 ^ 32 \<Longrightarrow> unat (a + b) = unat a + unat b"
  by (simp add: unat_word_ariths)

lemma unat_sub_u32 [u32_simps]: "b \<le> (a::u32) \<Longrightarrow> unat (a - b) = unat a - unat b"
  by (rule unat_sub)

lemma unat_mult_u32 [u32_simps]:
  "unat (a::u32) * unat b < 2 ^ 32 \<Longrightarrow> unat (a * b) = unat a * unat b"
  by (simp add: unat_word_ariths)

lemma unat_lt_2_32 [simp]: "unat (a::u32) < 4294967296"
  using unsigned_less [of a] by simp

lemma unat_min [u32_simps]: "unat (min (a::u32) b) = min (unat a) (unat b)"
  by (simp add: min_def word_le_nat_alt)

end
