(* ===== verification/Bit_Tools.thy ===== *)
theory Bit_Tools
  imports Prelude
begin

text \<open>
  The integer helpers of \<open>src/bit_tools.hpp\<close> and the 32-bit MurmurHash3 of
  \<open>src/murmur3.hpp\<close>, over 32-bit words. The lemmas show that the power-of-two test is exact
  and that mixing and finalising the hash are injective in the state and in the mixed value, so
  that a hash over a sequence of values distinguishes sequences that differ in one value.
\<close>

section \<open>bit_tools.hpp\<close>

definition is_power_of_2 :: "u32 \<Rightarrow> bool" where
  "is_power_of_2 n \<longleftrightarrow> n \<noteq> 0 \<and> n AND (n - 1) = 0"

definition make_fourcc :: "u8 \<Rightarrow> u8 \<Rightarrow> u8 \<Rightarrow> u8 \<Rightarrow> u32" where
  "make_fourcc c1 c2 c3 c4 =
     push_bit 24 (ucast c1) OR push_bit 16 (ucast c2) OR push_bit 8 (ucast c3) OR ucast c4"

section \<open>murmur3.hpp\<close>

record murmur3_32 =
  mm_state :: u32
  mm_len :: u32

definition murmur3_init :: "u32 \<Rightarrow> murmur3_32" where
  "murmur3_init seed = \<lparr>mm_state = seed, mm_len = 0\<rparr>"

definition murmur3_mix :: "murmur3_32 \<Rightarrow> u32 \<Rightarrow> murmur3_32" where
  "murmur3_mix s value0 =
     (let value1 = value0 * 0xcc9e2d51;
          value2 = push_bit 15 value1 OR drop_bit (32 - 15) value1;
          value3 = value2 * 0x1b873593;
          h = mm_state s XOR value3
      in s\<lparr>mm_state := (push_bit 13 h OR drop_bit (32 - 13) h) * 5 + 0xe6546b64,
           mm_len := mm_len s + 4\<rparr>)"

definition murmur3_finalize :: "murmur3_32 \<Rightarrow> u32" where
  "murmur3_finalize s =
     (let h0 = mm_state s XOR mm_len s;
          h1 = h0 XOR drop_bit 16 h0;
          h2 = h1 * 0x85ebca6b;
          h3 = h2 XOR drop_bit 13 h2;
          h4 = h3 * 0xc2b2ae35
      in h4 XOR drop_bit 16 h4)"

section \<open>Powers of two\<close>

lemma clear_lowest_bit:
  fixes n :: u32
  assumes l: "bit n l" and low: "\<And>i. i < l \<Longrightarrow> \<not> bit n i"
  shows "n AND (n - 1) = n AND NOT (2 ^ l)"
proof -
  define r where "r = n AND NOT (2 ^ l)"
  have bits_r: "bit r i \<longleftrightarrow> bit n i \<and> i \<noteq> l" for i
    using bit_imp_le_length [of n i]
    by (simp add: r_def bit_and_iff bit_not_iff bit_exp_iff) blast
  have "2 ^ l AND r = 0"
    by (rule bit_word_eqI) (simp add: bit_and_iff bits_r bit_exp_iff)
  moreover have "2 ^ l OR r = n"
    by (rule bit_word_eqI) (use l in \<open>auto simp: bit_or_iff bits_r bit_exp_iff\<close>)
  ultimately have n: "n = 2 ^ l + r"
    by (simp add: disjunctive_add_eq_or)
  have dis: "mask l AND r = 0"
    by (rule bit_word_eqI) (use low in \<open>auto simp: bit_and_iff bits_r bit_mask_iff\<close>)
  have "n - 1 = mask l + r"
    by (subst n) (simp add: mask_eq_exp_minus_1)
  also have "\<dots> = mask l OR r" using dis by (rule disjunctive_add_eq_or)
  finally have n1: "n - 1 = mask l OR r" .
  have "n AND (mask l OR r) = r"
    by (rule bit_word_eqI) (use low in \<open>auto simp: bit_and_iff bit_or_iff bits_r bit_mask_iff\<close>)
  then show ?thesis by (simp only: n1 r_def)
qed

lemma is_power_of_2_iff: "is_power_of_2 n \<longleftrightarrow> (\<exists>k<32. n = 2 ^ k)"
proof
  assume p: "is_power_of_2 n"
  then have "n \<noteq> 0" by (simp add: is_power_of_2_def)
  then obtain i where "bit n i" using bit_eq_iff [of n 0] by auto
  define l where "l = (LEAST i. bit n i)"
  have l: "bit n l" unfolding l_def using \<open>bit n i\<close> by (rule LeastI)
  have low: "\<not> bit n i" if "i < l" for i
    using that not_less_Least unfolding l_def by blast
  have "n AND NOT (2 ^ l) = 0"
    using clear_lowest_bit [OF l low] p by (simp add: is_power_of_2_def)
  then have "\<not> bit (n AND NOT (2 ^ l)) i" for i by simp
  then have "bit n i \<longrightarrow> i = l" for i
    using bit_imp_le_length [of n i] by (simp add: bit_and_iff bit_not_iff bit_exp_iff)
  with l have bits_n: "bit n i \<longleftrightarrow> i = l" for i by blast
  have "n = 2 ^ l"
    by (rule bit_word_eqI) (simp add: bits_n bit_exp_iff)
  moreover have "l < 32" using bit_imp_le_length [OF l] by simp
  ultimately show "\<exists>k<32. n = 2 ^ k" by blast
next
  assume "\<exists>k<32. n = 2 ^ k"
  then obtain k where k: "k < 32" "n = 2 ^ k" by blast
  have "bit n k" "\<And>i. i < k \<Longrightarrow> \<not> bit n i" using k by (auto simp: bit_exp_iff)
  then have "n AND (n - 1) = n AND NOT (2 ^ k)" by (rule clear_lowest_bit)
  also have "\<dots> = 0" using k by simp
  finally show "is_power_of_2 n" using k by (simp add: is_power_of_2_def)
qed

section \<open>The hash loses no information\<close>

lemma u32_mult_inj:
  fixes a b c d :: u32
  assumes "c * d = 1" and "a * c = b * c"
  shows "a = b"
proof -
  have "a = a * c * d" using assms(1) by (simp add: mult.assoc)
  also have "\<dots> = b * c * d" using assms(2) by simp
  also have "\<dots> = b" using assms(1) by (simp add: mult.assoc)
  finally show ?thesis .
qed

lemma u32_rot_inj:
  fixes a b :: u32
  assumes r: "0 < r" "r < 32"
    and eq: "push_bit r a OR drop_bit (32 - r) a = push_bit r b OR drop_bit (32 - r) b"
  shows "a = b"
proof (rule bit_word_eqI)
  fix i assume "i < LENGTH(32)"
  then have i: "i < 32" by simp
  define j where "j = (if i < 32 - r then i + r else i - (32 - r))"
  have "bit (push_bit r x OR drop_bit (32 - r) x) j = bit x i" for x :: u32
    using r i bit_imp_le_length [of x] by (auto simp: j_def bit_or_iff bit_push_bit_iff bit_drop_bit_eq)
  with eq show "bit a i = bit b i" by metis
qed

lemma u32_xorshift_inj:
  fixes a b :: u32
  assumes s: "0 < s" and eq: "a XOR drop_bit s a = b XOR drop_bit s b"
  shows "a = b"
proof -
  have bits: "bit a n \<noteq> bit a (s + n) \<longleftrightarrow> bit b n \<noteq> bit b (s + n)" for n
    using arg_cong [OF eq, of "\<lambda>w. bit w n"] by (simp add: bit_xor_iff bit_drop_bit_eq)
  have "bit a n = bit b n" for n
  proof (induction "32 - n" arbitrary: n rule: less_induct)
    case less
    show ?case
    proof (cases "n < 32")
      case True
      then have "bit a (s + n) = bit b (s + n)" using s by (intro less) simp
      then show ?thesis using bits [of n] by blast
    next
      case False
      then show ?thesis using bit_imp_le_length [of a n] bit_imp_le_length [of b n] by auto
    qed
  qed
  then show ?thesis by (intro bit_word_eqI) simp
qed

lemma u32_xor_cancel: "a XOR b = a XOR c \<longleftrightarrow> b = (c :: u32)"
proof
  assume "a XOR b = a XOR c"
  then have "a XOR (a XOR b) = a XOR (a XOR c)" by simp
  then show "b = c" by (simp flip: xor.assoc)
qed simp

definition mix_value :: "u32 \<Rightarrow> u32" where
  "mix_value v = (let w = v * 0xcc9e2d51 in (push_bit 15 w OR drop_bit 17 w) * 0x1b873593)"

definition mix_state :: "u32 \<Rightarrow> u32" where
  "mix_state h = (push_bit 13 h OR drop_bit 19 h) * 5 + 0xe6546b64"

lemma murmur3_mix_state: "mm_state (murmur3_mix s v) = mix_state (mm_state s XOR mix_value v)"
  by (simp add: murmur3_mix_def mix_value_def mix_state_def Let_def)

lemma murmur3_mix_len: "mm_len (murmur3_mix s v) = mm_len s + 4"
  by (simp add: murmur3_mix_def Let_def)

text \<open>Each multiplier of the hash is odd, hence invertible modulo \<open>2 ^ 32\<close>.\<close>

lemma u32_mult_cancel:
  fixes x y :: u32
  shows "x * 0xcc9e2d51 = y * 0xcc9e2d51 \<longleftrightarrow> x = y" "x * 0x1b873593 = y * 0x1b873593 \<longleftrightarrow> x = y"
    "x * 5 = y * 5 \<longleftrightarrow> x = y" "x * 0x85ebca6b = y * 0x85ebca6b \<longleftrightarrow> x = y"
    "x * 0xc2b2ae35 = y * 0xc2b2ae35 \<longleftrightarrow> x = y"
  using u32_mult_inj [of "0xcc9e2d51" "0xdee13bb1" x y] u32_mult_inj [of "0x1b873593" "0x56ed309b" x y]
    u32_mult_inj [of 5 "0xcccccccd" x y] u32_mult_inj [of "0x85ebca6b" "0xa5cb9243" x y]
    u32_mult_inj [of "0xc2b2ae35" "0x7ed1b41d" x y]
  by auto

lemma u32_rot_cancel:
  fixes a b :: u32
  shows "push_bit 15 a OR drop_bit 17 a = push_bit 15 b OR drop_bit 17 b \<longleftrightarrow> a = b"
    "push_bit 13 a OR drop_bit 19 a = push_bit 13 b OR drop_bit 19 b \<longleftrightarrow> a = b"
  using u32_rot_inj [of 15 a b] u32_rot_inj [of 13 a b] by auto

lemma mix_value_inj: "mix_value v = mix_value w \<longleftrightarrow> v = w"
  by (simp only: mix_value_def Let_def u32_mult_cancel u32_rot_cancel)

lemma mix_state_inj: "mix_state g = mix_state h \<longleftrightarrow> g = h"
  by (simp only: mix_state_def add_right_cancel u32_mult_cancel u32_rot_cancel)

lemma murmur3_mix_inj:
  "mm_state (murmur3_mix s v) = mm_state (murmur3_mix t v) \<longleftrightarrow> mm_state s = mm_state t"
  "mm_state (murmur3_mix s v) = mm_state (murmur3_mix s w) \<longleftrightarrow> v = w"
  unfolding murmur3_mix_state mix_state_inj u32_xor_cancel mix_value_inj
  by (simp_all add: xor.commute [of _ "mix_value v"] u32_xor_cancel)

lemma murmur3_finalize_inj:
  assumes "murmur3_finalize s = murmur3_finalize t" and "mm_len s = mm_len t"
  shows "mm_state s = mm_state t"
proof -
  have step: "x XOR drop_bit k x = y XOR drop_bit k y \<longleftrightarrow> x = y" if "0 < k" for x y :: u32 and k
    using that u32_xorshift_inj by blast
  have "mm_state s XOR mm_len t = mm_state t XOR mm_len t"
    using assms unfolding murmur3_finalize_def Let_def by (simp only: step u32_mult_cancel)
  then show ?thesis by (simp only: xor.commute [of _ "mm_len t"] u32_xor_cancel)
qed
end
