(* ===== verification/Ipc_Message_Queue.thy ===== *)
theory Ipc_Message_Queue
  imports Bit_Tools
begin

text \<open>
  The interprocess reliable message queue (src/src/posix/ipc_reliable_message_queue.cpp): the header
  and the ring of blocks in shared memory, the per-process queue object, and the operations on them.
  The ring is raw bytes; positions, sizes and counts are 32-bit integers that wrap around as in the code.
  The process-shared mutex, the condition variables and the shared memory segment belong to the
  operating system: an operation takes the outcomes of its calls to them as arguments, and the
  notifications it sends are recorded in the header in the order they are sent.
\<close>

section \<open>Data\<close>

text \<open>Result codes, overflow policies and the exceptions the operations throw.\<close>

datatype operation_result = Succeeded | No_space | Aborted

datatype overflow_policy = Block_on_overflow | Fail_on_overflow | Throw_on_overflow

datatype ipc_error =
    Logic_error | Capacity_limit_reached | Invalid_argument | Setup_error string
  | System_error | Bad_alloc

text \<open>Notifications sent to the two condition variables of the queue, in the order they are sent.\<close>

datatype ipc_signal = Notify_one_nonempty | Notify_all_nonempty | Notify_all_nonfull

record ipc_header =
  hdr_abi_tag :: u32
  hdr_ref_count :: u32
  hdr_capacity :: u32
  hdr_block_size :: u32
  hdr_size :: u32
  hdr_put_pos :: u32
  hdr_get_pos :: u32
  hdr_blocks :: "u8 list"
  hdr_signals :: "ipc_signal list"

record ipc_implementation =
  impl_overflow_policy :: overflow_policy
  impl_block_size_mask :: u32
  impl_block_size_log2 :: u32
  impl_stop :: bool

abbreviation data_alignment :: u32 where "data_alignment \<equiv> 32"
abbreviation cpu_cache_line_size :: u32 where "cpu_cache_line_size \<equiv> 64"
abbreviation header_overhead :: u32 where "header_overhead \<equiv> 32"

text \<open>
  The ABI tag mixes the size and the offset of every member of the header, in declaration order.
  The layout is the compiler's and comes in as the list of these pairs.
\<close>

type_synonym layout = "(u32 \<times> u32) list"

definition get_abi_tag :: "layout \<Rightarrow> u32" where
  "get_abi_tag members =
     (let hash = murmur3_init (make_fourcc 0x72 0x65 0x6c 0x71);
          hash = murmur3_mix hash (make_fourcc 0x70 0x74 0x68 0x72);
          hash = murmur3_mix hash 0;
          hash = murmur3_mix hash cpu_cache_line_size;
          hash = murmur3_mix hash data_alignment;
          hash = fold (\<lambda>(sz, off) h. murmur3_mix (murmur3_mix h sz) off) members hash
      in murmur3_finalize hash)"

definition new_header :: "layout \<Rightarrow> u32 \<Rightarrow> u32 \<Rightarrow> u8 list \<Rightarrow> ipc_header" where
  "new_header members capacity block_size blocks =
     \<lparr>hdr_abi_tag = get_abi_tag members, hdr_ref_count = 1, hdr_capacity = capacity,
      hdr_block_size = block_size, hdr_size = 0, hdr_put_pos = 0, hdr_get_pos = 0,
      hdr_blocks = blocks, hdr_signals = []\<rparr>"

definition get_block :: "ipc_header \<Rightarrow> u32 \<Rightarrow> nat" where
  "get_block hdr index = unat (hdr_block_size hdr) * unat index"

definition init_block_size :: "u32 \<Rightarrow> ipc_implementation \<Rightarrow> ipc_implementation" where
  "init_block_size block_size impl =
     (let mask = block_size - 1;
          (bs1, l1) = (if block_size AND 0x0000ffff = 0 then (drop_bit 16 block_size, 16) else (block_size, 0));
          (bs2, l2) = (if bs1 AND 0x000000ff = 0 then (drop_bit 8 bs1, l1 + 8) else (bs1, l1));
          (bs3, l3) = (if bs2 AND 0x0000000f = 0 then (drop_bit 4 bs2, l2 + 4) else (bs2, l2));
          (bs4, l4) = (if bs3 AND 0x00000003 = 0 then (drop_bit 2 bs3, l3 + 2) else (bs3, l3));
          l5 = (if bs4 AND 0x00000001 = 0 then l4 + 1 else l4)
      in impl\<lparr>impl_block_size_mask := mask, impl_block_size_log2 := l5\<rparr>)"

definition clear_queue :: "ipc_header \<Rightarrow> ipc_header" where
  "clear_queue hdr =
     hdr\<lparr>hdr_size := 0, hdr_put_pos := 0, hdr_get_pos := 0,
         hdr_signals := hdr_signals hdr @ [Notify_all_nonfull]\<rparr>"

definition estimate_block_count :: "ipc_implementation \<Rightarrow> u32 \<Rightarrow> u32" where
  "estimate_block_count impl message_size =
     drop_bit (unat (impl_block_size_log2 impl)) (message_size + header_overhead + impl_block_size_mask impl)"

definition first_chunk_size :: "ipc_header \<Rightarrow> u32 \<Rightarrow> u32 \<Rightarrow> u32" where
  "first_chunk_size hdr pos message_size =
     min ((hdr_capacity hdr - pos) * hdr_block_size hdr - header_overhead) message_size"

definition enqueue_message :: "ipc_header \<Rightarrow> u8 list \<Rightarrow> u32 \<Rightarrow> u32 \<Rightarrow> ipc_header" where
  "enqueue_message hdr message_data message_size block_count =
     (let capacity = hdr_capacity hdr;
          pos = hdr_put_pos hdr;
          block = get_block hdr pos;
          mem = memcpy_to (hdr_blocks hdr) block (u32_bytes message_size);
          write_size = first_chunk_size hdr pos message_size;
          mem = memcpy_to mem (block + unat header_overhead) (take (unat write_size) message_data);
          pos = pos + block_count;
          (pos, mem) =
            (if capacity \<le> pos
             then (let pos = pos - capacity;
                       message_data = drop (unat write_size) message_data;
                       write_size = message_size - write_size
                   in (pos, if write_size > 0
                            then memcpy_to mem (get_block hdr 0) (take (unat write_size) message_data)
                            else mem))
             else (pos, mem));
          old_queue_size = hdr_size hdr
      in hdr\<lparr>hdr_blocks := mem, hdr_put_pos := pos, hdr_size := old_queue_size + block_count,
             hdr_signals := hdr_signals hdr @ (if old_queue_size = 0 then [Notify_one_nonempty] else [])\<rparr>)"

type_synonym 's receive_handler = "'s \<Rightarrow> u8 list \<Rightarrow> ipc_error + 's"

definition dequeue_message ::
  "ipc_implementation \<Rightarrow> ipc_header \<Rightarrow> 's receive_handler \<Rightarrow> 's \<Rightarrow> (ipc_error + 's) \<times> ipc_header"
where
  "dequeue_message impl hdr handler state =
     (let capacity = hdr_capacity hdr;
          pos = hdr_get_pos hdr;
          block = get_block hdr pos;
          message_size = u32_of_bytes (mem_read (hdr_blocks hdr) block 4);
          block_count = estimate_block_count impl message_size;
          read_size = first_chunk_size hdr pos message_size;
          r1 = handler state (mem_read (hdr_blocks hdr) (block + unat header_overhead) (unat read_size));
          pos1 = pos + block_count;
          tail_size = message_size - read_size;
          r2 = bind_res r1 (\<lambda>state.
                 if capacity \<le> pos1 \<and> tail_size > 0
                 then handler state (mem_read (hdr_blocks hdr) (get_block hdr 0) (unat tail_size))
                 else Inr state);
          pos2 = (if capacity \<le> pos1 then pos1 - capacity else pos1)
      in (case r2 of
            Inl e \<Rightarrow> (Inl e, hdr)
          | Inr state \<Rightarrow>
              (Inr state,
               hdr\<lparr>hdr_get_pos := pos2, hdr_size := hdr_size hdr - block_count,
                   hdr_signals := hdr_signals hdr @ [Notify_all_nonfull]\<rparr>)))"


section \<open>Locking\<close>

text \<open>
  The outcome of locking the process-shared robust mutex: the lock is taken, it is taken from a dead
  owner (and marking the mutex consistent then succeeds or fails), or locking fails.
\<close>

datatype lock_outcome = Locked | Owner_dead bool | Lock_failed

definition lock_queue :: "lock_outcome \<Rightarrow> ipc_header \<Rightarrow> ipc_error option \<times> ipc_header" where
  "lock_queue l hdr =
     (case l of
        Locked \<Rightarrow> (None, hdr)
      | Owner_dead recovered \<Rightarrow>
          (let hdr = clear_queue hdr
           in if recovered then (None, hdr) else (Some System_error, hdr))
      | Lock_failed \<Rightarrow> (Some System_error, hdr))"

section \<open>Sending\<close>

text \<open>
  In this and the other operations \<open>stop0\<close> is the value of \<open>m_stop\<close> read before the lock is taken;
  the object and the header are those found once it is held.
\<close>

text \<open>
  One iteration of the loop of \<open>send\<close> under the lock: the loop is left with a result or an
  exception, or the thread waits on \<open>m_nonfull_queue\<close>, which releases the lock.
\<close>

datatype 'a loop_outcome = Leave 'a | Wait

definition send_iteration ::
  "ipc_implementation \<Rightarrow> ipc_header \<Rightarrow> u8 list \<Rightarrow> u32 \<Rightarrow> u32 \<Rightarrow>
   (ipc_error + operation_result loop_outcome) \<times> ipc_header"
where
  "send_iteration impl hdr message_data message_size block_count =
     (if impl_stop impl then (Inr (Leave Aborted), hdr)
      else if hdr_capacity hdr - hdr_size hdr \<ge> block_count
      then (Inr (Leave Succeeded), enqueue_message hdr message_data message_size block_count)
      else (case impl_overflow_policy impl of
              Fail_on_overflow \<Rightarrow> (Inr (Leave No_space), hdr)
            | Throw_on_overflow \<Rightarrow> (Inl Capacity_limit_reached, hdr)
            | Block_on_overflow \<Rightarrow> (Inr Wait, hdr)))"

text \<open>
  The loop: each element of the list is the state of the queue and of the object found when a wait
  returns with the lock reacquired. When the list is used up and the last iteration waits, the call
  is still blocked.
\<close>

fun send_loop ::
  "ipc_implementation \<Rightarrow> ipc_header \<Rightarrow> (ipc_implementation \<times> ipc_header) list \<Rightarrow>
   u8 list \<Rightarrow> u32 \<Rightarrow> u32 \<Rightarrow> (ipc_error + operation_result loop_outcome) \<times> ipc_header"
where
  "send_loop impl hdr [] message_data message_size block_count =
     send_iteration impl hdr message_data message_size block_count"
| "send_loop impl hdr ((impl', hdr') # wakes) message_data message_size block_count =
     (case send_iteration impl hdr message_data message_size block_count of
        (Inr Wait, _) \<Rightarrow> send_loop impl' hdr' wakes message_data message_size block_count
      | r \<Rightarrow> r)"

definition mq_send ::
  "lock_outcome \<Rightarrow> bool \<Rightarrow> ipc_implementation \<Rightarrow> ipc_header \<Rightarrow>
   (ipc_implementation \<times> ipc_header) list \<Rightarrow>
   u8 list \<Rightarrow> u32 \<Rightarrow> (ipc_error + operation_result loop_outcome) \<times> ipc_header"
where
  "mq_send l stop0 impl hdr wakes message_data message_size =
     (let block_count = estimate_block_count impl message_size
      in if block_count > hdr_capacity hdr then (Inl Logic_error, hdr)
         else if stop0 then (Inr (Leave Aborted), hdr)
         else case lock_queue l hdr of
                (Some e, hdr) \<Rightarrow> (Inl e, hdr)
              | (None, hdr) \<Rightarrow> send_loop impl hdr wakes message_data message_size block_count)"

definition mq_try_send ::
  "lock_outcome \<Rightarrow> bool \<Rightarrow> ipc_implementation \<Rightarrow> ipc_header \<Rightarrow> u8 list \<Rightarrow> u32 \<Rightarrow>
   (ipc_error + bool) \<times> ipc_header"
where
  "mq_try_send l stop0 impl hdr message_data message_size =
     (let block_count = estimate_block_count impl message_size
      in if block_count > hdr_capacity hdr then (Inl Logic_error, hdr)
         else if stop0 then (Inr False, hdr)
         else case lock_queue l hdr of
                (Some e, hdr) \<Rightarrow> (Inl e, hdr)
              | (None, hdr) \<Rightarrow>
                  (if impl_stop impl then (Inr False, hdr)
                   else if hdr_capacity hdr - hdr_size hdr < block_count then (Inr False, hdr)
                   else (Inr True, enqueue_message hdr message_data message_size block_count)))"

section \<open>Receiving\<close>

definition receive_iteration ::
  "ipc_implementation \<Rightarrow> ipc_header \<Rightarrow> 's receive_handler \<Rightarrow> 's \<Rightarrow>
   (ipc_error + (operation_result \<times> 's) loop_outcome) \<times> ipc_header"
where
  "receive_iteration impl hdr handler state =
     (if impl_stop impl then (Inr (Leave (Aborted, state)), hdr)
      else if hdr_size hdr > 0
      then (case dequeue_message impl hdr handler state of
              (Inl e, hdr) \<Rightarrow> (Inl e, hdr)
            | (Inr state, hdr) \<Rightarrow> (Inr (Leave (Succeeded, state)), hdr))
      else (Inr Wait, hdr))"

fun receive_loop ::
  "ipc_implementation \<Rightarrow> ipc_header \<Rightarrow> (ipc_implementation \<times> ipc_header) list \<Rightarrow>
   's receive_handler \<Rightarrow> 's \<Rightarrow> (ipc_error + (operation_result \<times> 's) loop_outcome) \<times> ipc_header"
where
  "receive_loop impl hdr [] handler state = receive_iteration impl hdr handler state"
| "receive_loop impl hdr ((impl', hdr') # wakes) handler state =
     (case receive_iteration impl hdr handler state of
        (Inr Wait, _) \<Rightarrow> receive_loop impl' hdr' wakes handler state
      | r \<Rightarrow> r)"

definition mq_receive ::
  "lock_outcome \<Rightarrow> bool \<Rightarrow> ipc_implementation \<Rightarrow> ipc_header \<Rightarrow>
   (ipc_implementation \<times> ipc_header) list \<Rightarrow>
   's receive_handler \<Rightarrow> 's \<Rightarrow> (ipc_error + (operation_result \<times> 's) loop_outcome) \<times> ipc_header"
where
  "mq_receive l stop0 impl hdr wakes handler state =
     (if stop0 then (Inr (Leave (Aborted, state)), hdr)
      else case lock_queue l hdr of
             (Some e, hdr) \<Rightarrow> (Inl e, hdr)
           | (None, hdr) \<Rightarrow> receive_loop impl hdr wakes handler state)"

definition mq_try_receive ::
  "lock_outcome \<Rightarrow> bool \<Rightarrow> ipc_implementation \<Rightarrow> ipc_header \<Rightarrow> 's receive_handler \<Rightarrow> 's \<Rightarrow>
   (ipc_error + (bool \<times> 's)) \<times> ipc_header"
where
  "mq_try_receive l stop0 impl hdr handler state =
     (if stop0 then (Inr (False, state), hdr)
      else case lock_queue l hdr of
             (Some e, hdr) \<Rightarrow> (Inl e, hdr)
           | (None, hdr) \<Rightarrow>
               (if hdr_size hdr = 0 then (Inr (False, state), hdr)
                else (case dequeue_message impl hdr handler state of
                        (Inl e, hdr) \<Rightarrow> (Inl e, hdr)
                      | (Inr state, hdr) \<Rightarrow> (Inr (True, state), hdr))))"

text \<open>The receive handlers: a fixed buffer (the bytes stored so far and the room left), a container.\<close>

definition fixed_buffer_receive_handler :: "(u8 list \<times> u32) receive_handler" where
  "fixed_buffer_receive_handler p data =
     (let size = of_nat (length data)
      in if size > snd p then Inl Bad_alloc
         else Inr (fst p @ data, snd p - size))"

definition container_receive_handler :: "u8 list receive_handler" where
  "container_receive_handler container data = Inr (container @ data)"

section \<open>Stopping and clearing\<close>

definition mq_stop_local ::
  "lock_outcome \<Rightarrow> bool \<Rightarrow> ipc_implementation \<Rightarrow> ipc_header \<Rightarrow> ipc_error option \<times> ipc_implementation \<times> ipc_header"
where
  "mq_stop_local l stop0 impl hdr =
     (if stop0 then (None, impl, hdr)
      else case lock_queue l hdr of
             (Some e, hdr) \<Rightarrow> (Some e, impl, hdr)
           | (None, hdr) \<Rightarrow>
               (None, impl\<lparr>impl_stop := True\<rparr>,
                hdr\<lparr>hdr_signals := hdr_signals hdr @ [Notify_all_nonempty, Notify_all_nonfull]\<rparr>))"

definition mq_reset_local :: "ipc_implementation \<Rightarrow> ipc_implementation" where
  "mq_reset_local impl = impl\<lparr>impl_stop := False\<rparr>"

definition mq_clear :: "lock_outcome \<Rightarrow> ipc_header \<Rightarrow> ipc_error option \<times> ipc_header" where
  "mq_clear l hdr =
     (case lock_queue l hdr of
        (Some e, hdr) \<Rightarrow> (Some e, hdr)
      | (None, hdr) \<Rightarrow> (None, clear_queue hdr))"


section \<open>Creating, adopting and closing the region\<close>

definition close_region :: "ipc_header \<Rightarrow> ipc_implementation \<Rightarrow> bool \<times> ipc_header \<times> ipc_implementation" where
  "close_region hdr impl =
     (let old = hdr_ref_count hdr;
          hdr = hdr\<lparr>hdr_ref_count := old - 1\<rparr>
      in if old = 1
         then (True, hdr, impl\<lparr>impl_block_size_mask := 0, impl_block_size_log2 := 0\<rparr>)
         else (False, hdr, impl))"

text \<open>
  \<open>create_region\<close> maps a fresh segment, constructs the header in it and derives the mask and the
  logarithm of the block size; \<open>blocks\<close> is the memory of the segment past the header.
\<close>

definition create_region ::
  "layout \<Rightarrow> (nat \<Rightarrow> u8 list) \<Rightarrow> u32 \<Rightarrow> u32 \<Rightarrow> ipc_implementation \<Rightarrow> ipc_implementation \<times> ipc_header"
where
  "create_region members map_region capacity block_size impl =
     (init_block_size block_size impl,
      new_header members capacity block_size (map_region (unat capacity * unat block_size)))"

text \<open>
  Adopting an existing segment first polls its size. An observation is whether the size could be read,
  the size, and the seconds since the first one. The result is None while the caller is still polling.
\<close>

abbreviation region_open_or_create_timeout :: int where "region_open_or_create_timeout \<equiv> 60"
abbreviation region_init_wait_loops :: nat where "region_init_wait_loops \<equiv> 200"

fun wait_region_size :: "nat \<Rightarrow> (bool \<times> int \<times> int) list \<Rightarrow> (ipc_error + nat) option" where
  "wait_region_size header_size [] = None"
| "wait_region_size header_size ((get_size_result, shm_size, elapsed) # obs) =
     (if get_size_result \<and> shm_size > 0
      then (if nat shm_size < header_size
            then Some (Inl (Setup_error ''shared memory segment size too small''))
            else Some (Inr (nat shm_size)))
      else if elapsed \<ge> region_open_or_create_timeout
      then (if get_size_result
            then Some (Inl (Setup_error ''shared memory segment size too small''))
            else Some (Inl (Setup_error ''shared memory segment size could not be determined until timeout'')))
      else wait_region_size header_size obs)"

text \<open>
  Then it tries to take a reference: one iteration reads the reference count, and while it is not zero
  tries to increment it; each element is the count seen and whether the exchange succeeded. After
  \<open>region_init_wait_loops\<close> iterations it gives up.
\<close>

fun acquire_attempt :: "(u32 \<times> bool) list \<Rightarrow> u32 option" where
  "acquire_attempt [] = None"
| "acquire_attempt ((ref_count, exchanged) # tries) =
     (if ref_count > 0 then (if exchanged then Some ref_count else acquire_attempt tries) else None)"

fun wait_region_init :: "nat \<Rightarrow> (u32 \<times> bool) list list \<Rightarrow> (ipc_error + u32) option" where
  "wait_region_init i [] =
     (if i < region_init_wait_loops then None
      else Some (Inl (Setup_error ''shared memory segment is not initialized by creator for too long'')))"
| "wait_region_init i (tries # rest) =
     (if i < region_init_wait_loops
      then (case acquire_attempt tries of
              Some ref_count \<Rightarrow> Some (Inr ref_count)
            | None \<Rightarrow> wait_region_init (i + 1) rest)
      else Some (Inl (Setup_error ''shared memory segment is not initialized by creator for too long'')))"

definition check_region ::
  "layout \<Rightarrow> ipc_header \<Rightarrow> ipc_implementation \<Rightarrow> (ipc_error + ipc_implementation) \<times> ipc_header"
where
  "check_region members hdr impl =
     (if hdr_abi_tag hdr \<noteq> get_abi_tag members
      then (Inl (Setup_error ''the queue ABI is incompatible''), fst (snd (close_region hdr impl)))
      else if \<not> is_power_of_2 (hdr_block_size hdr)
      then (Inl (Setup_error ''the queue block size is not a power of 2''),
            fst (snd (close_region hdr impl)))
      else (Inr (init_block_size (hdr_block_size hdr) impl), hdr))"

definition adopt_region ::
  "layout \<Rightarrow> nat \<Rightarrow> (bool \<times> int \<times> int) list \<Rightarrow> (u32 \<times> bool) list list \<Rightarrow>
   ipc_header \<Rightarrow> ipc_implementation \<Rightarrow> ((ipc_error + ipc_implementation) \<times> ipc_header) option"
where
  "adopt_region members header_size sizes tries hdr impl =
     (case wait_region_size header_size sizes of
        None \<Rightarrow> None
      | Some (Inl e) \<Rightarrow> Some (Inl e, hdr)
      | Some (Inr _) \<Rightarrow>
          (case wait_region_init 0 tries of
             None \<Rightarrow> None
           | Some (Inl e) \<Rightarrow> Some (Inl e, hdr)
           | Some (Inr ref_count) \<Rightarrow> Some (check_region members (hdr\<lparr>hdr_ref_count := ref_count + 1\<rparr>) impl)))"

section \<open>Opening the shared memory segment\<close>

text \<open>
  The outcome of one call that creates or opens the segment, and the loops of the constructors around
  these calls. The lists are the outcomes of the successive calls.
\<close>

datatype shm_outcome = Shm_ok | Shm_already_exists | Shm_not_found | Shm_interrupted | Shm_failed

datatype shm_attempt = Obtained | Give_way | Threw | Pending

fun retry_interrupted :: "shm_outcome option \<Rightarrow> shm_outcome list \<Rightarrow> shm_attempt" where
  "retry_interrupted give_way [] = Pending"
| "retry_interrupted give_way (r # rs) =
     (if r = Shm_ok then Obtained
      else if Some r = give_way then Give_way
      else if r \<noteq> Shm_interrupted then Threw
      else retry_interrupted give_way rs)"

fun open_or_create_loop :: "(shm_outcome list \<times> shm_outcome list \<times> int) list \<Rightarrow> (ipc_error + bool) option" where
  "open_or_create_loop [] = None"
| "open_or_create_loop ((creates, opens, elapsed) # rounds) =
     (case retry_interrupted (Some Shm_already_exists) creates of
        Obtained \<Rightarrow> Some (Inr True)
      | Threw \<Rightarrow> Some (Inl System_error)
      | Pending \<Rightarrow> None
      | Give_way \<Rightarrow>
          (case retry_interrupted (Some Shm_not_found) opens of
             Obtained \<Rightarrow> Some (Inr False)
           | Threw \<Rightarrow> Some (Inl System_error)
           | Pending \<Rightarrow> None
           | Give_way \<Rightarrow>
               (if elapsed \<ge> region_open_or_create_timeout
                then Some (Inl (Setup_error ''shared memory segment failed to be created or opened until timeout''))
                else open_or_create_loop rounds)))"

definition new_implementation :: "overflow_policy \<Rightarrow> ipc_implementation" where
  "new_implementation policy =
     \<lparr>impl_overflow_policy = policy, impl_block_size_mask = 0, impl_block_size_log2 = 0,
      impl_stop = False\<rparr>"

text \<open>
  The three ways to obtain a queue. \<open>align_up\<close> is \<open>boost::alignment::align_up\<close>, \<open>map_region\<close> the
  memory of a fresh segment. The result is None while a call is still in progress.
\<close>

definition mq_create ::
  "(u32 \<Rightarrow> u32 \<Rightarrow> u32) \<Rightarrow> layout \<Rightarrow> (nat \<Rightarrow> u8 list) \<Rightarrow> shm_outcome list \<Rightarrow>
   u32 \<Rightarrow> u32 \<Rightarrow> overflow_policy \<Rightarrow> (ipc_error + (ipc_implementation \<times> ipc_header)) option"
where
  "mq_create align_up members map_region creates capacity block_size policy =
     (if \<not> is_power_of_2 block_size then Some (Inl Invalid_argument)
      else (case retry_interrupted None creates of
              Obtained \<Rightarrow>
                Some (Inr (create_region members map_region capacity
                             (align_up block_size cpu_cache_line_size) (new_implementation policy)))
            | Pending \<Rightarrow> None
            | _ \<Rightarrow> Some (Inl System_error)))"

definition mq_open_or_create ::
  "(u32 \<Rightarrow> u32 \<Rightarrow> u32) \<Rightarrow> layout \<Rightarrow> (nat \<Rightarrow> u8 list) \<Rightarrow> (shm_outcome list \<times> shm_outcome list \<times> int) list \<Rightarrow>
   nat \<Rightarrow> (bool \<times> int \<times> int) list \<Rightarrow> (u32 \<times> bool) list list \<Rightarrow> ipc_header \<Rightarrow>
   u32 \<Rightarrow> u32 \<Rightarrow> overflow_policy \<Rightarrow> ((ipc_error + ipc_implementation) \<times> ipc_header) option"
where
  "mq_open_or_create align_up members map_region rounds header_size sizes tries existing
     capacity block_size policy =
     (if \<not> is_power_of_2 block_size then Some (Inl Invalid_argument, existing)
      else (case open_or_create_loop rounds of
              None \<Rightarrow> None
            | Some (Inl e) \<Rightarrow> Some (Inl e, existing)
            | Some (Inr True) \<Rightarrow>
                (case create_region members map_region capacity
                        (align_up block_size cpu_cache_line_size) (new_implementation policy) of
                   (impl, hdr) \<Rightarrow> Some (Inr impl, hdr))
            | Some (Inr False) \<Rightarrow>
                adopt_region members header_size sizes tries existing (new_implementation policy)))"

definition mq_open ::
  "layout \<Rightarrow> shm_outcome list \<Rightarrow> nat \<Rightarrow> (bool \<times> int \<times> int) list \<Rightarrow> (u32 \<times> bool) list list \<Rightarrow> ipc_header \<Rightarrow>
   overflow_policy \<Rightarrow> ((ipc_error + ipc_implementation) \<times> ipc_header) option"
where
  "mq_open members opens header_size sizes tries existing policy =
     (case retry_interrupted None opens of
        Obtained \<Rightarrow> adopt_region members header_size sizes tries existing (new_implementation policy)
      | Pending \<Rightarrow> None
      | _ \<Rightarrow> Some (Inl System_error, existing))"

end
