(* ===== verification/Fifo_Interface.thy ===== *)
theory Fifo_Interface
  imports Main
begin

text \<open>
  The contract that the queues of the library share. A client puts messages into a queue, which
  may refuse them, and takes messages out of it. \<open>run_ops\<close> runs a sequence of such
  operations and records the accepted and the delivered messages; the locale states what a queue
  promises of a single operation, and its lemma what a client gets from any sequence of them:
  nothing is lost, duplicated or reordered.
\<close>

datatype 'm queue_op = Put 'm | Take

fun run_ops ::
  "('q \<Rightarrow> 'm \<Rightarrow> bool \<times> 'q) \<Rightarrow> ('q \<Rightarrow> 'm option \<times> 'q) \<Rightarrow> 'q \<Rightarrow> 'm queue_op list \<Rightarrow>
   'm list \<times> 'm list \<times> 'q"
where
  "run_ops put tk q [] = ([], [], q)"
| "run_ops put tk q (Put m # ops) =
     (case put q m of (b, q') \<Rightarrow>
      case run_ops put tk q' ops of (acc, rcv, q'') \<Rightarrow> (if b then m # acc else acc, rcv, q''))"
| "run_ops put tk q (Take # ops) =
     (case tk q of (r, q') \<Rightarrow>
      case run_ops put tk q' ops of (acc, rcv, q'') \<Rightarrow>
        (acc, (case r of None \<Rightarrow> rcv | Some m \<Rightarrow> m # rcv), q''))"

fun put_messages :: "'m queue_op list \<Rightarrow> 'm list" where
  "put_messages [] = []"
| "put_messages (Put m # ops) = m # put_messages ops"
| "put_messages (Take # ops) = put_messages ops"

locale fifo_queue =
  fixes repr :: "'q \<Rightarrow> 'm list \<Rightarrow> bool"
    and admissible :: "'m \<Rightarrow> bool"
    and put :: "'q \<Rightarrow> 'm \<Rightarrow> bool \<times> 'q"
    and tk :: "'q \<Rightarrow> 'm option \<times> 'q"
  assumes put_repr:
      "repr q ms \<Longrightarrow> admissible m \<Longrightarrow> put q m = (b, q') \<Longrightarrow> repr q' (if b then ms @ [m] else ms)"
    and take_empty: "repr q [] \<Longrightarrow> \<exists>q'. tk q = (None, q') \<and> repr q' []"
    and take_first: "repr q (m # ms) \<Longrightarrow> \<exists>q'. tk q = (Some m, q') \<and> repr q' ms"
begin

lemma fifo:
  assumes "repr q ms" "\<forall>m \<in> set (put_messages ops). admissible m" "run_ops put tk q ops = (acc, rcv, q')"
  shows "\<exists>ms'. repr q' ms' \<and> ms @ acc = rcv @ ms'"
  using assms
proof (induction ops arbitrary: q ms acc rcv)
  case Nil
  then show ?case by auto
next
  case (Cons opn ops)
  show ?case
  proof (cases opn)
    case (Put m)
    obtain b q1 where p: "put q m = (b, q1)" by (cases "put q m") auto
    obtain acc1 where r: "run_ops put tk q1 ops = (acc1, rcv, q')" and acc: "acc = (if b then m # acc1 else acc1)"
      using Cons.prems(3) Put p by (auto split: prod.splits)
    have "repr q1 (if b then ms @ [m] else ms)"
      using put_repr [OF Cons.prems(1) _ p] Cons.prems(2) Put by simp
    from Cons.IH [OF this _ r] Cons.prems(2) Put obtain ms'
      where "repr q' ms'" "(if b then ms @ [m] else ms) @ acc1 = rcv @ ms'" by auto
    then show ?thesis using acc by (intro exI [of _ ms']) (auto split: if_splits)
  next
    case Take
    show ?thesis
    proof (cases ms)
      case Nil
      then obtain q1 where t: "tk q = (None, q1)" "repr q1 []" using Cons.prems(1) take_empty by blast
      then have "run_ops put tk q1 ops = (acc, rcv, q')"
        using Cons.prems(3) Take by (auto split: prod.splits)
      from Cons.IH [OF t(2) _ this] Cons.prems(2) Take Nil show ?thesis by simp
    next
      case (Cons m ms1)
      then obtain q1 where t: "tk q = (Some m, q1)" "repr q1 ms1" using Cons.prems(1) take_first by blast
      then obtain rcv1 where r: "run_ops put tk q1 ops = (acc, rcv1, q')" and rcv: "rcv = m # rcv1"
        using Cons.prems(3) Take by (auto split: prod.splits)
      from Cons.IH [OF t(2) _ r] Cons.prems(2) Take Cons rcv show ?thesis by simp
    qed
  qed
qed

end

end
