(* ===== verification/Ipc_Queue_Refinement.thy ===== *)
theory Ipc_Queue_Refinement
  imports Ipc_Message_Queue Fifo_Interface
begin

text \<open>
  Functional refinement of the message queue: \<open>mq_repr hdr ms\<close> says that the ring of the header holds
  exactly the messages \<open>ms\<close>, in order. Sending appends to the list and receiving takes its first
  element, wrap-around of the ring and of the 32-bit arithmetic included; the queue is then an instance
  of the FIFO interface.
\<close>

section \<open>The ring of blocks\<close>

text \<open>
  \<open>ring_byte\<close> reads a byte at a position counted modulo the size of the ring, \<open>blocks_for\<close> is the
  number of blocks a message takes together with its 32 byte header, and \<open>msg_at\<close> is the message whose
  first block has index \<open>p\<close>. \<open>ring_ok\<close> is the invariant of the header; the bound on the size of the ring
  is what keeps the 32-bit computations of \<open>enqueue_message\<close> and \<open>dequeue_message\<close> exact.
\<close>

abbreviation nbs :: "ipc_header \<Rightarrow> nat" where "nbs hdr \<equiv> unat (hdr_block_size hdr)"
abbreviation ncap :: "ipc_header \<Rightarrow> nat" where "ncap hdr \<equiv> unat (hdr_capacity hdr)"
abbreviation nring :: "ipc_header \<Rightarrow> nat" where "nring hdr \<equiv> ncap hdr * nbs hdr"

definition ring_byte :: "ipc_header \<Rightarrow> nat \<Rightarrow> u8" where
  "ring_byte hdr k = hdr_blocks hdr ! (k mod nring hdr)"

definition blocks_for :: "ipc_header \<Rightarrow> nat \<Rightarrow> nat" where
  "blocks_for hdr len = (len + 32 + (nbs hdr - 1)) div nbs hdr"

definition msg_size_at :: "ipc_header \<Rightarrow> nat \<Rightarrow> nat" where
  "msg_size_at hdr p = unat (u32_of_bytes (map (\<lambda>i. ring_byte hdr (p * nbs hdr + i)) [0..<4]))"

definition msg_at :: "ipc_header \<Rightarrow> nat \<Rightarrow> u8 list" where
  "msg_at hdr p = map (\<lambda>j. ring_byte hdr (p * nbs hdr + 32 + j)) [0..<msg_size_at hdr p]"

fun stored :: "ipc_header \<Rightarrow> nat \<Rightarrow> u8 list list \<Rightarrow> bool" where
  "stored hdr p [] \<longleftrightarrow> True"
| "stored hdr p (m # ms) \<longleftrightarrow> msg_at hdr p = m \<and> stored hdr (p + blocks_for hdr (length m)) ms"

definition total_blocks :: "ipc_header \<Rightarrow> u8 list list \<Rightarrow> nat" where
  "total_blocks hdr ms = sum_list (map (\<lambda>m. blocks_for hdr (length m)) ms)"

definition ring_ok :: "ipc_header \<Rightarrow> bool" where
  "ring_ok hdr \<longleftrightarrow>
     is_power_of_2 (hdr_block_size hdr) \<and> 32 \<le> nbs hdr \<and> 0 < ncap hdr \<and> nring hdr + nbs hdr \<le> 2 ^ 32 \<and>
     length (hdr_blocks hdr) = nring hdr \<and>
     unat (hdr_get_pos hdr) < ncap hdr \<and> unat (hdr_put_pos hdr) < ncap hdr \<and>
     unat (hdr_size hdr) \<le> ncap hdr \<and>
     unat (hdr_put_pos hdr) = (unat (hdr_get_pos hdr) + unat (hdr_size hdr)) mod ncap hdr"

definition mq_repr :: "ipc_header \<Rightarrow> u8 list list \<Rightarrow> bool" where
  "mq_repr hdr ms \<longleftrightarrow>
     ring_ok hdr \<and> unat (hdr_size hdr) = total_blocks hdr ms \<and>
     stored hdr (unat (hdr_get_pos hdr)) ms"

definition impl_ok :: "ipc_implementation \<Rightarrow> ipc_header \<Rightarrow> bool" where
  "impl_ok impl hdr \<longleftrightarrow>
     impl_block_size_mask impl = hdr_block_size hdr - 1 \<and>
     nbs hdr = 2 ^ unat (impl_block_size_log2 impl)"

subsection \<open>Arithmetic of the ring\<close>

lemma ceil_mult_ge: "0 < b \<Longrightarrow> n \<le> (n + (b - 1)) div b * (b::nat)"
  using dividend_less_div_times [of b "n + (b - 1)"] by linarith

lemma blocks_for_pos [simp]: "0 < nbs hdr \<Longrightarrow> 0 < blocks_for hdr len"
  by (simp add: blocks_for_def div_greater_zero_iff)

lemma blocks_for_enough: "0 < nbs hdr \<Longrightarrow> 32 + len \<le> blocks_for hdr len * nbs hdr"
  using ceil_mult_ge [of "nbs hdr" "len + 32"] by (simp add: blocks_for_def add.commute)

lemma length_msg_at [simp]: "length (msg_at hdr p) = msg_size_at hdr p"
  by (simp add: msg_at_def)

lemma ring_byte_cong:
  "hdr_blocks hdr' = hdr_blocks hdr \<Longrightarrow> nring hdr' = nring hdr \<Longrightarrow> ring_byte hdr' k = ring_byte hdr k"
  by (simp add: ring_byte_def)

lemma ring_byte_add_ring [simp]: "ring_byte hdr (k + nring hdr) = ring_byte hdr k"
  by (simp add: ring_byte_def)

lemma msg_size_at_shift: "msg_size_at hdr (p + ncap hdr) = msg_size_at hdr p"
proof -
  have "ring_byte hdr ((p + ncap hdr) * nbs hdr + i) = ring_byte hdr (p * nbs hdr + i)" for i
    using ring_byte_add_ring [of hdr "p * nbs hdr + i"] by (simp add: algebra_simps)
  then show ?thesis by (simp add: msg_size_at_def)
qed

lemma msg_at_shift: "msg_at hdr (p + ncap hdr) = msg_at hdr p"
proof -
  have "ring_byte hdr ((p + ncap hdr) * nbs hdr + 32 + j) = ring_byte hdr (p * nbs hdr + 32 + j)" for j
    using ring_byte_add_ring [of hdr "p * nbs hdr + 32 + j"] by (simp add: algebra_simps)
  then show ?thesis by (simp add: msg_at_def msg_size_at_shift)
qed

lemma stored_shift: "stored hdr (p + ncap hdr) ms = stored hdr p ms"
proof (induction ms arbitrary: p)
  case (Cons m ms)
  have "p + ncap hdr + blocks_for hdr (length m) = p + blocks_for hdr (length m) + ncap hdr" by simp
  then show ?case by (simp only: stored.simps msg_at_shift Cons.IH)
qed simp

lemma stored_mod: "stored hdr (p mod ncap hdr) ms = stored hdr p ms"
proof -
  have "stored hdr (q + ncap hdr * k) ms = stored hdr q ms" for q k
  proof (induction k)
    case (Suc k)
    then show ?case using stored_shift [of hdr "q + ncap hdr * k" ms] by (simp add: algebra_simps)
  qed simp
  from this [of "p mod ncap hdr" "p div ncap hdr"] show ?thesis by simp
qed

lemma total_blocks_simps [simp]:
  "total_blocks hdr [] = 0"
  "total_blocks hdr (m # ms) = blocks_for hdr (length m) + total_blocks hdr ms"
  "total_blocks hdr (ms @ ms') = total_blocks hdr ms + total_blocks hdr ms'"
  by (simp_all add: total_blocks_def)

lemma total_blocks_cong:
  "hdr_block_size hdr' = hdr_block_size hdr \<Longrightarrow> total_blocks hdr' ms = total_blocks hdr ms"
  by (simp add: total_blocks_def blocks_for_def)

lemma stored_append:
  "stored hdr p (ms @ ms') \<longleftrightarrow> stored hdr p ms \<and> stored hdr (p + total_blocks hdr ms) ms'"
  by (induction ms arbitrary: p) (auto simp: add.assoc)

subsection \<open>A message depends on its own blocks only\<close>

lemma msg_at_frame:
  assumes same: "hdr_block_size hdr' = hdr_block_size hdr"
    and eq: "\<And>k. k < b * nbs hdr \<Longrightarrow> ring_byte hdr' (p * nbs hdr + k) = ring_byte hdr (p * nbs hdr + k)"
    and b: "32 + msg_size_at hdr p \<le> b * nbs hdr"
  shows "msg_at hdr' p = msg_at hdr p"
proof -
  have "ring_byte hdr' (p * nbs hdr + i) = ring_byte hdr (p * nbs hdr + i)" if "i < 4" for i
    using that b by (intro eq) simp
  then have "map (\<lambda>i. ring_byte hdr' (p * nbs hdr + i)) [0..<4] =
      map (\<lambda>i. ring_byte hdr (p * nbs hdr + i)) [0..<4]" by (intro map_cong) auto
  then have sz: "msg_size_at hdr' p = msg_size_at hdr p"
    by (simp only: msg_size_at_def same)
  have "ring_byte hdr' (p * nbs hdr + 32 + j) = ring_byte hdr (p * nbs hdr + 32 + j)"
    if "j < msg_size_at hdr p" for j
    using that b eq [of "32 + j"] by (simp add: add.assoc)
  then show ?thesis by (simp only: msg_at_def sz same) (intro map_cong, auto)
qed

lemma stored_frame:
  assumes "0 < nbs hdr" and same: "hdr_block_size hdr' = hdr_block_size hdr"
    and "\<And>k. k < total_blocks hdr ms * nbs hdr \<Longrightarrow>
           ring_byte hdr' (p * nbs hdr + k) = ring_byte hdr (p * nbs hdr + k)"
    and "stored hdr p ms"
  shows "stored hdr' p ms"
  using assms(3,4)
proof (induction ms arbitrary: p)
  case Nil
  then show ?case by simp
next
  case (Cons m ms)
  let ?b = "blocks_for hdr (length m)"
  have m: "msg_at hdr p = m" using Cons.prems(2) by simp
  have "msg_at hdr' p = msg_at hdr p"
  proof (rule msg_at_frame [OF same, of ?b])
    show "32 + msg_size_at hdr p \<le> ?b * nbs hdr"
      using blocks_for_enough [OF assms(1), of "length m"] m by auto
    show "\<And>k. k < ?b * nbs hdr \<Longrightarrow> ring_byte hdr' (p * nbs hdr + k) = ring_byte hdr (p * nbs hdr + k)"
      by (rule Cons.prems(1)) (simp add: algebra_simps trans_less_add1)
  qed
  moreover have "stored hdr' (p + ?b) ms"
  proof (rule Cons.IH)
    fix k assume "k < total_blocks hdr ms * nbs hdr"
    then show "ring_byte hdr' ((p + ?b) * nbs hdr + k) = ring_byte hdr ((p + ?b) * nbs hdr + k)"
      using Cons.prems(1) [of "?b * nbs hdr + k"] by (simp add: algebra_simps)
  qed (use Cons.prems(2) in simp)
  ultimately show ?case using m by (simp add: blocks_for_def same)
qed

subsection \<open>Writing a message into the ring\<close>

definition ring_write :: "u8 list \<Rightarrow> nat \<Rightarrow> u8 list \<Rightarrow> u8 list \<Rightarrow> u8 list" where
  "ring_write mem off hb d =
     (let w = min (length mem - off - 32) (length d);
          mem = memcpy_to (memcpy_to mem off hb) (off + 32) (take w d)
      in if w < length d then memcpy_to mem 0 (drop w d) else mem)"

lemma length_ring_write:
  assumes "off + 32 \<le> length mem" "32 + length d \<le> length mem" "length hb = 4"
  shows "length (ring_write mem off hb d) = length mem"
  using assms by (auto simp: ring_write_def Let_def min_def)

lemma nth_ring_write:
  assumes off: "off + 32 \<le> length mem" and d: "32 + length d \<le> length mem"
    and hb: "length hb = 4" and k: "k < length mem"
  shows "ring_write mem off hb d ! ((off + k) mod length mem) =
    (if k < 4 then hb ! k
     else if 32 \<le> k \<and> k < 32 + length d then d ! (k - 32)
     else mem ! ((off + k) mod length mem))"
proof -
  define w where "w = min (length mem - off - 32) (length d)"
  define m2 where "m2 = memcpy_to (memcpy_to mem off hb) (off + 32) (take w d)"
  have lw: "length (take w d) = w" by (simp add: w_def)
  have wN: "off + 32 + w \<le> length mem" using off by (simp add: w_def)
  have lm2: "length m2 = length mem"
    unfolding m2_def using lw wN hb by simp
  have nth2: "m2 ! x = (if off + 32 \<le> x \<and> x < off + 32 + w then d ! (x - (off + 32))
      else if off \<le> x \<and> x < off + 4 then hb ! (x - off) else mem ! x)" if "x < length mem" for x
    unfolding m2_def using that lw wN hb by (auto simp: nth_memcpy_to)
  have res: "ring_write mem off hb d = (if w < length d then memcpy_to m2 0 (drop w d) else m2)"
    by (simp add: ring_write_def w_def m2_def Let_def)
  show ?thesis
  proof (cases "w < length d")
    case False
    then have "w = length d" by (simp add: w_def)
    then show ?thesis
      using False k off d wN hb unfolding res
      by (cases "off + k < length mem") (auto simp: nth2 mod_if add.commute)
  next
    case True
    then have w: "length mem = off + 32 + w" using off by (simp add: w_def)
    then have e: "length d - w \<le> off" using d by simp
    have nth3: "memcpy_to m2 0 (drop w d) ! x = (if x < length d - w then d ! (w + x) else m2 ! x)"
      if "x < length mem" for x
      using that e w True lm2 by (subst nth_memcpy_to) auto
    show ?thesis
    proof (cases "off + k < length mem")
      case True1: True
      then have "\<not> off + k < length d - w" using e by simp
      then show ?thesis
        using True True1 hb w unfolding res by (auto simp: nth3 nth2)
    next
      case False
      then have x: "(off + k) mod length mem = off + k - length mem" "off + k - length mem < length mem"
        using k off by (simp_all add: mod_if)
      show ?thesis
        using True False hb w e x k unfolding res by (auto simp: nth3 nth2)
    qed
  qed
qed

lemma u32_of_nat_diff_32:
  assumes "32 \<le> x" "x \<le> 2 ^ 32"
  shows "unat (of_nat x - 32 :: u32) = x - 32"
proof -
  have eq: "(of_nat x - 32 :: u32) = of_nat (x - 32)"
    using assms(1) by (simp add: of_nat_diff)
  show ?thesis unfolding eq unat_of_nat using assms by simp
qed

lemma unat_first_chunk_size:
  assumes ok: "ring_ok hdr" and pos: "unat pos < ncap hdr"
  shows "unat (first_chunk_size hdr pos ms) = min (nring hdr - unat pos * nbs hdr - 32) (unat ms)"
proof -
  let ?x = "(ncap hdr - unat pos) * nbs hdr"
  have le: "pos \<le> hdr_capacity hdr" using pos by (simp add: word_le_nat_alt)
  have "1 * nbs hdr \<le> ?x" using pos by (intro mult_le_mono1) simp
  moreover have "32 \<le> nbs hdr" using ok by (simp add: ring_ok_def)
  ultimately have x: "32 \<le> ?x" by linarith
  have "?x \<le> nring hdr" by simp
  also have "\<dots> \<le> 2 ^ 32" using ok by (simp add: ring_ok_def)
  finally have x2: "?x \<le> 2 ^ 32" .
  have "(hdr_capacity hdr - pos) * hdr_block_size hdr = of_nat ?x"
    using le by (simp add: of_nat_diff word_le_nat_alt)
  then have "unat ((hdr_capacity hdr - pos) * hdr_block_size hdr - 32) = ?x - 32"
    using u32_of_nat_diff_32 [OF x x2] by simp
  then show ?thesis
    by (simp add: first_chunk_size_def unat_min diff_mult_distrib)
qed

lemma ring_ok_cap_bound: "ring_ok hdr \<Longrightarrow> ncap hdr \<le> 2 ^ 27"
proof -
  assume ok: "ring_ok hdr"
  then have "ncap hdr * 32 \<le> nring hdr" by (simp add: ring_ok_def)
  also have "\<dots> \<le> 2 ^ 32" using ok by (simp add: ring_ok_def)
  finally show ?thesis by simp
qed

lemma u32_wrap_pos:
  assumes "unat pos < unat cap" "unat bc \<le> unat cap" "unat cap \<le> 2 ^ 27"
  shows "unat (if cap \<le> pos + bc then pos + bc - cap else (pos + bc :: u32)) =
         (unat pos + unat bc) mod unat cap"
proof -
  have s: "unat (pos + bc) = unat pos + unat bc"
    using assms by (intro unat_add_u32) simp
  show ?thesis
  proof (cases "cap \<le> pos + bc")
    case True
    then have "unat cap \<le> unat pos + unat bc" by (simp add: word_le_nat_alt s)
    moreover have "unat pos + unat bc - unat cap < unat cap" using assms by linarith
    ultimately have "(unat pos + unat bc) mod unat cap = unat pos + unat bc - unat cap"
      by (simp add: le_mod_geq)
    with True show ?thesis by (simp add: unat_sub_u32 s)
  next
    case False
    then have "unat pos + unat bc < unat cap" by (simp add: word_le_nat_alt s)
    with False show ?thesis by (simp add: s)
  qed
qed

lemma enqueue_message_frame [simp]:
  "hdr_capacity (enqueue_message hdr d ms bc) = hdr_capacity hdr"
  "hdr_block_size (enqueue_message hdr d ms bc) = hdr_block_size hdr"
  "hdr_get_pos (enqueue_message hdr d ms bc) = hdr_get_pos hdr"
  "hdr_size (enqueue_message hdr d ms bc) = hdr_size hdr + bc"
  "hdr_ref_count (enqueue_message hdr d ms bc) = hdr_ref_count hdr"
  "hdr_abi_tag (enqueue_message hdr d ms bc) = hdr_abi_tag hdr"
  by (simp_all add: enqueue_message_def Let_def split: prod.split)

lemma enqueue_message_put_pos:
  "hdr_put_pos (enqueue_message hdr d ms bc) =
     (if hdr_capacity hdr \<le> hdr_put_pos hdr + bc then hdr_put_pos hdr + bc - hdr_capacity hdr
      else hdr_put_pos hdr + bc)"
  by (simp add: enqueue_message_def Let_def)

lemma enqueue_message_blocks:
  assumes ok: "ring_ok hdr" and len: "length d = unat ms"
    and fit: "32 + unat ms \<le> unat bc * nbs hdr" "unat bc \<le> ncap hdr"
  shows "hdr_blocks (enqueue_message hdr d ms bc) =
         ring_write (hdr_blocks hdr) (unat (hdr_put_pos hdr) * nbs hdr) (u32_bytes ms) d"
proof -
  let ?p = "hdr_put_pos hdr"
  define w where "w = first_chunk_size hdr ?p ms"
  have p: "unat ?p < ncap hdr" using ok by (simp add: ring_ok_def)
  have w: "unat w = min (nring hdr - unat ?p * nbs hdr - 32) (unat ms)"
    unfolding w_def by (rule unat_first_chunk_size [OF ok p])
  have le: "w \<le> ms" by (simp add: w_def first_chunk_size_def)
  have tl: "unat (ms - w) = unat ms - unat w" using le by (rule unat_sub_u32)
  have len_blocks: "length (hdr_blocks hdr) = nring hdr" using ok by (simp add: ring_ok_def)
  have wrap: "hdr_capacity hdr \<le> ?p + bc" if "unat w < unat ms"
  proof -
    have s: "unat (?p + bc) = unat ?p + unat bc"
      using p fit ring_ok_cap_bound [OF ok] by (intro unat_add_u32) simp
    have "nring hdr < unat ?p * nbs hdr + 32 + unat ms" using that w by linarith
    also have "\<dots> \<le> (unat ?p + unat bc) * nbs hdr" using fit by (simp add: algebra_simps)
    finally have "ncap hdr < unat ?p + unat bc" by simp
    then show ?thesis by (simp add: word_le_nat_alt s)
  qed
  have pos: "0 < ms - w \<longleftrightarrow> unat w < unat ms"
    using tl by (simp add: word_less_nat_alt)
  have "hdr_blocks (enqueue_message hdr d ms bc) =
     (let mem = memcpy_to (memcpy_to (hdr_blocks hdr) (nbs hdr * unat ?p) (u32_bytes ms))
                  (nbs hdr * unat ?p + 32) (take (unat w) d)
      in if hdr_capacity hdr \<le> ?p + bc \<and> 0 < ms - w
         then memcpy_to mem 0 (take (unat (ms - w)) (drop (unat w) d)) else mem)"
    by (simp add: enqueue_message_def Let_def w_def get_block_def)
  also have "\<dots> = ring_write (hdr_blocks hdr) (unat ?p * nbs hdr) (u32_bytes ms) d"
  proof -
    let ?mem = "memcpy_to (memcpy_to (hdr_blocks hdr) (unat ?p * nbs hdr) (u32_bytes ms))
                  (unat ?p * nbs hdr + 32) (take (unat w) d)"
    have "ring_write (hdr_blocks hdr) (unat ?p * nbs hdr) (u32_bytes ms) d =
        (if unat w < unat ms then memcpy_to ?mem 0 (drop (unat w) d) else ?mem)"
      by (simp only: ring_write_def Let_def len len_blocks w [symmetric])
    moreover have "take (unat (ms - w)) (drop (unat w) d) = drop (unat w) d"
      by (simp add: tl len)
    ultimately show ?thesis
      using wrap by (auto simp: Let_def pos mult.commute [of "nbs hdr"])
  qed
  finally show ?thesis .
qed


lemma ring_byte_mod: "ring_byte hdr (p mod ncap hdr * nbs hdr + k) = ring_byte hdr (p * nbs hdr + k)"
  by (simp only: ring_byte_def mod_mult_mult2 [symmetric] mult_mod_left mod_add_left_eq)

lemma ring_byte_behind:
  assumes "T \<le> ncap hdr"
  shows "ring_byte hdr ((g + T) mod ncap hdr * nbs hdr + (nring hdr - T * nbs hdr + k)) =
         ring_byte hdr (g * nbs hdr + k)"
proof -
  have "T * nbs hdr \<le> nring hdr" using assms by (rule mult_le_mono1)
  then have "(g + T) * nbs hdr + (nring hdr - T * nbs hdr + k) = g * nbs hdr + k + nring hdr"
    unfolding add_mult_distrib by linarith
  then show ?thesis by (simp only: ring_byte_mod ring_byte_add_ring)
qed

subsection \<open>Sending appends a message\<close>

lemma enqueue_message_ring_byte:
  assumes ok: "ring_ok hdr" and len: "length d = unat ms"
    and fit: "32 + unat ms \<le> unat bc * nbs hdr" "unat bc \<le> ncap hdr" and k: "k < nring hdr"
  shows "ring_byte (enqueue_message hdr d ms bc) (unat (hdr_put_pos hdr) * nbs hdr + k) =
    (if k < 4 then u32_bytes ms ! k
     else if 32 \<le> k \<and> k < 32 + unat ms then d ! (k - 32)
     else ring_byte hdr (unat (hdr_put_pos hdr) * nbs hdr + k))"
proof -
  let ?off = "unat (hdr_put_pos hdr) * nbs hdr"
  have L: "length (hdr_blocks hdr) = nring hdr" using ok by (simp add: ring_ok_def)
  have "?off + nbs hdr \<le> nring hdr"
    using ok mult_le_mono1 [of "Suc (unat (hdr_put_pos hdr))" "ncap hdr" "nbs hdr"]
    by (simp add: ring_ok_def)
  then have off: "?off + 32 \<le> length (hdr_blocks hdr)" using ok L by (simp add: ring_ok_def)
  note fit(1)
  also have "unat bc * nbs hdr \<le> nring hdr" using fit(2) by (rule mult_le_mono1)
  finally have d: "32 + length d \<le> length (hdr_blocks hdr)" by (simp only: len L)
  show ?thesis
    using nth_ring_write [OF off d _ , of "u32_bytes ms" k] k len
    by (simp add: ring_byte_def enqueue_message_blocks [OF ok len fit] L)
qed

lemma enqueue_message_ring_ok:
  assumes ok: "ring_ok hdr" and len: "length d = unat ms"
    and fit: "32 + unat ms \<le> unat bc * nbs hdr" "unat (hdr_size hdr) + unat bc \<le> ncap hdr"
  shows "ring_ok (enqueue_message hdr d ms bc)"
    and "unat (hdr_size hdr + bc) = unat (hdr_size hdr) + unat bc"
proof -
  show sz: "unat (hdr_size hdr + bc) = unat (hdr_size hdr) + unat bc"
    using fit(2) ring_ok_cap_bound [OF ok] by (intro unat_add_u32) simp
  have bc: "unat bc \<le> ncap hdr" using fit(2) by simp
  have off: "unat (hdr_put_pos hdr) * nbs hdr + 32 \<le> length (hdr_blocks hdr)"
    using ok mult_le_mono1 [of "Suc (unat (hdr_put_pos hdr))" "ncap hdr" "nbs hdr"]
    by (simp add: ring_ok_def)
  note fit(1)
  also have "unat bc * nbs hdr \<le> nring hdr" using bc by (rule mult_le_mono1)
  finally have d: "32 + length d \<le> length (hdr_blocks hdr)"
    using len ok by (simp add: ring_ok_def)
  have L: "length (hdr_blocks (enqueue_message hdr d ms bc)) = nring hdr"
    using length_ring_write [OF off d] ok
    by (simp add: enqueue_message_blocks [OF ok len fit(1) bc] ring_ok_def)
  have put: "unat (hdr_put_pos (enqueue_message hdr d ms bc)) =
      (unat (hdr_put_pos hdr) + unat bc) mod ncap hdr"
    unfolding enqueue_message_put_pos
    using ok bc ring_ok_cap_bound [OF ok] by (intro u32_wrap_pos) (auto simp: ring_ok_def)
  show "ring_ok (enqueue_message hdr d ms bc)"
    using ok fit(2) unfolding ring_ok_def put enqueue_message_frame sz L
    by (simp add: mod_add_left_eq add.assoc)
qed

theorem enqueue_message_appends:
  assumes repr: "mq_repr hdr ms" and len: "length d = unat msz"
    and bc: "unat bc = blocks_for hdr (unat msz)"
    and fit: "unat (hdr_size hdr) + unat bc \<le> ncap hdr"
  shows "mq_repr (enqueue_message hdr d msz bc) (ms @ [d])"
proof -
  let ?h = "enqueue_message hdr d msz bc" and ?p = "unat (hdr_put_pos hdr)" and ?g = "unat (hdr_get_pos hdr)"
  have ok: "ring_ok hdr" and tot: "unat (hdr_size hdr) = total_blocks hdr ms" and st: "stored hdr ?g ms"
    using repr by (simp_all add: mq_repr_def)
  have bs: "0 < nbs hdr" using ok by (simp add: ring_ok_def)
  have enough: "32 + unat msz \<le> unat bc * nbs hdr"
    unfolding bc by (rule blocks_for_enough [OF bs])
  have bc_le: "unat bc \<le> ncap hdr" using fit by simp
  have N: "32 + unat msz \<le> nring hdr" using enough mult_le_mono1 [OF bc_le, of "nbs hdr"] by linarith
  note byte = enqueue_message_ring_byte [OF ok len enough bc_le]
  have p: "?p = (?g + total_blocks hdr ms) mod ncap hdr" using ok tot by (simp add: ring_ok_def)
  have old: "stored ?h ?g ms"
  proof (rule stored_frame [OF bs _ _ st])
    fix k assume k: "k < total_blocks hdr ms * nbs hdr"
    show "ring_byte ?h (?g * nbs hdr + k) = ring_byte hdr (?g * nbs hdr + k)"
    proof -
      let ?k = "nring hdr - total_blocks hdr ms * nbs hdr + k"
      have T: "unat bc * nbs hdr \<le> nring hdr - total_blocks hdr ms * nbs hdr"
        using mult_le_mono1 [OF fit, of "nbs hdr"] tot by (simp add: add_mult_distrib)
      have "total_blocks hdr ms * nbs hdr \<le> nring hdr" using fit tot by (intro mult_le_mono1) simp
      then have "?k < nring hdr" using k by linarith
      then have "ring_byte ?h (?p * nbs hdr + ?k) = ring_byte hdr (?p * nbs hdr + ?k)"
        using byte [of ?k] T enough by simp
      then show ?thesis
        using ring_byte_behind [of "total_blocks hdr ms" ?h] ring_byte_behind [of "total_blocks hdr ms" hdr]
          fit tot p by simp
    qed
  qed simp
  have "u32_of_bytes (map (\<lambda>i. ring_byte ?h (?p * nbs hdr + i)) [0..<4]) = msz"
  proof -
    have "map (\<lambda>i. ring_byte ?h (?p * nbs hdr + i)) [0..<4] = u32_bytes msz"
      using N by (intro nth_equalityI) (auto simp: byte)
    then show ?thesis by simp
  qed
  then have sz: "msg_size_at ?h ?p = unat msz" by (simp add: msg_size_at_def)
  have new: "msg_at ?h ?p = d"
    using N len byte [of "32 + j" for j] by (intro nth_equalityI) (auto simp: msg_at_def sz add.assoc)
  have "stored ?h (?g + total_blocks hdr ms) [d]"
    using new p stored_mod [of ?h "?g + total_blocks hdr ms" "[d]"] by simp
  with old have "stored ?h ?g (ms @ [d])"
    by (simp add: stored_append total_blocks_cong [of ?h hdr])
  then show ?thesis
    using enqueue_message_ring_ok [OF ok len enough fit] tot bc len
    by (simp add: mq_repr_def total_blocks_cong [of ?h hdr] blocks_for_def)
qed

subsection \<open>Block counts\<close>

lemma estimate_block_count_exact:
  assumes impl: "impl_ok impl hdr" and bs: "0 < nbs hdr"
    and no_wrap: "unat msz + 32 + (nbs hdr - 1) < 2 ^ 32"
  shows "unat (estimate_block_count impl msz) = blocks_for hdr (unat msz)"
proof -
  have mask: "unat (hdr_block_size hdr - 1) = nbs hdr - 1"
    using bs by (subst unat_sub) (auto simp: word_le_nat_alt)
  have "unat (msz + 32) = unat msz + 32"
    using no_wrap by (subst unat_add_u32) auto
  then have "unat (msz + 32 + (hdr_block_size hdr - 1)) = unat msz + 32 + (nbs hdr - 1)"
    using no_wrap mask by (subst unat_add_u32) auto
  then show ?thesis
    using impl unfolding estimate_block_count_def impl_ok_def blocks_for_def
    by (simp add: unat_drop_bit_eq, simp add: drop_bit_eq_div)
qed

lemma u32_eq_of_nat: "unat (w::u32) = n \<Longrightarrow> w = of_nat n"
  by auto


subsection \<open>Receiving takes the first message\<close>

definition remove_first :: "ipc_header \<Rightarrow> nat \<Rightarrow> ipc_header" where
  "remove_first hdr n =
     hdr\<lparr>hdr_get_pos := of_nat ((unat (hdr_get_pos hdr) + blocks_for hdr n) mod ncap hdr),
         hdr_size := hdr_size hdr - of_nat (blocks_for hdr n),
         hdr_signals := hdr_signals hdr @ [Notify_all_nonfull]\<rparr>"

lemma ring_no_wrap:
  assumes ok: "ring_ok hdr" and fit: "blocks_for hdr n \<le> ncap hdr"
  shows "n + 32 + (nbs hdr - 1) < 2 ^ 32"
proof -
  have bs: "0 < nbs hdr" and N: "nring hdr + nbs hdr \<le> 2 ^ 32" using ok by (simp_all add: ring_ok_def)
  show ?thesis
    using blocks_for_enough [OF bs, of n] mult_le_mono1 [OF fit, of "nbs hdr"] N bs by linarith
qed

lemma mem_read_ring:
  assumes "ring_ok hdr" "p * nbs hdr + off + n \<le> nring hdr"
  shows "mem_read (hdr_blocks hdr) (nbs hdr * p + off) n = map (\<lambda>i. ring_byte hdr (p * nbs hdr + off + i)) [0..<n]"
  using assms
  by (intro nth_equalityI) (auto simp: ring_ok_def nth_mem_read ring_byte_def mult.commute [of "nbs hdr"])

lemma dequeue_message_chunks:
  assumes ok: "ring_ok hdr" and impl: "impl_ok impl hdr"
    and n: "msg_size_at hdr (unat (hdr_get_pos hdr)) = n"
    and m: "msg_at hdr (unat (hdr_get_pos hdr)) = m"
    and fit: "blocks_for hdr n \<le> ncap hdr"
  shows "\<exists>c1 c2. m = c1 @ c2 \<and>
    dequeue_message impl hdr handler s =
      (case bind_res (handler s c1) (\<lambda>s. if c2 \<noteq> [] then handler s c2 else Inr s) of
         Inl e \<Rightarrow> (Inl e, hdr)
       | Inr s \<Rightarrow> (Inr s, remove_first hdr n))"
proof -
  let ?g = "hdr_get_pos hdr" and ?G = "unat (hdr_get_pos hdr)"
  define sz where "sz = u32_of_bytes (mem_read (hdr_blocks hdr) (get_block hdr ?g) 4)"
  define rd where "rd = first_chunk_size hdr ?g sz"
  define bc where "bc = estimate_block_count impl sz"
  have g: "?G < ncap hdr" and bs: "32 \<le> nbs hdr" and N: "length (hdr_blocks hdr) = nring hdr"
    using ok by (simp_all add: ring_ok_def)
  have "(?G + 1) * nbs hdr \<le> nring hdr" using g by (intro mult_le_mono1) simp
  then have g1: "?G * nbs hdr + 32 \<le> nring hdr" using bs by simp
  have sz: "unat sz = n"
    using n mem_read_ring [OF ok, of ?G 0 4] g1 by (simp add: sz_def msg_size_at_def get_block_def)
  have rd: "unat rd = min (nring hdr - ?G * nbs hdr - 32) n"
    unfolding rd_def by (simp add: unat_first_chunk_size [OF ok g] sz)
  have no_wrap: "n + 32 + (nbs hdr - 1) < 2 ^ 32" by (rule ring_no_wrap [OF ok fit])
  have bc: "unat bc = blocks_for hdr n"
    unfolding bc_def using estimate_block_count_exact [OF impl, of sz] bs no_wrap sz by simp
  have rd_le: "rd \<le> sz" by (simp add: rd_def first_chunk_size_def)
  have tl: "unat (sz - rd) = n - unat rd" using unat_sub_u32 [OF rd_le] sz by simp
  have pos: "0 < sz - rd \<longleftrightarrow> unat rd < n" using tl by (simp add: word_less_nat_alt)
  have enough: "32 + n \<le> blocks_for hdr n * nbs hdr" using bs by (intro blocks_for_enough) simp
  have wrap: "hdr_capacity hdr \<le> ?g + bc" if "unat rd < n"
  proof -
    have s: "unat (?g + bc) = ?G + unat bc"
      using g bc fit ring_ok_cap_bound [OF ok] by (intro unat_add_u32) simp
    have "nring hdr < ?G * nbs hdr + 32 + n" using that rd by linarith
    also have "\<dots> \<le> (?G + unat bc) * nbs hdr" using enough bc by (simp add: algebra_simps)
    finally have "ncap hdr < ?G + unat bc" by simp
    then show ?thesis by (simp add: word_le_nat_alt s)
  qed
  define c1 where "c1 = mem_read (hdr_blocks hdr) (get_block hdr ?g + 32) (unat rd)"
  define c2 where "c2 = mem_read (hdr_blocks hdr) (get_block hdr 0) (unat (sz - rd))"
  have c1: "c1 = map (\<lambda>j. ring_byte hdr (?G * nbs hdr + 32 + j)) [0..<unat rd]"
    unfolding c1_def get_block_def using g1 rd by (intro mem_read_ring [OF ok]) linarith
  have tl_le: "n - unat rd \<le> nring hdr"
    using enough mult_le_mono1 [OF fit, of "nbs hdr"] by linarith
  have c2': "c2 = map (\<lambda>i. ring_byte hdr i) [0..<n - unat rd]"
    using mem_read_ring [OF ok, of 0 0 "n - unat rd"] tl_le by (simp add: c2_def get_block_def tl)
  have c2: "c2 = map (\<lambda>j. ring_byte hdr (?G * nbs hdr + 32 + (unat rd + j))) [0..<n - unat rd]"
  proof (cases "unat rd < n")
    case True
    then have "?G * nbs hdr + 32 + unat rd = nring hdr" using rd g1 by linarith
    then have "?G * nbs hdr + 32 + (unat rd + j) = j + nring hdr" for j by simp
    then show ?thesis unfolding c2' by (simp only: ring_byte_add_ring)
  qed (simp add: c2')
  have le: "unat rd \<le> n" using rd by simp
  have eq: "m = c1 @ c2"
    using m le unfolding c1 c2
    by (intro nth_equalityI) (auto simp: msg_at_def n nth_append)
  have cond: "hdr_capacity hdr \<le> ?g + bc \<and> 0 < sz - rd \<longleftrightarrow> c2 \<noteq> []"
    using wrap pos by (auto simp: c2')
  have pos2: "(if hdr_capacity hdr \<le> ?g + bc then ?g + bc - hdr_capacity hdr else ?g + bc) =
      of_nat ((?G + blocks_for hdr n) mod ncap hdr)"
    using u32_wrap_pos [of ?g "hdr_capacity hdr" bc] g bc fit ring_ok_cap_bound [OF ok]
    by (intro u32_eq_of_nat) simp
  have bc_eq: "bc = of_nat (blocks_for hdr n)" using bc by (rule u32_eq_of_nat)
  have "unat (32::u32) = 32" by simp
  then have "dequeue_message impl hdr handler s =
      (case bind_res (handler s c1) (\<lambda>s. if c2 \<noteq> [] then handler s c2 else Inr s) of
         Inl e \<Rightarrow> (Inl e, hdr)
       | Inr s \<Rightarrow> (Inr s, hdr\<lparr>hdr_get_pos := of_nat ((unat (hdr_get_pos hdr) + blocks_for hdr n) mod ncap hdr),
            hdr_size := hdr_size hdr - bc,
            hdr_signals := hdr_signals hdr @ [Notify_all_nonfull]\<rparr>))"
    unfolding dequeue_message_def Let_def
    by (simp only: sz_def [symmetric] rd_def [symmetric] bc_def [symmetric] c2_def [symmetric]
        c1_def [symmetric] cond pos2)
  then show ?thesis
    unfolding remove_first_def using eq bc_eq by blast
qed

lemma remove_first_repr:
  assumes repr: "mq_repr hdr (m # ms)"
  shows "mq_repr (remove_first hdr (length m)) ms"
proof -
  let ?b = "blocks_for hdr (length m)" and ?h = "remove_first hdr (length m)" and ?g = "unat (hdr_get_pos hdr)"
  have ok: "ring_ok hdr" and sz: "unat (hdr_size hdr) = ?b + total_blocks hdr ms"
    and st: "stored hdr (?g + ?b) ms" using repr by (simp_all add: mq_repr_def)
  have cap: "0 < ncap hdr" "ncap hdr \<le> 2 ^ 27" "unat (hdr_size hdr) \<le> ncap hdr"
    using ok ring_ok_cap_bound [OF ok] by (simp_all add: ring_ok_def)
  have b: "unat (of_nat ?b :: u32) = ?b" using cap sz by (simp add: unat_of_nat)
  have "(?g + ?b) mod ncap hdr < ncap hdr" using cap by simp
  also note cap(2)
  also have "(2::nat) ^ 27 < 2 ^ 32" by simp
  finally have "(?g + ?b) mod ncap hdr < 2 ^ 32" .
  then have g: "unat (hdr_get_pos ?h) = (?g + ?b) mod ncap hdr"
    by (simp add: remove_first_def unat_of_nat)
  have s: "unat (hdr_size ?h) = total_blocks hdr ms"
    using b sz by (simp add: remove_first_def unat_sub word_le_nat_alt)
  have "stored hdr ((?g + ?b) mod ncap hdr) ms" using st by (simp only: stored_mod)
  then have st': "stored ?h ((?g + ?b) mod ncap hdr) ms"
    by (rule stored_frame [rotated 3])
      (use ok in \<open>simp_all add: remove_first_def ring_byte_def ring_ok_def\<close>)
  have frame: "hdr_block_size ?h = hdr_block_size hdr" "hdr_capacity ?h = hdr_capacity hdr"
    "hdr_blocks ?h = hdr_blocks hdr" "hdr_put_pos ?h = hdr_put_pos hdr"
    by (simp_all add: remove_first_def)
  have put: "unat (hdr_put_pos hdr) = ((?g + ?b) mod ncap hdr + total_blocks hdr ms) mod ncap hdr"
    using ok sz by (simp add: ring_ok_def mod_add_left_eq add.assoc)
  have "ring_ok ?h"
    using ok cap sz put unfolding ring_ok_def frame g s by simp
  then show ?thesis
    using st' g s total_blocks_cong [OF frame(1)] by (simp add: mq_repr_def)
qed

lemma dequeue_message_refines:
  assumes repr: "mq_repr hdr (m # ms)" and impl: "impl_ok impl hdr"
  shows "\<exists>c1 c2. m = c1 @ c2 \<and>
    dequeue_message impl hdr handler s =
      (case bind_res (handler s c1) (\<lambda>s. if c2 \<noteq> [] then handler s c2 else Inr s) of
         Inl e \<Rightarrow> (Inl e, hdr)
       | Inr s \<Rightarrow> (Inr s, remove_first hdr (length m)))"
proof -
  have ok: "ring_ok hdr" and m: "msg_at hdr (unat (hdr_get_pos hdr)) = m"
    and fit: "blocks_for hdr (length m) \<le> ncap hdr"
    using repr by (auto simp: mq_repr_def ring_ok_def)
  have "msg_size_at hdr (unat (hdr_get_pos hdr)) = length m" using m by auto
  from dequeue_message_chunks [OF ok impl this m fit] show ?thesis .
qed

lemma dequeue_container:
  assumes "mq_repr hdr (m # ms)" "impl_ok impl hdr"
  shows "dequeue_message impl hdr container_receive_handler c =
    (Inr (c @ m), remove_first hdr (length m))"
  using dequeue_message_refines [OF assms, of container_receive_handler c]
  by (auto simp: container_receive_handler_def)

lemma dequeue_fixed_buffer:
  assumes repr: "mq_repr hdr (m # ms)" and impl: "impl_ok impl hdr"
  shows "dequeue_message impl hdr fixed_buffer_receive_handler (b, room) =
    (if length m \<le> unat room
     then (Inr (b @ m, room - of_nat (length m)), remove_first hdr (length m))
     else (Inl Bad_alloc, hdr))"
proof -
  have ok: "ring_ok hdr" and fit: "blocks_for hdr (length m) \<le> ncap hdr"
    using repr by (auto simp: mq_repr_def ring_ok_def)
  have len: "length m < 2 ^ 32" using ring_no_wrap [OF ok fit] by simp
  have of_len: "unat (of_nat n :: u32) = n" if "n \<le> length m" for n
    using that len by (simp add: unat_of_nat)
  from dequeue_message_refines [OF repr impl, of fixed_buffer_receive_handler "(b, room)"] obtain c1 c2
    where m: "m = c1 @ c2" and d: "dequeue_message impl hdr fixed_buffer_receive_handler (b, room) =
      (case bind_res (fixed_buffer_receive_handler (b, room) c1)
          (\<lambda>s. if c2 \<noteq> [] then fixed_buffer_receive_handler s c2 else Inr s) of
         Inl e \<Rightarrow> (Inl e, hdr)
       | Inr s \<Rightarrow> (Inr s, remove_first hdr (length m)))" by blast
  have l: "unat (of_nat (length c1) :: u32) = length c1" "unat (of_nat (length c2) :: u32) = length c2"
    using of_len m by simp_all
  have gt: "of_nat (length c1) > room \<longleftrightarrow> unat room < length c1" by (simp add: word_less_nat_alt l)
  show ?thesis
  proof (cases "unat room < length c1")
    case True
    then show ?thesis using d gt m by (simp add: fixed_buffer_receive_handler_def)
  next
    case False
    then have "unat (room - of_nat (length c1)) = unat room - length c1"
      by (simp add: unat_sub word_le_nat_alt l)
    then have gt2: "of_nat (length c2) > room - of_nat (length c1) \<longleftrightarrow> unat room < length c1 + length c2"
      using False by (simp add: word_less_nat_alt l less_diff_conv2)
        arith
    show ?thesis using d gt gt2 False m by (auto simp: fixed_buffer_receive_handler_def)
  qed
qed

subsection \<open>Block size\<close>

lemma unat_p2: "k < 32 \<Longrightarrow> unat ((2::u32) ^ k) = 2 ^ k"
proof -
  assume "k < 32"
  then have "(2::nat) ^ k < 2 ^ 32" by (rule power_strict_increasing) simp
  then have "unat (of_nat (2 ^ k) :: u32) = 2 ^ k" unfolding unat_of_nat by simp
  then show ?thesis by (simp only: of_nat_power of_nat_numeral)
qed

lemma init_block_size_fields:
  "impl_block_size_mask (init_block_size bs impl) = bs - 1"
  "impl_block_size_log2 (init_block_size bs impl) =
     impl_block_size_log2 (init_block_size bs (new_implementation Block_on_overflow))"
  "impl_stop (init_block_size bs impl) = impl_stop impl"
  "impl_overflow_policy (init_block_size bs impl) = impl_overflow_policy impl"
  by (simp_all add: init_block_size_def Let_def)

lemma init_block_size_log2_all:
  "list_all (\<lambda>k. unat (impl_block_size_log2
     (init_block_size (push_bit k 1) (new_implementation Block_on_overflow))) = k) [0..<32]"
  by code_simp

lemma init_block_size_log2:
  "k < 32 \<Longrightarrow> unat (impl_block_size_log2 (init_block_size (2 ^ k) impl)) = k"
  using init_block_size_log2_all
  by (simp add: list_all_iff init_block_size_fields(2) [of _ impl] push_bit_eq_mult)

lemma init_block_size_impl_ok:
  assumes "is_power_of_2 (hdr_block_size hdr)"
  shows "impl_ok (init_block_size (hdr_block_size hdr) impl) hdr"
proof -
  obtain k where k: "k < 32" "hdr_block_size hdr = 2 ^ k"
    using assms by (auto simp: is_power_of_2_iff)
  then have "unat (hdr_block_size hdr) = 2 ^ k" by (simp add: unat_p2)
  with k show ?thesis
    by (simp add: impl_ok_def init_block_size_fields(1) init_block_size_log2)
qed

subsection \<open>Guards in terms of blocks\<close>

lemma mq_repr_free:
  assumes "mq_repr hdr ms" "unat bc \<le> ncap hdr"
  shows "bc \<le> hdr_capacity hdr - hdr_size hdr \<longleftrightarrow> total_blocks hdr ms + unat bc \<le> ncap hdr"
proof -
  have "hdr_size hdr \<le> hdr_capacity hdr" and s: "unat (hdr_size hdr) = total_blocks hdr ms"
    using assms by (simp_all add: mq_repr_def ring_ok_def word_le_nat_alt)
  then have "unat (hdr_capacity hdr - hdr_size hdr) = ncap hdr - total_blocks hdr ms"
    by (simp add: unat_sub)
  then show ?thesis using \<open>hdr_size hdr \<le> hdr_capacity hdr\<close> s by (auto simp: word_le_nat_alt)
qed

lemma mq_repr_size_0:
  assumes r: "mq_repr hdr ms"
  shows "hdr_size hdr = 0 \<longleftrightarrow> ms = []"
proof -
  have "hdr_size hdr = 0 \<longleftrightarrow> total_blocks hdr ms = 0"
    using r by (metis mq_repr_def unat_eq_0)
  moreover have "0 < total_blocks hdr (m # ms')" for m ms'
    using r blocks_for_pos [of hdr "length m"] by (simp add: mq_repr_def ring_ok_def)
  ultimately show ?thesis by (cases ms) auto
qed

text \<open>A message that cannot make the block count wrap around.\<close>

definition sizable :: "ipc_header \<Rightarrow> nat \<Rightarrow> bool" where
  "sizable hdr n \<longleftrightarrow> n + 32 + (nbs hdr - 1) < 2 ^ 32"

lemma mq_repr_bs: "mq_repr hdr ms \<Longrightarrow> 0 < nbs hdr"
  by (auto simp: mq_repr_def ring_ok_def)

lemma try_send_spec:
  assumes repr: "mq_repr hdr ms" and impl: "impl_ok impl hdr"
    and len: "length d = unat sz" and s: "sizable hdr (unat sz)" and run: "\<not> impl_stop impl"
  shows "\<exists>hdr'. mq_try_send Locked False impl hdr d sz =
      (if ncap hdr < blocks_for hdr (length d) then (Inl Logic_error, hdr)
       else if ncap hdr < total_blocks hdr ms + blocks_for hdr (length d) then (Inr False, hdr)
       else (Inr True, hdr')) \<and>
     (total_blocks hdr ms + blocks_for hdr (length d) \<le> ncap hdr \<longrightarrow> mq_repr hdr' (ms @ [d]) \<and>
       hdr_block_size hdr' = hdr_block_size hdr \<and> hdr_capacity hdr' = hdr_capacity hdr)"
proof -
  let ?bc = "estimate_block_count impl sz"
  have bc: "unat ?bc = blocks_for hdr (unat sz)"
    using estimate_block_count_exact [OF impl mq_repr_bs [OF repr]] s by (simp add: sizable_def)
  have size: "unat (hdr_size hdr) = total_blocks hdr ms" using repr by (simp add: mq_repr_def)
  have over: "hdr_capacity hdr < ?bc \<longleftrightarrow> ncap hdr < blocks_for hdr (unat sz)"
    by (simp add: word_less_nat_alt bc)
  have free: "?bc \<le> hdr_capacity hdr - hdr_size hdr \<longleftrightarrow>
      total_blocks hdr ms + blocks_for hdr (unat sz) \<le> ncap hdr" if "blocks_for hdr (unat sz) \<le> ncap hdr"
    using mq_repr_free [OF repr, of ?bc] that by (simp add: bc)
  show ?thesis
    using enqueue_message_appends [OF repr len bc] over free bc size run len
    by (intro exI [of _ "enqueue_message hdr d sz ?bc"])
      (auto simp: mq_try_send_def Let_def lock_queue_def not_less not_le)
qed

lemma try_receive_spec:
  assumes repr: "mq_repr hdr ms" and impl: "impl_ok impl hdr"
  shows "\<exists>hdr'. mq_try_receive Locked False impl hdr container_receive_handler c =
      (case ms of [] \<Rightarrow> (Inr (False, c), hdr) | m # ms' \<Rightarrow> (Inr (True, c @ m), hdr')) \<and>
      (ms \<noteq> [] \<longrightarrow> mq_repr hdr' (tl ms) \<and> hdr_block_size hdr' = hdr_block_size hdr)"
  using mq_repr_size_0 [OF repr] dequeue_container [OF _ impl] remove_first_repr repr
  by (cases ms) (auto simp: mq_try_receive_def lock_queue_def remove_first_def)

subsection \<open>The queue as a FIFO\<close>

definition ipc_repr :: "ipc_implementation \<times> ipc_header \<Rightarrow> u8 list list \<Rightarrow> bool" where
  "ipc_repr q ms \<longleftrightarrow> mq_repr (snd q) ms \<and> impl_ok (fst q) (snd q) \<and> \<not> impl_stop (fst q)"

definition ipc_admissible :: "u8 list \<Rightarrow> bool" where
  "ipc_admissible m \<longleftrightarrow> length m + 32 \<le> 2 ^ 31"

definition ipc_put :: "ipc_implementation \<times> ipc_header \<Rightarrow> u8 list \<Rightarrow> bool \<times> (ipc_implementation \<times> ipc_header)" where
  "ipc_put q m =
     (case mq_try_send Locked False (fst q) (snd q) m (of_nat (length m)) of
        (Inr b, hdr) \<Rightarrow> (b, (fst q, hdr)) | (Inl e, hdr) \<Rightarrow> (False, (fst q, hdr)))"

definition ipc_take :: "ipc_implementation \<times> ipc_header \<Rightarrow> u8 list option \<times> (ipc_implementation \<times> ipc_header)" where
  "ipc_take q =
     (case mq_try_receive Locked False (fst q) (snd q) container_receive_handler [] of
        (Inr (b, c), hdr) \<Rightarrow> (if b then Some c else None, (fst q, hdr))
      | (Inl e, hdr) \<Rightarrow> (None, (fst q, hdr)))"

lemma ring_block_size_bound: "ring_ok hdr \<Longrightarrow> nbs hdr \<le> 2 ^ 31"
proof -
  assume ok: "ring_ok hdr"
  then have "(1 + 1) * nbs hdr \<le> (ncap hdr + 1) * nbs hdr" by (intro mult_le_mono1) (simp add: ring_ok_def)
  also have "\<dots> \<le> 2 ^ 32" using ok by (simp add: ring_ok_def)
  finally show ?thesis by simp
qed

lemma ipc_put_repr:
  assumes q: "ipc_repr q ms" and m: "ipc_admissible m" and put: "ipc_put q m = (b, q')"
  shows "ipc_repr q' (if b then ms @ [m] else ms)"
proof -
  obtain impl hdr where [simp]: "q = (impl, hdr)" by (cases q)
  have repr: "mq_repr hdr ms" and impl: "impl_ok impl hdr" and run: "\<not> impl_stop impl"
    using q by (simp_all add: ipc_repr_def)
  have len: "length m = unat (of_nat (length m) :: u32)"
    using m by (simp add: ipc_admissible_def unat_of_nat)
  have "sizable hdr (length m)"
    using m ring_block_size_bound [of hdr] repr
    by (simp add: sizable_def ipc_admissible_def mq_repr_def)
  then obtain hdr' where
    "mq_try_send Locked False impl hdr m (of_nat (length m)) =
      (if ncap hdr < blocks_for hdr (length m) then (Inl Logic_error, hdr)
       else if ncap hdr < total_blocks hdr ms + blocks_for hdr (length m) then (Inr False, hdr)
       else (Inr True, hdr'))"
    "total_blocks hdr ms + blocks_for hdr (length m) \<le> ncap hdr \<Longrightarrow> mq_repr hdr' (ms @ [m])"
    "total_blocks hdr ms + blocks_for hdr (length m) \<le> ncap hdr \<Longrightarrow>
       hdr_block_size hdr' = hdr_block_size hdr"
    using try_send_spec [OF repr impl len _ run] len by auto
  then show ?thesis
    using put repr impl run by (auto simp: ipc_put_def ipc_repr_def impl_ok_def split: if_splits)
qed

interpretation ipc: fifo_queue ipc_repr ipc_admissible ipc_put ipc_take
proof
  show "ipc_repr q ms \<Longrightarrow> ipc_admissible m \<Longrightarrow> ipc_put q m = (b, q') \<Longrightarrow>
      ipc_repr q' (if b then ms @ [m] else ms)" for q ms m b q'
    by (rule ipc_put_repr)
  show "ipc_repr q [] \<Longrightarrow> \<exists>q'. ipc_take q = (None, q') \<and> ipc_repr q' []" for q
    using try_receive_spec [of "snd q" "[]" "fst q" "[]"] by (auto simp: ipc_repr_def ipc_take_def)
  show "ipc_repr q (m # ms) \<Longrightarrow> \<exists>q'. ipc_take q = (Some m, q') \<and> ipc_repr q' ms" for q m ms
    using try_receive_spec [of "snd q" "m # ms" "fst q" "[]"]
    by (auto simp: ipc_repr_def ipc_take_def impl_ok_def)
qed

subsection \<open>Creation\<close>

lemma new_header_empty:
  assumes "is_power_of_2 bs" "32 \<le> unat bs" "0 < unat cap" "unat cap * unat bs + unat bs \<le> 2 ^ 32"
    "length mem = unat cap * unat bs"
  shows "mq_repr (new_header members cap bs mem) []"
  using assms by (simp add: mq_repr_def ring_ok_def new_header_def)

end
