(* ===== verification/Ipc_Queue_Properties.thy ===== *)
theory Ipc_Queue_Properties
  imports Ipc_Queue_Refinement "HOL-Library.Code_Target_Nat"
begin

text \<open>
  What the message queue guarantees to its users: the sending and receiving calls on every branch, the
  creation and adoption of a queue, the ABI tag, and two computations that wrap around for very large
  queues and messages.
\<close>

section \<open>The loops of send and receive\<close>

definition send_waits :: "ipc_implementation \<Rightarrow> ipc_header \<Rightarrow> u8 list list \<Rightarrow> nat \<Rightarrow> bool" where
  "send_waits impl hdr ms n \<longleftrightarrow>
     mq_repr hdr ms \<and> impl_ok impl hdr \<and> \<not> impl_stop impl \<and>
     impl_overflow_policy impl = Block_on_overflow \<and>
     blocks_for hdr n \<le> ncap hdr \<and> ncap hdr < total_blocks hdr ms + blocks_for hdr n"

lemma send_iteration_spec:
  assumes repr: "mq_repr hdr ms" and bc: "unat bc = blocks_for hdr (unat sz)"
    and cap: "blocks_for hdr (unat sz) \<le> ncap hdr" and run: "\<not> impl_stop impl"
  shows "send_iteration impl hdr d sz bc =
    (if total_blocks hdr ms + blocks_for hdr (unat sz) \<le> ncap hdr
     then (Inr (Leave Succeeded), enqueue_message hdr d sz bc)
     else (case impl_overflow_policy impl of
             Block_on_overflow \<Rightarrow> (Inr Wait, hdr)
           | Fail_on_overflow \<Rightarrow> (Inr (Leave No_space), hdr)
           | Throw_on_overflow \<Rightarrow> (Inl Capacity_limit_reached, hdr)))"
  using mq_repr_free [OF repr, of bc] cap run bc by (simp add: send_iteration_def split: overflow_policy.split)

lemma send_loop_waits:
  assumes "send_waits impl hdr ms (unat sz)" "unat bc = blocks_for hdr (unat sz)"
  shows "send_loop impl hdr ((impl', hdr') # wakes) d sz bc = send_loop impl' hdr' wakes d sz bc"
  using assms send_iteration_spec [of hdr ms bc sz impl d] by (simp add: send_waits_def)

lemma send_loop_succeeds:
  assumes repr: "mq_repr hdr ms" and run: "\<not> impl_stop impl" and len: "length d = unat sz"
    and bc: "unat bc = blocks_for hdr (unat sz)"
    and fits: "total_blocks hdr ms + blocks_for hdr (unat sz) \<le> ncap hdr"
  shows "\<exists>hdr'. send_loop impl hdr wakes d sz bc = (Inr (Leave Succeeded), hdr') \<and>
    mq_repr hdr' (ms @ [d])"
proof -
  have "unat (hdr_size hdr) = total_blocks hdr ms" using repr by (simp add: mq_repr_def)
  then have "mq_repr (enqueue_message hdr d sz bc) (ms @ [d])"
    using enqueue_message_appends [OF repr len bc] fits bc by simp
  moreover have "send_iteration impl hdr d sz bc = (Inr (Leave Succeeded), enqueue_message hdr d sz bc)"
    using send_iteration_spec [OF repr bc _ run] fits by simp
  ultimately show ?thesis by (cases wakes) auto
qed

lemma send_loop_until_room:
  assumes "\<forall>(i, h, q) \<in> set blocked. send_waits i h q (unat sz) \<and> hdr_block_size h = hdr_block_size hdr"
    and "mq_repr hdr ms" "\<not> impl_stop impl" "length d = unat sz" "unat bc = blocks_for hdr (unat sz)"
    and "total_blocks hdr ms + blocks_for hdr (unat sz) \<le> ncap hdr"
    and "map (\<lambda>(i, h, q). (i, h)) blocked @ (impl, hdr) # later = (impl0, hdr0) # wakes"
  shows "\<exists>hdr'. send_loop impl0 hdr0 wakes d sz bc = (Inr (Leave Succeeded), hdr') \<and>
    mq_repr hdr' (ms @ [d])"
  using assms
proof (induction blocked arbitrary: impl0 hdr0 wakes)
  case Nil
  then show ?case using send_loop_succeeds [of hdr ms impl d sz bc later] by simp
next
  case (Cons b blocked)
  obtain i h q where b: "b = (i, h, q)" by (cases b)
  obtain i1 h1 w1 where w: "wakes = (i1, h1) # w1"
    "map (\<lambda>(i, h, q). (i, h)) blocked @ (impl, hdr) # later = (i1, h1) # w1"
    using Cons.prems(7) b by (cases blocked) auto
  have "unat bc = blocks_for h (unat sz)"
    using Cons.prems(1,5) b by (simp add: blocks_for_def)
  then have "send_loop i h wakes d sz bc = send_loop i1 h1 w1 d sz bc"
    using send_loop_waits [of i h q sz bc] Cons.prems(1) b w by simp
  moreover have "impl0 = i" "hdr0 = h" using Cons.prems(7) b by simp_all
  moreover have "\<exists>hdr'. send_loop i1 h1 w1 d sz bc = (Inr (Leave Succeeded), hdr') \<and> mq_repr hdr' (ms @ [d])"
    using Cons.IH [OF _ Cons.prems(2-6) w(2)] Cons.prems(1) by simp
  ultimately show ?case by simp
qed

lemma receive_loop_until_message:
  assumes "\<forall>(i, h) \<in> set blocked. mq_repr h [] \<and> \<not> impl_stop i"
    and "mq_repr hdr (m # ms)" "impl_ok impl hdr" "\<not> impl_stop impl"
    and "blocked @ (impl, hdr) # later = (impl0, hdr0) # wakes"
  shows "\<exists>hdr'. receive_loop impl0 hdr0 wakes container_receive_handler c =
      (Inr (Leave (Succeeded, c @ m)), hdr') \<and> mq_repr hdr' ms"
  using assms
proof (induction blocked arbitrary: impl0 hdr0 wakes)
  case Nil
  then have eq: "impl0 = impl" "hdr0 = hdr" by simp_all
  have "0 < hdr_size hdr" using mq_repr_size_0 [OF Nil.prems(2)] by (simp add: word_gt_0)
  then have "receive_iteration impl hdr container_receive_handler c =
      (Inr (Leave (Succeeded, c @ m)), remove_first hdr (length m))"
    using dequeue_container [OF Nil.prems(2,3)] Nil.prems(4) by (simp add: receive_iteration_def)
  then show ?case using remove_first_repr [OF Nil.prems(2)] eq by (cases wakes) auto
next
  case (Cons b blocked)
  obtain i h where b: "b = (i, h)" by (cases b)
  obtain i1 h1 w1 where w: "wakes = (i1, h1) # w1" "blocked @ (impl, hdr) # later = (i1, h1) # w1"
    using Cons.prems(5) b by (cases blocked) auto
  have "hdr_size h = 0" using mq_repr_size_0 [of h "[]"] Cons.prems(1) b by simp
  then have "receive_loop i h wakes container_receive_handler c =
      receive_loop i1 h1 w1 container_receive_handler c"
    using Cons.prems(1) b w by (simp add: receive_iteration_def)
  moreover have "impl0 = i" "hdr0 = h" using Cons.prems(5) b by simp_all
  ultimately show ?case using Cons.IH [OF _ Cons.prems(2-4) w(2)] Cons.prems(1) by simp
qed

section \<open>The ABI tag\<close>

abbreviation mix_member :: "u32 \<times> u32 \<Rightarrow> murmur3_32 \<Rightarrow> murmur3_32" where
  "mix_member \<equiv> \<lambda>(sz, off) h. murmur3_mix (murmur3_mix h sz) off"

lemma mix_member_inj:
  "mm_state (mix_member m s) = mm_state (mix_member m t) \<longleftrightarrow> mm_state s = mm_state t"
  "mm_len (mix_member m s) = mm_len s + 8"
  by (cases m, simp add: murmur3_mix_inj murmur3_mix_len)+

lemma fold_mix_len: "mm_len (fold mix_member ms s) = mm_len s + 8 * of_nat (length ms)"
  by (induction ms arbitrary: s) (simp_all add: mix_member_inj(2) algebra_simps)

lemma fold_mix_state_inj:
  "mm_state (fold mix_member ms s) = mm_state (fold mix_member ms t) \<longleftrightarrow> mm_state s = mm_state t"
  by (induction ms arbitrary: s t) (simp_all add: mix_member_inj(1))

lemma get_abi_tag_fold: "\<exists>s. \<forall>ms. get_abi_tag ms = murmur3_finalize (fold mix_member ms s)"
  unfolding get_abi_tag_def Let_def by (intro exI allI, rule refl)

lemma get_abi_tag_inj:
  assumes eq: "get_abi_tag (xs @ (sz, off) # ys) = get_abi_tag (xs @ (sz', off') # ys)"
    and one: "sz = sz' \<or> off = off'"
  shows "(sz, off) = (sz', off')"
proof -
  obtain s where s: "\<And>ms. get_abi_tag ms = murmur3_finalize (fold mix_member ms s)"
    using get_abi_tag_fold by blast
  define h where "h = fold mix_member xs s"
  have h: "get_abi_tag (xs @ m # ys) = murmur3_finalize (fold mix_member ys (mix_member m h))" for m
    unfolding s h_def by simp
  have "mm_state (fold mix_member ys (mix_member (sz, off) h)) =
      mm_state (fold mix_member ys (mix_member (sz', off') h))"
    using eq unfolding h by (rule murmur3_finalize_inj) (simp only: fold_mix_len mix_member_inj(2))
  then have "mm_state (murmur3_mix (murmur3_mix h sz) off) = mm_state (murmur3_mix (murmur3_mix h sz') off')"
    by (simp only: fold_mix_state_inj prod.case)
  with one show ?thesis by (elim disjE) (simp_all only: murmur3_mix_inj simp_thms)
qed

section \<open>Alignment of the block size\<close>

lemma align_power_of_2:
  assumes "is_power_of_2 bs" and a: "unat a = (unat bs + 63) div 64 * 64"
  shows "is_power_of_2 a \<and> unat a = max 64 (unat bs)"
proof -
  obtain k where k: "k < 32" "bs = 2 ^ k" using assms(1) by (auto simp: is_power_of_2_iff)
  then have bs: "unat bs = 2 ^ k" by (simp add: unat_p2)
  have "\<exists>j<32. unat a = 2 ^ j \<and> 2 ^ j = max 64 (unat bs)"
  proof (cases "k < 6")
    case True
    then have "k \<le> 5" by simp
    then have "(2::nat) ^ k \<le> 2 ^ 5" by (rule power_increasing) simp
    then have le: "unat bs \<le> 32" "1 \<le> unat bs" by (simp_all add: bs)
    then have "(unat bs + 63) div 64 = 1" by (intro div_nat_eqI) simp_all
    with le a show ?thesis by (intro exI [of _ 6]) simp
  next
    case False
    then have "(2::nat) ^ k = 2 ^ 6 * 2 ^ (k - 6)" by (simp only: power_add [symmetric]) simp
    then have e: "(2::nat) ^ k = 64 * 2 ^ (k - 6)" by simp
    then have "unat a = 2 ^ k" using a bs by simp
    moreover have "64 \<le> (2::nat) ^ k" using e by simp
    ultimately show ?thesis using k bs by (intro exI [of _ k]) simp
  qed
  then obtain j where j: "j < 32" "unat a = 2 ^ j" "2 ^ j = max 64 (unat bs)" by blast
  have "a = 2 ^ j" using u32_eq_of_nat [OF j(2)] by simp
  with j show ?thesis by (auto simp: is_power_of_2_iff)
qed

section \<open>A small queue\<close>

text \<open>
  A queue of three blocks of 32 bytes that starts at its last block, and a message of 40 bytes, which
  takes all three blocks and wraps around.
\<close>

definition demo_header :: ipc_header where
  "demo_header = \<lparr>hdr_abi_tag = 0, hdr_ref_count = 1, hdr_capacity = 3, hdr_block_size = 32,
     hdr_size = 0, hdr_put_pos = 2, hdr_get_pos = 2, hdr_blocks = replicate 96 0, hdr_signals = []\<rparr>"

definition demo_impl :: ipc_implementation where
  "demo_impl = init_block_size 32 (new_implementation Block_on_overflow)"

definition demo_message :: "u8 list" where
  "demo_message = map of_nat [1..<41]"

definition demo_full :: ipc_header where
  "demo_full = snd (mq_try_send Locked False demo_impl demo_header demo_message 40)"

definition demo_ops :: "u8 list queue_op list" where
  "demo_ops = [Put demo_message, Put [1], Take, Put [2], Take]"

lemma demo_repr: "mq_repr demo_header []" "impl_ok demo_impl demo_header" "\<not> impl_stop demo_impl"
    "impl_overflow_policy demo_impl = Block_on_overflow" "length demo_message = 40"
  by code_simp+

lemma demo_full_repr: "mq_repr demo_full [demo_message]" "impl_ok demo_impl demo_full"
    "hdr_block_size demo_full = 32" "ncap demo_full = 3" "blocks_for demo_full 40 = 3"
    "blocks_for demo_full 1 = 2"
  by code_simp+

lemma demo_run:
  "let r = run_ops ipc_put ipc_take (demo_impl, demo_header) demo_ops
   in fst r = [demo_message, [2]] \<and> fst (snd r) = [demo_message, [2]]"
  by code_simp

lemma demo_admissible: "\<forall>m \<in> set (put_messages demo_ops). ipc_admissible m"
  by code_simp

section \<open>Properties\<close>

text \<open>
  C3. The queue is first in, first out: whatever non-blocking sends and receives are made on a
  queue that holds \<open>ms\<close>, in whatever order, the accepted messages behind the initial ones are the
  received messages followed by what is still stored. No message is lost, duplicated, reordered or
  altered, however often the ring wraps around.
\<close>

theorem ipc_queue_fifo:
  assumes "ipc_repr q ms" and "\<forall>m \<in> set (put_messages ops). ipc_admissible m"
    and "run_ops ipc_put ipc_take q ops = (accepted, received, q')"
  shows "\<exists>ms'. ipc_repr q' ms' \<and> ms @ accepted = received @ ms'"
  using assms by (rule ipc.fifo)

theorem ipc_queue_fifo_witness:
  "\<exists>q' ms'. run_ops ipc_put ipc_take (demo_impl, demo_header) demo_ops =
      ([demo_message, [2]], [demo_message, [2]], q') \<and> ipc_repr q' ms' \<and>
      [] @ [demo_message, [2]] = [demo_message, [2]] @ ms'"
proof -
  obtain a r q' where run: "run_ops ipc_put ipc_take (demo_impl, demo_header) demo_ops = (a, r, q')"
    by (metis prod_cases3)
  then have ar: "a = [demo_message, [2]]" "r = [demo_message, [2]]" using demo_run by simp_all
  have "ipc_repr (demo_impl, demo_header) []" using demo_repr by (simp add: ipc_repr_def)
  from ipc_queue_fifo [OF this demo_admissible run] ar run show ?thesis by blast
qed

text \<open>
  C4. A blocking send waits exactly as long as there is no room: if in every state it finds
  before \<open>(impl, hdr)\<close> the queue is too full and the policy is to block, and in that state there is room,
  the call succeeds and the message is appended to the messages found there.
\<close>

theorem mq_send_until_room:
  assumes "mq_repr hdr ms" "impl_ok impl hdr" "\<not> impl_stop impl"
    and "length d = unat sz" "sizable hdr (unat sz)"
    and "total_blocks hdr ms + blocks_for hdr (unat sz) \<le> ncap hdr"
    and "\<forall>(i, h, q) \<in> set blocked. send_waits i h q (unat sz) \<and> hdr_block_size h = hdr_block_size hdr"
    and "map (\<lambda>(i, h, q). (i, h)) blocked @ (impl, hdr) # later = (impl0, hdr0) # wakes"
  shows "\<exists>hdr'. mq_send Locked False impl0 hdr0 wakes d sz = (Inr (Leave Succeeded), hdr') \<and>
    mq_repr hdr' (ms @ [d])"
proof -
  let ?bc = "estimate_block_count impl0 sz"
  have first: "impl_ok impl0 hdr0 \<and> hdr_block_size hdr0 = hdr_block_size hdr \<and> blocks_for hdr0 (unat sz) \<le> ncap hdr0"
    using assms(2,6,7,8) by (cases blocked) (auto simp: send_waits_def)
  then have bs: "0 < nbs hdr0" "sizable hdr0 (unat sz)"
    using mq_repr_bs [OF assms(1)] assms(5) by (simp_all add: sizable_def)
  then have bc: "unat ?bc = blocks_for hdr0 (unat sz)"
    using first by (intro estimate_block_count_exact) (auto simp: sizable_def)
  then have bc': "unat ?bc = blocks_for hdr (unat sz)" using first by (simp add: blocks_for_def)
  have "\<not> hdr_capacity hdr0 < ?bc" using first bc by (simp add: word_less_nat_alt not_less)
  then show ?thesis
    using send_loop_until_room [OF assms(7,1,3,4) bc' assms(6,8)]
    by (simp add: mq_send_def Let_def lock_queue_def)
qed

theorem mq_send_until_room_witness:
  "\<exists>hdr'. mq_send Locked False demo_impl demo_full [(demo_impl, demo_header)] demo_message 40 =
      (Inr (Leave Succeeded), hdr') \<and> mq_repr hdr' ([] @ [demo_message])"
  by (rule mq_send_until_room [where blocked = "[(demo_impl, demo_full, [demo_message])]" and later = "[]"])
    (use demo_repr demo_full_repr in \<open>simp_all add: sizable_def send_waits_def demo_header_def blocks_for_def\<close>)

text \<open>
  A send that finds no room leaves the queue untouched and reports why: a message larger than
  the whole queue is a logic error, a stopped object aborts, and otherwise the overflow policy of the
  object decides between waiting, \<open>no_space\<close> and the capacity exception.
\<close>

theorem mq_send_cases:
  assumes "mq_repr hdr ms" "impl_ok impl hdr" "sizable hdr (unat sz)"
    and "ncap hdr < total_blocks hdr ms + blocks_for hdr (unat sz)"
  shows "mq_send Locked stop0 impl hdr [] d sz =
    (if ncap hdr < blocks_for hdr (unat sz) then Inl Logic_error
     else if stop0 \<or> impl_stop impl then Inr (Leave Aborted)
     else (case impl_overflow_policy impl of
             Block_on_overflow \<Rightarrow> Inr Wait
           | Fail_on_overflow \<Rightarrow> Inr (Leave No_space)
           | Throw_on_overflow \<Rightarrow> Inl Capacity_limit_reached), hdr)"
proof -
  have bc: "unat (estimate_block_count impl sz) = blocks_for hdr (unat sz)"
    using assms(3) by (intro estimate_block_count_exact [OF assms(2) mq_repr_bs [OF assms(1)]])
      (simp add: sizable_def)
  then have "hdr_capacity hdr < estimate_block_count impl sz \<longleftrightarrow> ncap hdr < blocks_for hdr (unat sz)"
    by (simp add: word_less_nat_alt)
  then show ?thesis
    using send_iteration_spec [OF assms(1) bc, of impl d] assms(4)
    by (auto simp: mq_send_def Let_def lock_queue_def send_iteration_def split: overflow_policy.splits)
qed

theorem mq_send_cases_witness:
  "mq_send Locked False demo_impl demo_full [] [7] 1 = (Inr Wait, demo_full) \<and>
   mq_send Locked True demo_impl demo_full [] [7] 1 = (Inr (Leave Aborted), demo_full) \<and>
   mq_send Locked False demo_impl demo_full [] [] 80 = (Inl Logic_error, demo_full)"
  using mq_send_cases [OF demo_full_repr(1,2), of 1 False "[7]"]
    mq_send_cases [OF demo_full_repr(1,2), of 1 True "[7]"]
    mq_send_cases [OF demo_full_repr(1,2), of 80 False "[]"]
    demo_full_repr demo_repr by (simp add: sizable_def blocks_for_def)

text \<open>
  C5. A blocking receive waits while the queue is empty and then delivers the whole first message
  to the container, in one or two parts, and removes it from the queue.
\<close>

theorem mq_receive_until_message:
  assumes "mq_repr hdr (m # ms)" "impl_ok impl hdr" "\<not> impl_stop impl"
    and "\<forall>(i, h) \<in> set blocked. mq_repr h [] \<and> \<not> impl_stop i"
    and "blocked @ (impl, hdr) # later = (impl0, hdr0) # wakes"
  shows "\<exists>hdr'. mq_receive Locked False impl0 hdr0 wakes container_receive_handler c =
      (Inr (Leave (Succeeded, c @ m)), hdr') \<and> mq_repr hdr' ms"
  using receive_loop_until_message [OF assms(4,1-3,5), of c]
  by (simp add: mq_receive_def lock_queue_def)

theorem mq_receive_until_message_witness:
  "\<exists>hdr'. mq_receive Locked False demo_impl demo_header [(demo_impl, demo_full)] container_receive_handler [9] =
      (Inr (Leave (Succeeded, [9] @ demo_message)), hdr') \<and> mq_repr hdr' []"
  by (rule mq_receive_until_message [where blocked = "[(demo_impl, demo_header)]" and later = "[]"])
    (use demo_repr demo_full_repr in simp_all)

text \<open>
  C6. Receiving into a fixed buffer delivers the message and the room left if the message fits;
  otherwise the exception leaves the queue as it was, with the message still in it.
\<close>

theorem try_receive_fixed_buffer:
  assumes "mq_repr hdr (m # ms)" "impl_ok impl hdr"
  shows "\<exists>hdr'. mq_try_receive Locked False impl hdr fixed_buffer_receive_handler ([], buffer_size) =
      (if length m \<le> unat buffer_size
       then (Inr (True, (m, buffer_size - of_nat (length m))), hdr')
       else (Inl Bad_alloc, hdr)) \<and> mq_repr hdr' ms"
proof -
  have "hdr_size hdr \<noteq> 0" using mq_repr_size_0 [OF assms(1)] by simp
  then show ?thesis
    using dequeue_fixed_buffer [OF assms, of "[]" buffer_size] remove_first_repr [OF assms(1)]
    by (auto simp: mq_try_receive_def lock_queue_def)
qed

theorem try_receive_fixed_buffer_witness:
  "mq_try_receive Locked False demo_impl demo_full fixed_buffer_receive_handler ([], 39) = (Inl Bad_alloc, demo_full) \<and>
   fst (mq_try_receive Locked False demo_impl demo_full fixed_buffer_receive_handler ([], 64)) =
     Inr (True, (demo_message, 24))"
  using try_receive_fixed_buffer [OF demo_full_repr(1,2), of 39]
    try_receive_fixed_buffer [OF demo_full_repr(1,2), of 64] demo_repr(5)
  by auto

text \<open>
  A created queue is a well-formed empty queue with one reference, whose block size is the
  requested power of two raised to at least a cache line, and the object agrees with it on the block
  size. The alignment function and the fresh memory are parameters with their documented behaviour.
\<close>

theorem mq_create_empty:
  assumes "is_power_of_2 block_size" "0 < capacity"
    and align: "unat (align_up block_size 64) = (unat block_size + 63) div 64 * 64"
    and "unat capacity * max 64 (unat block_size) + max 64 (unat block_size) \<le> 2 ^ 32"
    and map: "\<And>n. length (map_region n) = n"
    and "retry_interrupted None creates = Obtained"
  shows "\<exists>impl hdr. mq_create align_up members map_region creates capacity block_size policy = Some (Inr (impl, hdr)) \<and>
    mq_repr hdr [] \<and> impl_ok impl hdr \<and> \<not> impl_stop impl \<and> hdr_ref_count hdr = 1 \<and>
    hdr_capacity hdr = capacity \<and> nbs hdr = max 64 (unat block_size)"
proof -
  let ?a = "align_up block_size 64"
  let ?hdr = "new_header members capacity ?a (map_region (unat capacity * unat ?a))"
  have a: "is_power_of_2 ?a" "unat ?a = max 64 (unat block_size)"
    using align_power_of_2 [OF assms(1) align] by auto
  have "mq_repr ?hdr []"
    using a assms(2,4) map by (intro new_header_empty) (auto simp: word_gt_0 unat_gt_0)
  moreover have "impl_ok (init_block_size ?a (new_implementation policy)) ?hdr"
    using init_block_size_impl_ok [of ?hdr] a(1) by (simp add: new_header_def)
  ultimately show ?thesis
    using assms(1,6) a by (simp add: mq_create_def create_region_def init_block_size_fields(3))
      (simp add: new_header_def new_implementation_def)
qed

theorem mq_create_empty_witness:
  "\<exists>impl hdr. mq_create (\<lambda>n a. (n + (a - 1)) AND (NOT (a - 1))) [(4, 0)] (\<lambda>n. replicate n 0)
      [Shm_interrupted, Shm_ok] 16 32 Fail_on_overflow = Some (Inr (impl, hdr)) \<and>
    mq_repr hdr [] \<and> impl_ok impl hdr \<and> \<not> impl_stop impl \<and> hdr_ref_count hdr = 1 \<and>
    hdr_capacity hdr = 16 \<and> nbs hdr = max 64 (unat (32::u32))"
  by (rule mq_create_empty) (simp_all add: is_power_of_2_def)

text \<open>
  Adopting an initialised segment either yields an object that agrees with the queue on its
  block size, for a queue with the same ABI tag, or gives back the reference it took and changes nothing
  else.
\<close>

theorem check_region_outcome:
  "case check_region members hdr impl of
     (Inr impl', hdr') \<Rightarrow> hdr' = hdr \<and> impl_ok impl' hdr \<and> hdr_abi_tag hdr = get_abi_tag members
   | (Inl e, hdr') \<Rightarrow> hdr' = hdr\<lparr>hdr_ref_count := hdr_ref_count hdr - 1\<rparr>"
  using init_block_size_impl_ok [of hdr impl]
  by (auto simp: check_region_def close_region_def Let_def)

text \<open>
  C7. The ABI tag of the queue header changes whenever the size or the offset of a single member
  of the header changes.
\<close>

theorem abi_tag_detects_member_change:
  assumes "(sz, off) \<noteq> (sz', off')" and "sz = sz' \<or> off = off'"
  shows "get_abi_tag (xs @ (sz, off) # ys) \<noteq> get_abi_tag (xs @ (sz', off') # ys)"
  using get_abi_tag_inj assms by blast

theorem abi_tag_detects_member_change_witness:
  "get_abi_tag ([(4, 0), (60, 4)] @ (4, 64) # [(4, 68)]) \<noteq> get_abi_tag ([(4, 0), (60, 4)] @ (8, 64) # [(4, 68)])"
  by (rule abi_tag_detects_member_change) simp_all

text \<open>
  C8. In a queue whose ring exceeds 4 GiB, the room up to the end of the ring is computed modulo
  \<open>2 ^ 32\<close>: with that much room left a message of 10000 bytes has only its first 8160 bytes stored, and the
  rest is not written at the start of the ring either.
\<close>

theorem oversized_ring_truncates:
  assumes "hdr_block_size hdr = 2 ^ 13" "hdr_capacity hdr - hdr_put_pos hdr = 2 ^ 19 + 1"
    and "hdr_put_pos hdr + 2 < hdr_capacity hdr"
  shows "hdr_blocks (enqueue_message hdr d 10000 2) =
    memcpy_to (memcpy_to (hdr_blocks hdr) (get_block hdr (hdr_put_pos hdr)) (u32_bytes 10000))
      (get_block hdr (hdr_put_pos hdr) + 32) (take 8160 d)"
proof -
  have "first_chunk_size hdr (hdr_put_pos hdr) 10000 = 8160"
    unfolding first_chunk_size_def assms by simp
  then show ?thesis using assms(3) by (simp add: enqueue_message_def Let_def not_le [symmetric])
qed

theorem oversized_ring_truncates_witness:
  "hdr_blocks (enqueue_message (new_header [] (2 ^ 19 + 1) (2 ^ 13) []) (replicate 10000 7) 10000 2) =
    memcpy_to (memcpy_to (hdr_blocks (new_header [] (2 ^ 19 + 1) (2 ^ 13) [])) (get_block (new_header [] (2 ^ 19 + 1) (2 ^ 13) []) 0) (u32_bytes 10000))
      (get_block (new_header [] (2 ^ 19 + 1) (2 ^ 13) []) 0 + 32) (replicate 8160 7)"
  using oversized_ring_truncates [of "new_header [] (2 ^ 19 + 1) (2 ^ 13) []" "replicate 10000 7"] by (simp add: new_header_def)

lemma estimate_block_count_wraps:
  assumes impl: "impl_ok impl hdr" and big: "2 ^ 32 \<le> unat message_size + 32 + unat (impl_block_size_mask impl)"
    and fits: "unat message_size + 32 \<le> 2 ^ 32"
  shows "estimate_block_count impl message_size = 0"
proof -
  let ?m = "impl_block_size_mask impl"
  let ?l = "unat (impl_block_size_log2 impl)"
  have l: "unat (hdr_block_size hdr) = 2 ^ ?l" and m: "?m = hdr_block_size hdr - 1"
    using impl by (simp_all add: impl_ok_def)
  have "unat ?m = unat (hdr_block_size hdr) - 1"
    unfolding m using l by (intro unat_minus_one) (metis power_eq_0_iff unat_0 zero_neq_numeral)
  then have mask: "unat ?m < 2 ^ ?l" using l by simp
  have lt: "unat ?m < 2 ^ 32" by simp
  have "unat (message_size + header_overhead + ?m) = (unat message_size + 32 + unat ?m) mod 2 ^ 32"
    by (simp add: unat_word_ariths mod_add_left_eq)
  also have "\<dots> = unat message_size + 32 + unat ?m - 2 ^ 32"
    unfolding le_mod_geq [OF big] using fits lt by (intro mod_less) linarith
  finally have "unat (message_size + header_overhead + ?m) < 2 ^ ?l" using fits mask by linarith
  then have "unat (estimate_block_count impl message_size) = 0"
    unfolding estimate_block_count_def unat_drop_bit_eq by (simp add: drop_bit_eq_div)
  then show ?thesis by (simp add: unat_eq_0)
qed

text \<open>
  C9. The block count of a message close to 4 GiB wraps around to zero. When such a message is sent, the size of the
  message and the beginning of its data, up to the end of the ring, are written at the put position, over
  whatever is stored there, and the send reports success; but no block is allocated for the message, so that
  the put position and the number of used blocks stay as they were and the next message is written over it. A
  receiver is notified when the queue is empty, although it stays empty.
\<close>

theorem huge_message_is_lost:
  assumes "impl_ok impl hdr" and "\<not> impl_stop impl" and "hdr_put_pos hdr < hdr_capacity hdr"
    and "2 ^ 32 \<le> unat message_size + 32 + unat (impl_block_size_mask impl)" "unat message_size + 32 \<le> 2 ^ 32"
  shows "mq_try_send Locked False impl hdr d message_size =
    (Inr True,
     hdr\<lparr>hdr_blocks :=
           memcpy_to (memcpy_to (hdr_blocks hdr) (get_block hdr (hdr_put_pos hdr)) (u32_bytes message_size))
             (get_block hdr (hdr_put_pos hdr) + 32)
             (take (unat (first_chunk_size hdr (hdr_put_pos hdr) message_size)) d),
         hdr_signals := hdr_signals hdr @ (if hdr_size hdr = 0 then [Notify_one_nonempty] else [])\<rparr>)"
  using assms(2,3) estimate_block_count_wraps [OF assms(1,4,5)]
  by (simp add: mq_try_send_def Let_def lock_queue_def enqueue_message_def not_le [symmetric])

definition demo_huge_header :: ipc_header where
  "demo_huge_header = (new_header [] 2 64 (replicate 128 7))\<lparr>hdr_size := 1, hdr_put_pos := 1, hdr_get_pos := 0\<rparr>"

definition demo_huge_impl :: ipc_implementation where
  "demo_huge_impl = init_block_size 64 (new_implementation Block_on_overflow)"

theorem huge_message_is_lost_witness:
  "\<exists>hdr'. mq_try_send Locked False demo_huge_impl demo_huge_header [1, 2, 3] 0xffffffc0 = (Inr True, hdr') \<and>
    hdr_size hdr' = 1 \<and> hdr_put_pos hdr' = 1 \<and>
    hdr_blocks hdr' = replicate 64 7 @ [0xc0, 0xff, 0xff, 0xff] @ replicate 28 7 @ [1, 2, 3] @ replicate 29 7"
proof -
  have h: "impl_ok demo_huge_impl demo_huge_header" "\<not> impl_stop demo_huge_impl"
    "hdr_put_pos demo_huge_header < hdr_capacity demo_huge_header"
    "2 ^ 32 \<le> unat (0xffffffc0 :: u32) + 32 + unat (impl_block_size_mask demo_huge_impl)" "unat (0xffffffc0 :: u32) + 32 \<le> 2 ^ 32"
    by (simp_all add: demo_huge_header_def demo_huge_impl_def new_header_def impl_ok_def init_block_size_def new_implementation_def)
  have p: "hdr_size demo_huge_header = 1" "hdr_put_pos demo_huge_header = 1" "hdr_blocks demo_huge_header = replicate 128 7"
    and b: "get_block demo_huge_header 1 = 64" "first_chunk_size demo_huge_header 1 0xffffffc0 = 32"
    by (simp_all add: demo_huge_header_def new_header_def get_block_def first_chunk_size_def)
  have "u32_bytes 0xffffffc0 = [0xc0, 0xff, 0xff, 0xff]" by code_simp
  then have "memcpy_to (memcpy_to (replicate 128 7) 64 (u32_bytes 0xffffffc0)) (64 + 32) (take (unat (32 :: u32)) [1, 2, 3]) =
     replicate 64 7 @ [0xc0, 0xff, 0xff, 0xff] @ replicate 28 7 @ [1, 2, 3] @ replicate 29 7"
    by (simp add: memcpy_to_def)
  then show ?thesis using huge_message_is_lost [OF h, of "[1, 2, 3]"] unfolding p b by (simp add: p)
qed

end
