(* ===== verification/Ipc_Protocol.thy ===== *)
theory Ipc_Protocol
  imports Ipc_Queue_Properties
begin

text \<open>
  Threads of several processes around one message queue. A step is what one thread does while it holds
  the interprocess mutex: one iteration of the loop of a send or a receive, \<open>stop_local\<close>, \<open>clear\<close>, or the
  recovery of the mutex from an owner that died. Waiting on a condition variable releases the mutex; a
  waiting thread goes on only after it is woken, by a notification or spuriously. The invariant of this
  system gives the order of delivery and shows that no wake-up is lost.
\<close>

section \<open>Threads around the queue\<close>

text \<open>
  A thread belongs to a queue object. \<open>sys_woken\<close> holds the blocked threads that have been notified and not
  yet resumed. The last four fields record the history: what was sent, what is in the queue, what has left
  it (with whether it was delivered), and the bytes the reader got.
\<close>

datatype thread = Thread (th_object: nat) (th_id: nat)

datatype blocked = In_send "u8 list" u32 u32 | In_receive

record ipc_system =
  sys_hdr :: ipc_header
  sys_obj :: "nat \<Rightarrow> ipc_implementation"
  sys_block :: "thread \<Rightarrow> blocked option"
  sys_woken :: "thread set"
  sys_sent :: "(thread \<times> u8 list) list"
  sys_pending :: "(thread \<times> u8 list) list"
  sys_gone :: "((thread \<times> u8 list) \<times> bool) list"
  sys_received :: "u8 list list"

abbreviation sending :: "blocked option \<Rightarrow> bool" where
  "sending b \<equiv> (case b of Some (In_send _ _ _) \<Rightarrow> True | _ \<Rightarrow> False)"

text \<open>The effect of a notification: \<open>notify_one\<close> wakes any one thread that waits.\<close>

fun notified :: "ipc_signal \<Rightarrow> (thread \<Rightarrow> blocked option) \<Rightarrow> thread set \<Rightarrow> thread set \<Rightarrow> bool" where
  "notified Notify_all_nonfull b w w' \<longleftrightarrow> w' = w \<union> {t. sending (b t)}"
| "notified Notify_all_nonempty b w w' \<longleftrightarrow> w' = w \<union> {t. b t = Some In_receive}"
| "notified Notify_one_nonempty b w w' \<longleftrightarrow>
     (if \<exists>t. b t = Some In_receive \<and> t \<notin> w
      then \<exists>t. b t = Some In_receive \<and> t \<notin> w \<and> w' = insert t w
      else w' = w)"

fun notified_all :: "ipc_signal list \<Rightarrow> (thread \<Rightarrow> blocked option) \<Rightarrow> thread set \<Rightarrow> thread set \<Rightarrow> bool" where
  "notified_all [] b w w' \<longleftrightarrow> w' = w"
| "notified_all (sg # sgs) b w w' \<longleftrightarrow> (\<exists>w1. notified sg b w w1 \<and> notified_all sgs b w1 w')"

definition new_signals :: "ipc_header \<Rightarrow> ipc_header \<Rightarrow> ipc_signal list" where
  "new_signals h h' = drop (length (hdr_signals h)) (hdr_signals h')"

definition drop_pending :: "ipc_system \<Rightarrow> ipc_system" where
  "drop_pending s =
     s\<lparr>sys_gone := sys_gone s @ map (\<lambda>m. (m, False)) (sys_pending s), sys_pending := []\<rparr>"

definition record_send :: "thread \<Rightarrow> u8 list \<Rightarrow> ipc_error + operation_result loop_outcome \<Rightarrow> ipc_system \<Rightarrow> ipc_system" where
  "record_send t d r s =
     (if r = Inr (Leave Succeeded)
      then s\<lparr>sys_sent := sys_sent s @ [(t, d)], sys_pending := sys_pending s @ [(t, d)]\<rparr> else s)"

definition record_receive :: "ipc_error + (operation_result \<times> u8 list) loop_outcome \<Rightarrow> ipc_system \<Rightarrow> ipc_system" where
  "record_receive r s =
     (case r of
        Inr (Leave (Succeeded, c)) \<Rightarrow>
          s\<lparr>sys_received := sys_received s @ [c], sys_gone := sys_gone s @ [(hd (sys_pending s), True)],
            sys_pending := tl (sys_pending s)\<rparr>
      | _ \<Rightarrow> s)"

definition send_block :: "ipc_error + operation_result loop_outcome \<Rightarrow> u8 list \<Rightarrow> u32 \<Rightarrow> u32 \<Rightarrow> blocked option" where
  "send_block r d sz bc = (if r = Inr Wait then Some (In_send d sz bc) else None)"

definition receive_block :: "ipc_error + (operation_result \<times> u8 list) loop_outcome \<Rightarrow> blocked option" where
  "receive_block r = (if r = Inr Wait then Some In_receive else None)"

abbreviation obj_of :: "ipc_system \<Rightarrow> thread \<Rightarrow> ipc_implementation" where
  "obj_of s t \<equiv> sys_obj s (th_object t)"

text \<open>
  The queue has any number of writers and one reader. A call that reports an error before it locks the
  mutex does not change the state and is not a step.
\<close>

inductive ipc_step :: "thread \<Rightarrow> ipc_system \<Rightarrow> ipc_system \<Rightarrow> bool" for reader where
  send_call:
    "\<lbrakk>sys_block s t = None; bc = estimate_block_count (obj_of s t) sz; \<not> hdr_capacity (sys_hdr s) < bc;
      length d = unat sz; sizable (sys_hdr s) (unat sz);
      lock_queue Locked (sys_hdr s) = (None, h); send_iteration (obj_of s t) h d sz bc = (r, h');
      b' = (sys_block s)(t := send_block r d sz bc);
      notified_all (new_signals (sys_hdr s) h') b' (sys_woken s - {t}) w'\<rbrakk>
     \<Longrightarrow> ipc_step reader s
           ((record_send t d r s)\<lparr>sys_hdr := h', sys_block := b', sys_woken := w'\<rparr>)"
| send_resume:
    "\<lbrakk>sys_block s t = Some (In_send d sz bc); t \<in> sys_woken s;
      send_iteration (obj_of s t) (sys_hdr s) d sz bc = (r, h');
      b' = (sys_block s)(t := send_block r d sz bc);
      notified_all (new_signals (sys_hdr s) h') b' (sys_woken s - {t}) w'\<rbrakk>
     \<Longrightarrow> ipc_step reader s ((record_send t d r s)\<lparr>sys_hdr := h', sys_block := b', sys_woken := w'\<rparr>)"
| receive_call:
    "\<lbrakk>sys_block s reader = None; lock_queue Locked (sys_hdr s) = (None, h);
      receive_iteration (obj_of s reader) h container_receive_handler [] = (r, h');
      b' = (sys_block s)(reader := receive_block r);
      notified_all (new_signals (sys_hdr s) h') b' (sys_woken s - {reader}) w'\<rbrakk>
     \<Longrightarrow> ipc_step reader s
           ((record_receive r s)\<lparr>sys_hdr := h', sys_block := b', sys_woken := w'\<rparr>)"
| receive_resume:
    "\<lbrakk>sys_block s reader = Some In_receive; reader \<in> sys_woken s;
      receive_iteration (obj_of s reader) (sys_hdr s) container_receive_handler [] = (r, h');
      b' = (sys_block s)(reader := receive_block r);
      notified_all (new_signals (sys_hdr s) h') b' (sys_woken s - {reader}) w'\<rbrakk>
     \<Longrightarrow> ipc_step reader s ((record_receive r s)\<lparr>sys_hdr := h', sys_block := b', sys_woken := w'\<rparr>)"
| stop:
    "\<lbrakk>mq_stop_local Locked False (sys_obj s ob) (sys_hdr s) = (None, i', h');
      notified_all (new_signals (sys_hdr s) h') (sys_block s) (sys_woken s) w'\<rbrakk>
     \<Longrightarrow> ipc_step reader s
           (s\<lparr>sys_hdr := h', sys_obj := (sys_obj s)(ob := i'), sys_woken := w'\<rparr>)"
| reset:
    "ipc_step reader s (s\<lparr>sys_obj := (sys_obj s)(ob := mq_reset_local (sys_obj s ob))\<rparr>)"
| clear:
    "\<lbrakk>mq_clear Locked (sys_hdr s) = (None, h');
      notified_all (new_signals (sys_hdr s) h') (sys_block s) (sys_woken s) w'\<rbrakk>
     \<Longrightarrow> ipc_step reader s ((drop_pending s)\<lparr>sys_hdr := h', sys_woken := w'\<rparr>)"
| recover:
    "\<lbrakk>lock_queue (Owner_dead ok) (sys_hdr s) = (e, h');
      notified_all (new_signals (sys_hdr s) h') (sys_block s) (sys_woken s) w'\<rbrakk>
     \<Longrightarrow> ipc_step reader s ((drop_pending s)\<lparr>sys_hdr := h', sys_woken := w'\<rparr>)"
| spurious:
    "sys_block s t \<noteq> None \<Longrightarrow> ipc_step reader s (s\<lparr>sys_woken := insert t (sys_woken s)\<rparr>)"

definition sys_init :: "ipc_header \<Rightarrow> (nat \<Rightarrow> ipc_implementation) \<Rightarrow> ipc_system" where
  "sys_init hdr obj = \<lparr>sys_hdr = hdr, sys_obj = obj, sys_block = (\<lambda>_. None), sys_woken = {},
     sys_sent = [], sys_pending = [], sys_gone = [], sys_received = []\<rparr>"

section \<open>Invariant\<close>

text \<open>A thread that waits and has not been woken has nothing to do in the current state.\<close>

definition stuck_ok ::
  "ipc_header \<Rightarrow> (nat \<Rightarrow> ipc_implementation) \<Rightarrow> (thread \<Rightarrow> blocked option) \<Rightarrow> thread set \<Rightarrow> thread \<Rightarrow> bool"
where
  "stuck_ok h obj b w t \<longleftrightarrow> t \<in> w \<or>
     (case b t of
        None \<Rightarrow> True
      | Some In_receive \<Rightarrow> hdr_size h = 0 \<and> \<not> impl_stop (obj (th_object t))
      | Some (In_send d sz bc) \<Rightarrow> hdr_capacity h - hdr_size h < bc \<and> \<not> impl_stop (obj (th_object t)))"

definition only_reader :: "thread \<Rightarrow> (thread \<Rightarrow> blocked option) \<Rightarrow> bool" where
  "only_reader reader b \<longleftrightarrow> (\<forall>t. b t = Some In_receive \<longrightarrow> t = reader)"

definition blocks_ok :: "thread \<Rightarrow> ipc_header \<Rightarrow> (thread \<Rightarrow> blocked option) \<Rightarrow> bool" where
  "blocks_ok reader h b \<longleftrightarrow>
     only_reader reader b \<and>
     (\<forall>t d sz bc. b t = Some (In_send d sz bc) \<longrightarrow>
        length d = unat sz \<and> unat bc = blocks_for h (unat sz) \<and> blocks_for h (unat sz) \<le> ncap h)"

definition data_ok :: "ipc_system \<Rightarrow> bool" where
  "data_ok s \<longleftrightarrow>
     mq_repr (sys_hdr s) (map snd (sys_pending s)) \<and> (\<forall>ob. impl_ok (sys_obj s ob) (sys_hdr s)) \<and>
     sys_sent s = map fst (sys_gone s) @ sys_pending s \<and>
     sys_received s = map (snd \<circ> fst) (filter snd (sys_gone s))"

definition sys_inv :: "thread \<Rightarrow> ipc_system \<Rightarrow> bool" where
  "sys_inv reader s \<longleftrightarrow> data_ok s \<and> blocks_ok reader (sys_hdr s) (sys_block s) \<and>
     (\<forall>t. stuck_ok (sys_hdr s) (sys_obj s) (sys_block s) (sys_woken s) t)"

section \<open>Notifications\<close>

lemma notified_mono: "notified sg b w w' \<Longrightarrow> w \<subseteq> w'"
  by (cases sg) (auto split: if_splits)

lemma notified_all_mono: "notified_all sgs b w w' \<Longrightarrow> w \<subseteq> w'"
  by (induction sgs arbitrary: w) (auto dest: notified_mono)

lemma notified_all_nonfull:
  "notified_all sgs b w w' \<Longrightarrow> Notify_all_nonfull \<in> set sgs \<Longrightarrow> sending (b t) \<Longrightarrow> t \<in> w'"
  by (induction sgs arbitrary: w) (auto, use notified_all_mono in blast)

lemma notified_nonempty:
  assumes "notified sg b w w'" "sg = Notify_one_nonempty \<or> sg = Notify_all_nonempty"
    and "only_reader reader b" "b reader = Some In_receive"
  shows "reader \<in> w'"
proof (cases "reader \<in> w")
  case True
  then show ?thesis using notified_mono [OF assms(1)] by blast
next
  case False
  from assms(2) show ?thesis
  proof
    assume "sg = Notify_one_nonempty"
    with assms(1,4) False obtain t where "b t = Some In_receive" "w' = insert t w"
      by (auto split: if_splits)
    then show ?thesis using assms(3) by (auto simp: only_reader_def)
  next
    assume "sg = Notify_all_nonempty"
    with assms(1,4) show ?thesis by simp
  qed
qed

lemma notified_all_nonempty:
  assumes "notified_all sgs b w w'" "Notify_one_nonempty \<in> set sgs \<or> Notify_all_nonempty \<in> set sgs"
    and "only_reader reader b" "b reader = Some In_receive"
  shows "reader \<in> w'"
  using assms
proof (induction sgs arbitrary: w)
  case (Cons sg sgs)
  then obtain w1 where w1: "notified sg b w w1" "notified_all sgs b w1 w'" by auto
  show ?case
  proof (cases "sg = Notify_one_nonempty \<or> sg = Notify_all_nonempty")
    case True
    then show ?thesis using notified_nonempty [OF w1(1) True Cons.prems(3,4)] notified_all_mono [OF w1(2)] by blast
  next
    case False
    then show ?thesis using Cons.IH [OF w1(2) _ Cons.prems(3,4)] Cons.prems(2) by auto
  qed
qed simp

lemma stuck_ok_others:
  assumes n: "notified_all (new_signals h h') b' w0 w'" and w0: "w - {t} \<subseteq> w0"
    and b: "\<forall>x. x \<noteq> t \<longrightarrow> b' x = b x" and r: "only_reader reader b'"
    and st: "\<forall>x. stuck_ok h obj b w x"
    and full: "Notify_all_nonfull \<in> set (new_signals h h') \<or>
        hdr_capacity h' - hdr_size h' \<le> hdr_capacity h - hdr_size h"
    and empty: "Notify_one_nonempty \<in> set (new_signals h h') \<or> hdr_size h \<noteq> 0 \<or> hdr_size h' = 0"
    and x: "x \<noteq> t"
  shows "stuck_ok h' obj b' w' x"
proof (cases "x \<in> w'")
  case False
  have "x \<notin> w" using False x w0 notified_all_mono [OF n] by blast
  moreover have "stuck_ok h obj b w x" using st by blast
  moreover have eq: "b' x = b x" using b x by blast
  ultimately have old: "case b x of None \<Rightarrow> True
      | Some In_receive \<Rightarrow> hdr_size h = 0 \<and> \<not> impl_stop (obj (th_object x))
      | Some (In_send d sz bc) \<Rightarrow> hdr_capacity h - hdr_size h < bc \<and> \<not> impl_stop (obj (th_object x))"
    unfolding stuck_ok_def by blast
  show ?thesis
  proof (cases "b x")
    case None
    then show ?thesis by (simp add: stuck_ok_def eq)
  next
    case (Some bl)
    show ?thesis
    proof (cases bl)
      case (In_send d sz bc)
      have "\<not> Notify_all_nonfull \<in> set (new_signals h h')"
        using notified_all_nonfull [OF n, of x] False Some In_send eq by auto
      then have "hdr_capacity h' - hdr_size h' \<le> hdr_capacity h - hdr_size h" using full by blast
      also have "\<dots> < bc" using old Some In_send by simp
      finally have "hdr_capacity h' - hdr_size h' < bc" .
      then show ?thesis using old Some In_send by (simp add: stuck_ok_def eq)
    next
      case In_receive
      then have "x = reader" using r Some eq by (simp add: only_reader_def)
      then have "\<not> Notify_one_nonempty \<in> set (new_signals h h')"
        using notified_all_nonempty [OF n _ r] False Some In_receive eq by auto
      then show ?thesis using old empty Some In_receive by (simp add: stuck_ok_def eq)
    qed
  qed
qed (simp add: stuck_ok_def)

section \<open>What an iteration does to the header\<close>

lemma send_iteration_effect:
  assumes "send_iteration i h d sz bc = (r, h')"
  shows "r = Inr (Leave Succeeded) \<and> h' = enqueue_message h d sz bc \<and> bc \<le> hdr_capacity h - hdr_size h \<or>
    r \<noteq> Inr (Leave Succeeded) \<and> h' = h \<and> (r = Inr Wait \<longrightarrow> \<not> impl_stop i \<and> hdr_capacity h - hdr_size h < bc)"
  using assms by (auto simp: send_iteration_def not_le split: if_splits overflow_policy.splits)

lemma receive_iteration_effect:
  assumes "receive_iteration i h container_receive_handler [] = (r, h')" "mq_repr h ms" "impl_ok i h"
  shows "ms \<noteq> [] \<and> r = Inr (Leave (Succeeded, hd ms)) \<and> h' = remove_first h (length (hd ms)) \<or>
    (\<forall>c. r \<noteq> Inr (Leave (Succeeded, c))) \<and> h' = h \<and> (r = Inr Wait \<longrightarrow> \<not> impl_stop i \<and> hdr_size h = 0)"
  using assms dequeue_container [OF _ assms(3), of "hd ms" "tl ms" "[]"] mq_repr_size_0 [OF assms(2)]
  by (cases ms) (auto simp: receive_iteration_def word_gt_0 split: if_splits)

lemma new_signals_simps [simp]:
  "new_signals h h = []"
  "new_signals h (enqueue_message h d sz bc) = (if hdr_size h = 0 then [Notify_one_nonempty] else [])"
  "new_signals h (remove_first h n) = [Notify_all_nonfull]"
  "new_signals h (clear_queue h) = [Notify_all_nonfull]"
  by (simp_all add: new_signals_def enqueue_message_def remove_first_def clear_queue_def Let_def)

lemma enqueue_repr:
  assumes "mq_repr h ms" "length d = unat sz" "unat bc = blocks_for h (unat sz)"
    "bc \<le> hdr_capacity h - hdr_size h" "blocks_for h (unat sz) \<le> ncap h"
  shows "mq_repr (enqueue_message h d sz bc) (ms @ [d])"
  using enqueue_message_appends [OF assms(1-3)] mq_repr_free [OF assms(1), of bc] assms
  by (simp add: mq_repr_def)

lemma clear_queue_repr: "mq_repr h ms \<Longrightarrow> mq_repr (clear_queue h) []"
  by (simp add: mq_repr_def ring_ok_def clear_queue_def)

lemma blocks_ok_frame:
  "blocks_ok reader h b \<Longrightarrow> hdr_block_size h' = hdr_block_size h \<Longrightarrow> hdr_capacity h' = hdr_capacity h \<Longrightarrow>
   blocks_ok reader h' b"
  by (simp add: blocks_ok_def blocks_for_def)

lemma blocks_ok_update:
  "blocks_ok reader h b \<Longrightarrow> v = None \<or> v = Some In_receive \<and> t = reader \<or>
     (\<exists>d sz bc. v = Some (In_send d sz bc) \<and> length d = unat sz \<and> unat bc = blocks_for h (unat sz) \<and>
        blocks_for h (unat sz) \<le> ncap h) \<Longrightarrow>
   blocks_ok reader h (b(t := v))"
  by (auto simp: blocks_ok_def only_reader_def)

lemma impl_ok_frame: "hdr_block_size h' = hdr_block_size h \<Longrightarrow> impl_ok i h' = impl_ok i h"
  by (simp add: impl_ok_def)

lemma enqueue_free:
  assumes "bc \<le> hdr_capacity h - hdr_size h"
  shows "hdr_capacity h - hdr_size (enqueue_message h d sz bc) \<le> hdr_capacity h - hdr_size h"
proof -
  have "hdr_capacity h - hdr_size (enqueue_message h d sz bc) = hdr_capacity h - hdr_size h - bc" by simp
  then show ?thesis using assms by (simp only: word_le_nat_alt unat_sub)
qed

lemma send_keeps_inv:
  assumes inv: "sys_inv reader s" and it: "send_iteration (obj_of s t) (sys_hdr s) d sz bc = (r, h')"
    and d: "length d = unat sz" "unat bc = blocks_for (sys_hdr s) (unat sz)"
      "blocks_for (sys_hdr s) (unat sz) \<le> ncap (sys_hdr s)"
    and b': "b' = (sys_block s)(t := send_block r d sz bc)"
    and n: "notified_all (new_signals (sys_hdr s) h') b' (sys_woken s - {t}) w'"
  shows "sys_inv reader ((record_send t d r s)\<lparr>sys_hdr := h', sys_block := b', sys_woken := w'\<rparr>)"
proof -
  let ?h = "sys_hdr s"
  have data: "data_ok s" and bl: "blocks_ok reader ?h (sys_block s)"
    and st: "\<forall>x. stuck_ok ?h (sys_obj s) (sys_block s) (sys_woken s) x"
    using inv by (simp_all add: sys_inv_def)
  note eff = send_iteration_effect [OF it]
  have frame: "hdr_block_size h' = hdr_block_size ?h" "hdr_capacity h' = hdr_capacity ?h" using eff by auto
  have bl': "blocks_ok reader h' b'"
    unfolding b' using bl frame d
    by (intro blocks_ok_frame [OF blocks_ok_update]) (auto simp: send_block_def)
  have "hdr_capacity h' - hdr_size h' \<le> hdr_capacity ?h - hdr_size ?h"
    using eff frame enqueue_free by auto
  moreover have "Notify_one_nonempty \<in> set (new_signals ?h h') \<or> hdr_size ?h \<noteq> 0 \<or> hdr_size h' = 0"
    using eff by auto
  ultimately have others: "stuck_ok h' (sys_obj s) b' w' x" if "x \<noteq> t" for x
    using stuck_ok_others [OF n _ _ _ st, of t reader x] that bl' b' by (simp add: blocks_ok_def)
  have "stuck_ok h' (sys_obj s) b' w' t"
    using eff by (auto simp: stuck_ok_def b' send_block_def)
  with others have st': "stuck_ok h' (sys_obj s) b' w' x" for x by (cases "x = t") auto
  have data': "data_ok ((record_send t d r s)\<lparr>sys_hdr := h', sys_block := b', sys_woken := w'\<rparr>)"
    using data eff enqueue_repr [of ?h "map snd (sys_pending s)" d sz bc] d
    by (auto simp: data_ok_def record_send_def impl_ok_frame [OF frame(1)])
  have "sys_obj (record_send t d r s) = sys_obj s" by (simp add: record_send_def)
  then show ?thesis using bl' st' data' by (simp add: sys_inv_def)
qed

lemma receive_keeps_inv:
  assumes inv: "sys_inv reader s"
    and it: "receive_iteration (obj_of s reader) (sys_hdr s) container_receive_handler [] = (r, h')"
    and b': "b' = (sys_block s)(reader := receive_block r)"
    and n: "notified_all (new_signals (sys_hdr s) h') b' (sys_woken s - {reader}) w'"
  shows "sys_inv reader ((record_receive r s)\<lparr>sys_hdr := h', sys_block := b', sys_woken := w'\<rparr>)"
proof -
  let ?h = "sys_hdr s" and ?ms = "map snd (sys_pending s)"
  have data: "data_ok s" and bl: "blocks_ok reader ?h (sys_block s)"
    and st: "\<forall>x. stuck_ok ?h (sys_obj s) (sys_block s) (sys_woken s) x"
    using inv by (simp_all add: sys_inv_def)
  have repr: "mq_repr ?h ?ms" and io: "impl_ok (obj_of s reader) ?h" using data by (simp_all add: data_ok_def)
  note eff = receive_iteration_effect [OF it repr io]
  have frame: "hdr_block_size h' = hdr_block_size ?h" "hdr_capacity h' = hdr_capacity ?h"
    using eff by (auto simp: remove_first_def)
  have bl': "blocks_ok reader h' b'"
    unfolding b' using bl frame
    by (intro blocks_ok_frame [OF blocks_ok_update]) (auto simp: receive_block_def)
  have "Notify_all_nonfull \<in> set (new_signals ?h h') \<or>
      hdr_capacity h' - hdr_size h' \<le> hdr_capacity ?h - hdr_size ?h"
    using eff by auto
  moreover have "hdr_size ?h \<noteq> 0 \<or> hdr_size h' = 0"
    using eff mq_repr_size_0 [OF repr] by auto
  ultimately have others: "stuck_ok h' (sys_obj s) b' w' x" if "x \<noteq> reader" for x
    using stuck_ok_others [OF n _ _ _ st, of reader reader x] that bl' b' by (simp add: blocks_ok_def)
  have "stuck_ok h' (sys_obj s) b' w' reader"
    using eff by (auto simp: stuck_ok_def b' receive_block_def)
  with others have st': "stuck_ok h' (sys_obj s) b' w' x" for x by (cases "x = reader") auto
  have data': "data_ok ((record_receive r s)\<lparr>sys_hdr := h', sys_block := b', sys_woken := w'\<rparr>)"
    using eff
  proof (elim disjE conjE)
    assume ms: "?ms \<noteq> []" and r: "r = Inr (Leave (Succeeded, hd ?ms))"
      and h': "h' = remove_first ?h (length (hd ?ms))"
    then obtain m ps where ps: "sys_pending s = m # ps" by (cases "sys_pending s") auto
    have "mq_repr h' (map snd ps)" using remove_first_repr [of ?h "snd m" "map snd ps"] repr h' ps by simp
    then show ?thesis
      using data r ps by (auto simp: data_ok_def record_receive_def impl_ok_frame [OF frame(1)])
  next
    assume "\<forall>c. r \<noteq> Inr (Leave (Succeeded, c))" "h' = ?h"
    then have "record_receive r s = s"
      by (auto simp: record_receive_def split: sum.splits loop_outcome.splits operation_result.splits)
    then show ?thesis using data \<open>h' = ?h\<close> by (simp add: data_ok_def)
  qed
  have rec: "sys_obj (record_receive r s) = sys_obj s"
    by (auto simp: record_receive_def split: sum.splits loop_outcome.splits operation_result.splits)
  show ?thesis using bl' st' data' rec by (simp add: sys_inv_def)
qed

lemma clear_keeps_inv:
  assumes inv: "sys_inv reader s"
    and n: "notified_all (new_signals (sys_hdr s) (clear_queue (sys_hdr s))) (sys_block s) (sys_woken s) w'"
  shows "sys_inv reader ((drop_pending s)\<lparr>sys_hdr := clear_queue (sys_hdr s), sys_woken := w'\<rparr>)"
proof -
  let ?h = "sys_hdr s"
  have data: "data_ok s" and bl: "blocks_ok reader ?h (sys_block s)"
    and st: "\<forall>x. stuck_ok ?h (sys_obj s) (sys_block s) (sys_woken s) x"
    using inv by (simp_all add: sys_inv_def)
  have frame: "hdr_block_size (clear_queue ?h) = hdr_block_size ?h" "hdr_capacity (clear_queue ?h) = hdr_capacity ?h"
    "hdr_size (clear_queue ?h) = 0"
    by (simp_all add: clear_queue_def)
  have bl': "blocks_ok reader (clear_queue ?h) (sys_block s)" by (rule blocks_ok_frame [OF bl frame(1,2)])
  have st': "stuck_ok (clear_queue ?h) (sys_obj s) (sys_block s) w' x" for x
  proof -
    obtain t where t: "t \<noteq> x" by (metis thread.inject nat.distinct(1))
    show ?thesis
      using stuck_ok_others [OF n _ _ _ st _ _ t [symmetric]] bl frame by (auto simp: blocks_ok_def)
  qed
  have "filter snd (map (\<lambda>m. (m, False)) ps) = []" for ps :: "(thread \<times> u8 list) list"
    by (induction ps) auto
  then have "data_ok ((drop_pending s)\<lparr>sys_hdr := clear_queue ?h, sys_woken := w'\<rparr>)"
    using data clear_queue_repr
    by (auto simp: data_ok_def drop_pending_def impl_ok_frame [OF frame(1)] comp_def)
  with bl' st' show ?thesis by (simp add: sys_inv_def drop_pending_def)
qed

lemma stop_keeps_inv:
  assumes inv: "sys_inv reader s"
    and st: "mq_stop_local Locked False (sys_obj s ob) (sys_hdr s) = (None, i', h')"
    and n: "notified_all (new_signals (sys_hdr s) h') (sys_block s) (sys_woken s) w'"
  shows "sys_inv reader (s\<lparr>sys_hdr := h', sys_obj := (sys_obj s)(ob := i'), sys_woken := w'\<rparr>)"
proof -
  let ?h = "sys_hdr s"
  have h': "h' = ?h\<lparr>hdr_signals := hdr_signals ?h @ [Notify_all_nonempty, Notify_all_nonfull]\<rparr>"
    and i': "i' = (sys_obj s ob)\<lparr>impl_stop := True\<rparr>"
    using st by (simp_all add: mq_stop_local_def lock_queue_def)
  have data: "data_ok s" and bl: "blocks_ok reader ?h (sys_block s)" using inv by (simp_all add: sys_inv_def)
  have sg: "new_signals ?h h' = [Notify_all_nonempty, Notify_all_nonfull]" by (simp add: new_signals_def h')
  have "x \<in> w'" if "sys_block s x \<noteq> None" for x
    using n that unfolding sg by (cases "the (sys_block s x)") auto
  then have st': "stuck_ok h' obj (sys_block s) w' x" for x obj
    by (cases "sys_block s x") (auto simp: stuck_ok_def)
  have frame: "mq_repr h' ms = mq_repr ?h ms" for ms
  proof -
    have "ring_byte h' = ring_byte ?h" "blocks_for h' = blocks_for ?h"
      by (auto simp: h' ring_byte_def blocks_for_def fun_eq_iff)
    then have "msg_at h' = msg_at ?h" by (auto simp: fun_eq_iff msg_at_def msg_size_at_def h')
    then have "stored h' p ms = stored ?h p ms" for p
      using \<open>blocks_for h' = blocks_for ?h\<close> by (induction ms arbitrary: p) auto
    then show ?thesis
      using \<open>blocks_for h' = blocks_for ?h\<close> by (simp add: mq_repr_def ring_ok_def total_blocks_def h')
  qed
  have "data_ok (s\<lparr>sys_hdr := h', sys_obj := (sys_obj s)(ob := i'), sys_woken := w'\<rparr>)"
    using data frame by (auto simp: data_ok_def i' h' impl_ok_def)
  moreover have "blocks_ok reader h' (sys_block s)" using bl by (rule blocks_ok_frame) (simp_all add: h')
  ultimately show ?thesis using st' by (simp add: sys_inv_def)
qed

lemma stuck_ok_reset:
  "stuck_ok h obj b w t \<Longrightarrow> stuck_ok h (obj(ob := mq_reset_local (obj ob))) b w t"
  by (cases "b t"; cases "the (b t)") (auto simp: stuck_ok_def mq_reset_local_def)

lemma stuck_ok_woken: "stuck_ok h obj b w t \<Longrightarrow> stuck_ok h obj b (insert x w) t"
  by (simp only: stuck_ok_def) blast

lemma ipc_step_keeps_inv: "ipc_step reader s s' \<Longrightarrow> sys_inv reader s \<Longrightarrow> sys_inv reader s'"
proof (induction rule: ipc_step.induct)
  case (send_call s t bc sz d h r h' b' w')
  have h: "h = sys_hdr s" using send_call by (simp add: lock_queue_def)
  have ok: "mq_repr (sys_hdr s) (map snd (sys_pending s))" "impl_ok (obj_of s t) (sys_hdr s)"
    using send_call.prems by (simp_all add: sys_inv_def data_ok_def)
  have bc: "unat bc = blocks_for (sys_hdr s) (unat sz)"
    using estimate_block_count_exact [OF ok(2) mq_repr_bs [OF ok(1)]] send_call.hyps by (simp add: sizable_def)
  then have "blocks_for (sys_hdr s) (unat sz) \<le> ncap (sys_hdr s)"
    using send_call.hyps(3) by (simp add: word_less_nat_alt)
  with bc show ?case using send_call h by (intro send_keeps_inv) auto
next
  case (send_resume s t d sz bc r h' b' w')
  have "blocks_ok reader (sys_hdr s) (sys_block s)" using send_resume.prems by (simp add: sys_inv_def)
  then have "length d = unat sz \<and> unat bc = blocks_for (sys_hdr s) (unat sz) \<and>
      blocks_for (sys_hdr s) (unat sz) \<le> ncap (sys_hdr s)"
    using send_resume.hyps(1) unfolding blocks_ok_def by blast
  then show ?case using send_resume by (intro send_keeps_inv) auto
next
  case (receive_call s h r h' b' w')
  have "h = sys_hdr s" using receive_call by (simp add: lock_queue_def)
  then show ?case using receive_call by (intro receive_keeps_inv) auto
next
  case (receive_resume s r h' b' w')
  then show ?case by (intro receive_keeps_inv) auto
next
  case (stop s ob i' h' w')
  then show ?case by (intro stop_keeps_inv) auto
next
  case (reset s ob)
  then show ?case
    by (simp add: sys_inv_def data_ok_def stuck_ok_reset) (simp add: mq_reset_local_def impl_ok_def)
next
  case (clear s h' w')
  have "h' = clear_queue (sys_hdr s)" using clear.hyps(1) by (simp add: mq_clear_def lock_queue_def)
  then show ?case using clear_keeps_inv [OF clear.prems] clear.hyps(2) by simp
next
  case (recover ok s e h' w')
  have "h' = clear_queue (sys_hdr s)"
    using recover.hyps(1) by (auto simp: lock_queue_def Let_def split: if_splits)
  then show ?case using clear_keeps_inv [OF recover.prems] recover.hyps(2) by simp
next
  case (spurious s t)
  then show ?case by (simp add: sys_inv_def data_ok_def stuck_ok_woken)
qed

lemma ipc_steps_keep_inv: "(ipc_step reader)\<^sup>*\<^sup>* s s' \<Longrightarrow> sys_inv reader s \<Longrightarrow> sys_inv reader s'"
  by (induction rule: rtranclp_induct) (auto intro: ipc_step_keeps_inv)

lemma sys_init_inv:
  "mq_repr hdr [] \<Longrightarrow> \<forall>ob. impl_ok (obj ob) hdr \<Longrightarrow> sys_inv reader (sys_init hdr obj)"
  by (simp add: sys_inv_def sys_init_def data_ok_def blocks_ok_def only_reader_def stuck_ok_def)

section \<open>Properties\<close>

text \<open>
  C1. No lost wake-up: in every reachable state of the writers and the reader, a thread that is blocked and
  not already woken really cannot proceed. A blocked reader faces an empty queue, a blocked writer a queue
  without room for its message, and neither belongs to a stopped object.
\<close>

theorem no_lost_wakeup:
  assumes "mq_repr hdr []" "\<forall>ob. impl_ok (obj ob) hdr" "(ipc_step reader)\<^sup>*\<^sup>* (sys_init hdr obj) s"
    and "t \<notin> sys_woken s"
  shows "case sys_block s t of
      None \<Rightarrow> True
    | Some In_receive \<Rightarrow> sys_pending s = [] \<and> \<not> impl_stop (obj_of s t)
    | Some (In_send d sz bc) \<Rightarrow>
        ncap (sys_hdr s) < total_blocks (sys_hdr s) (map snd (sys_pending s)) + blocks_for (sys_hdr s) (length d) \<and>
        \<not> impl_stop (obj_of s t)"
proof -
  have inv: "sys_inv reader s" using ipc_steps_keep_inv [OF assms(3) sys_init_inv [OF assms(1,2)]] .
  then have repr: "mq_repr (sys_hdr s) (map snd (sys_pending s))" by (simp add: sys_inv_def data_ok_def)
  have st: "stuck_ok (sys_hdr s) (sys_obj s) (sys_block s) (sys_woken s) t"
    and bo: "blocks_ok reader (sys_hdr s) (sys_block s)" using inv by (simp_all add: sys_inv_def)
  show ?thesis
  proof (cases "sys_block s t")
    case (Some bl)
    show ?thesis
    proof (cases bl)
      case (In_send d sz bc)
      then have "length d = unat sz \<and> unat bc = blocks_for (sys_hdr s) (unat sz) \<and>
          blocks_for (sys_hdr s) (unat sz) \<le> ncap (sys_hdr s)"
        using bo Some unfolding blocks_ok_def by blast
      then have d: "length d = unat sz" "unat bc = blocks_for (sys_hdr s) (unat sz)" "unat bc \<le> ncap (sys_hdr s)"
        by simp_all
      then show ?thesis
        using mq_repr_free [OF repr d(3)] st assms(4) Some In_send by (simp add: stuck_ok_def not_le [symmetric])
    next
      case In_receive
      then show ?thesis using mq_repr_size_0 [OF repr] st assms(4) Some by (simp add: stuck_ok_def)
    qed
  qed simp
qed

definition demo_reader :: thread where "demo_reader = Thread 0 0"

definition demo_waiting :: ipc_system where
  "demo_waiting = (sys_init demo_header (\<lambda>_. demo_impl))\<lparr>sys_block := (\<lambda>_. None)(demo_reader := Some In_receive)\<rparr>"

lemma demo_waiting_step: "ipc_step demo_reader (sys_init demo_header (\<lambda>_. demo_impl)) demo_waiting"
proof -
  let ?s = "sys_init demo_header (\<lambda>_. demo_impl)"
  have "receive_iteration demo_impl demo_header container_receive_handler [] = (Inr Wait, demo_header)"
    using demo_repr by (simp add: receive_iteration_def demo_header_def)
  then have "ipc_step demo_reader ?s ((record_receive (Inr Wait) ?s)\<lparr>sys_hdr := demo_header,
      sys_block := (sys_block ?s)(demo_reader := receive_block (Inr Wait)), sys_woken := {}\<rparr>)"
    by (intro receive_call [where h = demo_header and r = "Inr Wait" and h' = demo_header])
      (simp_all add: sys_init_def lock_queue_def)
  then show ?thesis
    by (simp add: demo_waiting_def sys_init_def record_receive_def receive_block_def)
qed

theorem no_lost_wakeup_witness:
  "sys_block demo_waiting demo_reader = Some In_receive \<and> sys_pending demo_waiting = [] \<and>
   \<not> impl_stop (obj_of demo_waiting demo_reader)"
proof -
  have "(ipc_step demo_reader)\<^sup>*\<^sup>* (sys_init demo_header (\<lambda>_. demo_impl)) demo_waiting"
    using demo_waiting_step by (rule r_into_rtranclp)
  moreover have "demo_reader \<notin> sys_woken demo_waiting" by (simp add: demo_waiting_def sys_init_def)
  moreover have "sys_block demo_waiting demo_reader = Some In_receive" by (simp add: demo_waiting_def)
  ultimately show ?thesis
    using no_lost_wakeup [OF demo_repr(1), of "\<lambda>_. demo_impl" demo_reader demo_waiting demo_reader] demo_repr(2)
    by simp
qed

text \<open>
  C2. Reliable delivery under concurrency: in every reachable state the messages sent so far, in the order in
  which the sends completed, are those that have left the queue followed by those stored in the ring; what
  the reader received are exactly the delivered ones, byte for byte. Only \<open>clear\<close> and the recovery from a
  dead lock owner remove messages without delivering them.
\<close>

theorem concurrent_delivery:
  assumes "mq_repr hdr []" "\<forall>ob. impl_ok (obj ob) hdr" "(ipc_step reader)\<^sup>*\<^sup>* (sys_init hdr obj) s"
  shows "sys_sent s = map fst (sys_gone s) @ sys_pending s \<and>
    sys_received s = map (snd \<circ> fst) (filter snd (sys_gone s)) \<and>
    mq_repr (sys_hdr s) (map snd (sys_pending s))"
  using ipc_steps_keep_inv [OF assms(3) sys_init_inv [OF assms(1,2)]]
  by (simp add: sys_inv_def data_ok_def)

theorem concurrent_delivery_witness:
  "sys_sent demo_waiting = map fst (sys_gone demo_waiting) @ sys_pending demo_waiting \<and>
    sys_received demo_waiting = map (snd \<circ> fst) (filter snd (sys_gone demo_waiting)) \<and>
    mq_repr (sys_hdr demo_waiting) (map snd (sys_pending demo_waiting))"
  using concurrent_delivery [OF demo_repr(1), of "\<lambda>_. demo_impl" demo_reader demo_waiting] demo_repr(2)
    demo_waiting_step by blast

end
