(* ===== verification/Attribute_Set.thy ===== *)
theory Attribute_Set
  imports Prelude
begin

text \<open>
  Attribute sets (src/src/attribute_set_impl.hpp, src/src/attribute_set.cpp): a hash table of sixteen
  buckets over one doubly linked list of nodes. The nodes of a bucket are adjacent in the list and sorted
  by key; a bucket points to its first and its last node. Nodes come from a small pool of recycled nodes
  or from the heap. A pointer is a number, and following the next or the previous link of a node is moving
  in the list of nodes.
\<close>

section \<open>Data\<close>

type_synonym ptr = nat

datatype 'd node = Node (n_ptr: ptr) (n_key: u32) (n_data: 'd)

record bucket =
  bk_first :: "ptr option"
  bk_last :: "ptr option"

definition empty_bucket :: bucket where
  "empty_bucket = \<lparr>bk_first = None, bk_last = None\<rparr>"

abbreviation bucket_count :: nat where "bucket_count \<equiv> 16"

record pool_allocator =
  al_pool :: "ptr list"
  al_next :: ptr

record 'd attribute_set =
  as_nodes :: "'d node list"
  as_alloc :: pool_allocator
  as_buckets :: "bucket list"

section \<open>The pool allocator\<close>

text \<open>
  \<open>al_pool\<close> is the used part of \<open>m_Pool\<close>; the last element is taken first. The heap hands out addresses that
  were never used before.
\<close>

abbreviation max_pool_size :: nat where "max_pool_size \<equiv> 8"

definition new_allocator :: "ptr \<Rightarrow> pool_allocator" where
  "new_allocator p = \<lparr>al_pool = [], al_next = p\<rparr>"

definition pool_allocate :: "pool_allocator \<Rightarrow> ptr \<times> pool_allocator" where
  "pool_allocate a =
     (if al_pool a \<noteq> [] then (last (al_pool a), a\<lparr>al_pool := butlast (al_pool a)\<rparr>)
      else (al_next a, a\<lparr>al_next := al_next a + 1\<rparr>))"

definition pool_deallocate :: "ptr \<Rightarrow> pool_allocator \<Rightarrow> pool_allocator" where
  "pool_deallocate p a =
     (if length (al_pool a) < max_pool_size then a\<lparr>al_pool := al_pool a @ [p]\<rparr> else a)"

section \<open>Moving in the list\<close>

definition insert_before :: "ptr \<Rightarrow> 'd node \<Rightarrow> 'd node list \<Rightarrow> 'd node list" where
  "insert_before p n ns =
     takeWhile (\<lambda>m. n_ptr m \<noteq> p) ns @ n # dropWhile (\<lambda>m. n_ptr m \<noteq> p) ns"

definition insert_after :: "ptr \<Rightarrow> 'd node \<Rightarrow> 'd node list \<Rightarrow> 'd node list" where
  "insert_after p n ns =
     takeWhile (\<lambda>m. n_ptr m \<noteq> p) ns @
     (case dropWhile (\<lambda>m. n_ptr m \<noteq> p) ns of [] \<Rightarrow> [n] | m # ms \<Rightarrow> m # n # ms)"

definition next_ptr :: "'d node list \<Rightarrow> ptr \<Rightarrow> ptr option" where
  "next_ptr ns p =
     (case dropWhile (\<lambda>m. n_ptr m \<noteq> p) ns of _ # m # _ \<Rightarrow> Some (n_ptr m) | _ \<Rightarrow> None)"

definition prev_ptr :: "'d node list \<Rightarrow> ptr \<Rightarrow> ptr option" where
  "prev_ptr ns p = next_ptr (rev ns) p"

definition node_at :: "'d node list \<Rightarrow> ptr \<Rightarrow> 'd node option" where
  "node_at ns p = List.find (\<lambda>m. n_ptr m = p) ns"

section \<open>The hash table\<close>

definition bucket_index :: "u32 \<Rightarrow> nat" where
  "bucket_index key = unat (key AND 15)"

definition get_bucket :: "bucket list \<Rightarrow> u32 \<Rightarrow> bucket" where
  "get_bucket bs key = bs ! bucket_index key"

definition set_bucket :: "u32 \<Rightarrow> bucket \<Rightarrow> bucket list \<Rightarrow> bucket list" where
  "set_bucket key b bs = bs[bucket_index key := b]"

text \<open>
  The search walks from the first node of the bucket and stops at the last one or at the first node whose
  key is not smaller.
\<close>

fun walk_bucket :: "u32 \<Rightarrow> ptr \<Rightarrow> 'd node list \<Rightarrow> 'd node option" where
  "walk_bucket key l [] = None"
| "walk_bucket key l (n # ns) =
     (if n_ptr n \<noteq> l \<and> n_key n < key then walk_bucket key l ns else Some n)"

definition find_in_bucket :: "u32 \<Rightarrow> bucket \<Rightarrow> 'd node list \<Rightarrow> 'd node option" where
  "find_in_bucket key b ns =
     (case (bk_first b, bk_last b) of
        (Some f, Some l) \<Rightarrow> walk_bucket key l (dropWhile (\<lambda>m. n_ptr m \<noteq> f) ns)
      | _ \<Rightarrow> None)"

text \<open>The part of an insertion that links the new node and moves the ends of its bucket.\<close>

definition link_node ::
  "'d node \<Rightarrow> 'd node option \<Rightarrow> bucket \<Rightarrow> 'd node list \<Rightarrow> 'd node list \<times> bucket"
where
  "link_node n p b ns =
     (case p of
        None \<Rightarrow> (ns @ [n], \<lparr>bk_first = Some (n_ptr n), bk_last = Some (n_ptr n)\<rparr>)
      | Some p \<Rightarrow>
          if Some (n_ptr p) = bk_last b \<and> n_key n > n_key p
          then (insert_after (n_ptr p) n ns, b\<lparr>bk_last := Some (n_ptr n)\<rparr>)
          else if Some (n_ptr p) = bk_first b
          then (insert_before (n_ptr p) n ns, b\<lparr>bk_first := Some (n_ptr n)\<rparr>)
          else (insert_before (n_ptr p) n ns, b))"

section \<open>Operations\<close>

definition as_empty :: "ptr \<Rightarrow> 'd attribute_set" where
  "as_empty p = \<lparr>as_nodes = [], as_alloc = new_allocator p, as_buckets = replicate bucket_count empty_bucket\<rparr>"

definition as_size :: "'d attribute_set \<Rightarrow> nat" where
  "as_size s = length (as_nodes s)"

definition as_find :: "u32 \<Rightarrow> 'd attribute_set \<Rightarrow> 'd node option" where
  "as_find key s =
     (case find_in_bucket key (get_bucket (as_buckets s) key) (as_nodes s) of
        None \<Rightarrow> None
      | Some p \<Rightarrow> (if n_key p = key then Some p else None))"

definition as_insert :: "u32 \<Rightarrow> 'd \<Rightarrow> 'd attribute_set \<Rightarrow> ('d node \<times> bool) \<times> 'd attribute_set" where
  "as_insert key data s =
     (let b = get_bucket (as_buckets s) key;
          p = find_in_bucket key b (as_nodes s)
      in if (case p of None \<Rightarrow> False | Some m \<Rightarrow> n_key m = key) then ((the p, False), s)
         else (let (a, al) = pool_allocate (as_alloc s);
                   n = Node a key data;
                   (ns, b') = link_node n p b (as_nodes s)
               in ((n, True), s\<lparr>as_nodes := ns, as_alloc := al,
                                as_buckets := set_bucket key b' (as_buckets s)\<rparr>)))"

definition unlink_bucket :: "'d node \<Rightarrow> 'd node list \<Rightarrow> bucket \<Rightarrow> bucket" where
  "unlink_bucket p ns b =
     (if Some (n_ptr p) = bk_first b
      then (if Some (n_ptr p) = bk_last b then empty_bucket
            else b\<lparr>bk_first := next_ptr ns (n_ptr p)\<rparr>)
      else if Some (n_ptr p) = bk_last b then b\<lparr>bk_last := prev_ptr ns (n_ptr p)\<rparr>
      else b)"

definition as_erase :: "'d node \<Rightarrow> 'd attribute_set \<Rightarrow> 'd attribute_set" where
  "as_erase p s =
     (let b = unlink_bucket p (as_nodes s) (get_bucket (as_buckets s) (n_key p))
      in s\<lparr>as_nodes := filter (\<lambda>m. n_ptr m \<noteq> n_ptr p) (as_nodes s),
           as_alloc := pool_deallocate (n_ptr p) (as_alloc s),
           as_buckets := set_bucket (n_key p) b (as_buckets s)\<rparr>)"

definition as_erase_key :: "u32 \<Rightarrow> 'd attribute_set \<Rightarrow> nat \<times> 'd attribute_set" where
  "as_erase_key key s =
     (case as_find key s of Some p \<Rightarrow> (1, as_erase p s) | None \<Rightarrow> (0, s))"

text \<open>Erasing a range: the iterator moves on before the node it left is erased.\<close>

definition as_erase_range :: "'d node list \<Rightarrow> 'd attribute_set \<Rightarrow> 'd attribute_set" where
  "as_erase_range ps s = fold as_erase ps s"

definition as_clear :: "'d attribute_set \<Rightarrow> 'd attribute_set" where
  "as_clear s =
     s\<lparr>as_nodes := [],
       as_alloc := fold (\<lambda>n. pool_deallocate (n_ptr n)) (as_nodes s) (as_alloc s),
       as_buckets := replicate bucket_count empty_bucket\<rparr>"

text \<open>Copying appends each node in list order, and each node becomes the last of its bucket.\<close>

definition append_node :: "'d node \<Rightarrow> 'd node list \<Rightarrow> bucket list \<Rightarrow> 'd node list \<times> bucket list" where
  "append_node n ns bs =
     (let b = get_bucket bs (n_key n);
          b' = (if bk_first b = None then \<lparr>bk_first = Some (n_ptr n), bk_last = Some (n_ptr n)\<rparr>
                else b\<lparr>bk_last := Some (n_ptr n)\<rparr>)
      in (ns @ [n], set_bucket (n_key n) b' bs))"

definition copy_node :: "'d node \<Rightarrow> 'd attribute_set \<Rightarrow> 'd attribute_set" where
  "copy_node n s =
     (let (a, al) = pool_allocate (as_alloc s);
          (ns, bs) = append_node (Node a (n_key n) (n_data n)) (as_nodes s) (as_buckets s)
      in s\<lparr>as_nodes := ns, as_alloc := al, as_buckets := bs\<rparr>)"

definition as_copy :: "ptr \<Rightarrow> 'd attribute_set \<Rightarrow> 'd attribute_set" where
  "as_copy p that = fold copy_node (as_nodes that) (as_empty p)"

end
