(* ===== verification/Attribute_Table.thy ===== *)
theory Attribute_Table
  imports Attribute_Set "HOL-Library.Multiset"
begin

text \<open>
  The invariant of the hash table: the list of nodes is a sequence of runs, one per non-empty bucket, each
  sorted by key, and every bucket points to the ends of its run. Searching, linking, unlinking and appending
  nodes keep it, and the table then is a finite map.
\<close>

section \<open>Order of the nodes\<close>

definition seg_index :: "u32 list \<Rightarrow> nat" where
  "seg_index s = bucket_index (hd s)"

definition seg_ok :: "u32 list \<Rightarrow> bool" where
  "seg_ok s \<longleftrightarrow> s \<noteq> [] \<and> sorted_wrt (<) s \<and> (\<forall>k \<in> set s. bucket_index k = seg_index s)"

definition segs_ok :: "u32 list list \<Rightarrow> bool" where
  "segs_ok segs \<longleftrightarrow> (\<forall>s \<in> set segs. seg_ok s) \<and> distinct (map seg_index segs)"

definition shape :: "u32 list \<Rightarrow> bool" where
  "shape ks \<longleftrightarrow> (\<exists>segs. ks = concat segs \<and> segs_ok segs)"

definition in_bucket :: "nat \<Rightarrow> 'd node list \<Rightarrow> 'd node list" where
  "in_bucket i ns = filter (\<lambda>n. bucket_index (n_key n) = i) ns"

definition bucket_of :: "'d node list \<Rightarrow> bucket" where
  "bucket_of ns = (if ns = [] then empty_bucket
     else \<lparr>bk_first = Some (n_ptr (hd ns)), bk_last = Some (n_ptr (last ns))\<rparr>)"

definition table_ok :: "'d node list \<Rightarrow> bucket list \<Rightarrow> bool" where
  "table_ok ns bs \<longleftrightarrow> shape (map n_key ns) \<and>
     bs = map (\<lambda>i. bucket_of (in_bucket i ns)) [0..<bucket_count] \<and> distinct (map n_ptr ns)"

definition table_map :: "'d node list \<Rightarrow> u32 \<Rightarrow> 'd option" where
  "table_map ns = map_of (map (\<lambda>n. (n_key n, n_data n)) ns)"

lemma bucket_index_less [simp]: "bucket_index k < 16"
proof -
  have "k AND 15 \<le> 15" by (rule word_and_le1)
  then show ?thesis by (simp add: bucket_index_def word_le_nat_alt)
qed

lemma segs_ok_append:
  "segs_ok (A @ B) \<longleftrightarrow> segs_ok A \<and> segs_ok B \<and> seg_index ` set A \<inter> seg_index ` set B = {}"
  by (auto simp: segs_ok_def)

lemma segs_ok_Cons: "segs_ok (s # B) \<longleftrightarrow> seg_ok s \<and> segs_ok B \<and> seg_index s \<notin> seg_index ` set B"
  by (auto simp: segs_ok_def)

lemma segs_ok_Nil [simp]: "segs_ok []"
  by (simp add: segs_ok_def)

lemma segs_key_index: "segs_ok segs \<Longrightarrow> k \<in> set (concat segs) \<Longrightarrow> bucket_index k \<in> seg_index ` set segs"
  by (auto simp: segs_ok_def seg_ok_def)

lemma shape_cases [consumes 1, case_names none some]:
  assumes "shape ks"
  obtains (none) segs where "segs_ok segs" "ks = concat segs" "i \<notin> seg_index ` set segs"
    "\<forall>k \<in> set ks. bucket_index k \<noteq> i"
  | (some) A s B where "segs_ok (A @ s # B)" "ks = concat A @ s @ concat B" "seg_index s = i"
    "\<forall>k \<in> set (concat A) \<union> set (concat B). bucket_index k \<noteq> i" "\<forall>k \<in> set s. bucket_index k = i"
proof -
  obtain segs where segs: "segs_ok segs" "ks = concat segs" using assms by (auto simp: shape_def)
  show thesis
  proof (cases "i \<in> seg_index ` set segs")
    case False
    then have "\<forall>k \<in> set ks. bucket_index k \<noteq> i" using segs segs_key_index by blast
    with segs False show ?thesis by (rule none)
  next
    case True
    then obtain s where "s \<in> set segs" and i: "seg_index s = i" by auto
    then obtain A B where AB: "segs = A @ s # B" by (meson split_list)
    have ok: "segs_ok A" "segs_ok B" "i \<notin> seg_index ` set A" "i \<notin> seg_index ` set B" "seg_ok s"
      using segs(1) i unfolding AB segs_ok_append segs_ok_Cons by auto
    then have "\<forall>k \<in> set (concat A) \<union> set (concat B). bucket_index k \<noteq> i"
      using segs_key_index by blast
    moreover have "\<forall>k \<in> set s. bucket_index k = i" using ok(5) i by (simp add: seg_ok_def)
    ultimately show ?thesis using some segs i AB by simp
  qed
qed

lemma shape_replace:
  assumes "segs_ok (A @ s # B)" "seg_ok s'" "seg_index s' = seg_index s"
  shows "shape (concat A @ s' @ concat B)"
proof -
  have "segs_ok (A @ s' # B)" using assms by (auto simp: segs_ok_append segs_ok_Cons)
  then show ?thesis unfolding shape_def by (intro exI [of _ "A @ s' # B"]) simp
qed

lemma shape_remove: "segs_ok (A @ s # B) \<Longrightarrow> shape (concat A @ concat B)"
  unfolding shape_def by (intro exI [of _ "A @ B"]) (auto simp: segs_ok_append segs_ok_Cons)

lemma shape_new:
  assumes "segs_ok segs" "bucket_index k \<notin> seg_index ` set segs"
  shows "shape (concat segs @ [k])"
  unfolding shape_def using assms
  by (intro exI [of _ "segs @ [[k]]"]) (auto simp: segs_ok_append segs_ok_Cons seg_ok_def seg_index_def)

lemma seg_ok_take: "seg_ok (xs @ ys) \<Longrightarrow> xs \<noteq> [] \<Longrightarrow> seg_ok xs \<and> seg_index xs = seg_index (xs @ ys)"
proof -
  assume ok: "seg_ok (xs @ ys)" and ne: "xs \<noteq> []"
  then have i: "seg_index xs = seg_index (xs @ ys)" by (simp add: seg_index_def)
  have "\<forall>k \<in> set xs. bucket_index k = seg_index xs" unfolding i using ok by (simp add: seg_ok_def)
  with ok ne i show ?thesis by (simp add: seg_ok_def sorted_wrt_append)
qed

lemma segs_prefix:
  assumes "segs_ok segs" "concat segs = xs @ ys"
  shows "\<exists>segs'. xs = concat segs' \<and> segs_ok segs' \<and> seg_index ` set segs' \<subseteq> seg_index ` set segs"
  using assms
proof (induction segs arbitrary: xs)
  case Nil
  then show ?case by (intro exI [of _ "[]"]) simp
next
  case (Cons s segs)
  from Cons.prems(2) obtain us where "s = xs @ us \<and> us @ concat segs = ys \<or> s @ us = xs \<and> concat segs = us @ ys"
    by (auto simp: append_eq_append_conv2)
  then show ?case
  proof (elim disjE conjE)
    assume s: "s = xs @ us"
    show ?thesis
    proof (cases "xs = []")
      case False
      then have "seg_ok xs" "seg_index xs = seg_index s"
        using seg_ok_take [of xs us] Cons.prems(1) s by (auto simp: segs_ok_Cons)
      then show ?thesis by (intro exI [of _ "[xs]"]) (auto simp: segs_ok_Cons)
    qed (intro exI [of _ "[]"], simp)
  next
    assume xs: "s @ us = xs" and us: "concat segs = us @ ys"
    obtain segs' where "us = concat segs'" "segs_ok segs'" "seg_index ` set segs' \<subseteq> seg_index ` set segs"
      using Cons.IH [OF _ us] Cons.prems(1) by (auto simp: segs_ok_Cons)
    then show ?thesis using xs Cons.prems(1)
      by (intro exI [of _ "s # segs'"]) (auto simp: segs_ok_Cons)
  qed
qed

lemma shape_prefix: "shape (xs @ ys) \<Longrightarrow> shape xs"
  using segs_prefix by (metis shape_def)

lemma shape_distinct: "shape ks \<Longrightarrow> distinct ks"
proof -
  have "segs_ok segs \<Longrightarrow> distinct (concat segs)" for segs
  proof (induction segs)
    case (Cons s segs)
    have "distinct s" using Cons.prems by (auto simp: segs_ok_Cons seg_ok_def strict_sorted_iff)
    moreover have "set s \<inter> set (concat segs) = {}"
      using Cons.prems segs_key_index [of segs] by (fastforce simp: segs_ok_Cons seg_ok_def)
    ultimately show ?case using Cons by (simp add: segs_ok_Cons)
  qed simp
  then show "shape ks \<Longrightarrow> distinct ks" by (auto simp: shape_def)
qed
section \<open>Searching\<close>

lemma in_bucket_simps [simp]:
  "in_bucket i [] = []"
  "in_bucket i (xs @ ys) = in_bucket i xs @ in_bucket i ys"
  "in_bucket i (n # ns) = (if bucket_index (n_key n) = i then n # in_bucket i ns else in_bucket i ns)"
  by (simp_all add: in_bucket_def)

lemma in_bucket_empty: "in_bucket i ns = [] \<longleftrightarrow> (\<forall>k \<in> n_key ` set ns. bucket_index k \<noteq> i)"
  by (auto simp: in_bucket_def filter_empty_conv)

lemma in_bucket_all: "(\<forall>k \<in> n_key ` set ns. bucket_index k = i) \<Longrightarrow> in_bucket i ns = ns"
  by (auto simp: in_bucket_def)

lemma table_split:
  assumes "table_ok ns bs" "in_bucket i ns \<noteq> []"
  obtains X S Y A B where "ns = X @ S @ Y" "map n_key X = concat A" "map n_key Y = concat B"
    "segs_ok (A @ map n_key S # B)" "seg_index (map n_key S) = i" "in_bucket i ns = S" "S \<noteq> []"
    "in_bucket i X = []" "in_bucket i Y = []"
proof -
  have "shape (map n_key ns)" using assms(1) by (simp add: table_ok_def)
  then show thesis
  proof (cases rule: shape_cases [where i = i])
    case (none segs)
    from none(4) have "in_bucket i ns = []" by (simp only: in_bucket_empty set_map)
    with assms(2) show ?thesis by simp
  next
    case (some A s B)
    obtain X Z where XZ: "ns = X @ Z" "map n_key X = concat A" "map n_key Z = s @ concat B"
      using map_eq_append_conv [THEN iffD1, OF some(2)] by metis
    obtain S Y where SY: "Z = S @ Y" "map n_key S = s" "map n_key Y = concat B"
      using map_eq_append_conv [THEN iffD1, OF XZ(3)] by metis
    have ns: "ns = X @ S @ Y" and k: "concat A = map n_key X" "s = map n_key S" "concat B = map n_key Y"
      using XZ SY by simp_all
    have out: "in_bucket i X = []" "in_bucket i Y = []"
      using some(4) unfolding in_bucket_empty k set_map by blast+
    have "\<forall>k \<in> n_key ` set S. bucket_index k = i" using some(5) k(2) by simp
    then have "in_bucket i S = S" by (rule in_bucket_all)
    then have inb: "in_bucket i ns = S" using ns out by simp
    then have "S \<noteq> []" using assms(2) by simp
    then show ?thesis using that [OF ns k(1,3) [symmetric] _ _ inb _ out] some(1,3) k(2) by simp
  qed
qed

lemma get_bucket_table: "table_ok ns bs \<Longrightarrow> get_bucket bs key = bucket_of (in_bucket (bucket_index key) ns)"
  by (simp add: table_ok_def get_bucket_def)

lemma dropWhile_ptr:
  assumes "distinct (map n_ptr (xs @ n # ys))"
  shows "dropWhile (\<lambda>m. n_ptr m \<noteq> n_ptr n) (xs @ n # ys) = n # ys"
    and "takeWhile (\<lambda>m. n_ptr m \<noteq> n_ptr n) (xs @ n # ys) = xs"
proof -
  have "n_ptr n \<notin> n_ptr ` set xs" using assms by simp
  then have "\<forall>m \<in> set xs. n_ptr m \<noteq> n_ptr n" by (metis image_eqI)
  then show "dropWhile (\<lambda>m. n_ptr m \<noteq> n_ptr n) (xs @ n # ys) = n # ys"
    and "takeWhile (\<lambda>m. n_ptr m \<noteq> n_ptr n) (xs @ n # ys) = xs"
    by (simp_all add: dropWhile_append2 takeWhile_append2)
qed

lemma walk_bucket_split:
  assumes "S \<noteq> []" "distinct (map n_ptr S)"
  shows "\<exists>U p V. S = U @ p # V \<and> walk_bucket key (n_ptr (last S)) (S @ R) = Some p \<and>
    (\<forall>n \<in> set U. n_key n < key) \<and> (\<not> n_key p < key \<or> V = [])"
  using assms
proof (induction S)
  case (Cons n S)
  show ?case
  proof (cases "n_ptr n \<noteq> n_ptr (last (n # S)) \<and> n_key n < key")
    case True
    then have "S \<noteq> []" by auto
    have "distinct (map n_ptr S)" using Cons.prems(2) by simp
    from Cons.IH [OF \<open>S \<noteq> []\<close> this] obtain U p V
      where "S = U @ p # V" "walk_bucket key (n_ptr (last S)) (S @ R) = Some p"
      "\<forall>n \<in> set U. n_key n < key" "\<not> n_key p < key \<or> V = []" by blast
    then show ?thesis using True \<open>S \<noteq> []\<close> by (intro exI [of _ "n # U"] exI [of _ p] exI [of _ V]) auto
  next
    case False
    have "S = []" if "n_ptr n = n_ptr (last (n # S))"
    proof (rule ccontr)
      assume "S \<noteq> []"
      then have "n_ptr n \<in> n_ptr ` set S" using that by auto
      then show False using Cons.prems by simp
    qed
    then have "\<not> n_key n < key \<or> S = []" using False by blast
    moreover have "walk_bucket key (n_ptr (last (n # S))) ((n # S) @ R) = Some n"
      using False by (simp only: append_Cons walk_bucket.simps if_False)
    ultimately show ?thesis
      by (intro exI [of _ "[]"] exI [of _ n] exI [of _ S] conjI) (simp_all only: append_Nil list.set ball_empty)
  qed
qed simp

text \<open>The outcome of a search: the bucket is empty, or the search stops inside the run of the bucket.\<close>

lemma find_in_bucket_cases [consumes 2, case_names empty stop]:
  assumes t: "table_ok ns bs" and b: "b = get_bucket bs key"
  obtains (empty) "find_in_bucket key b ns = None" "in_bucket (bucket_index key) ns = []" "b = empty_bucket"
  | (stop) X U p V Y A B where "find_in_bucket key b ns = Some p" "ns = X @ (U @ p # V) @ Y"
      "in_bucket (bucket_index key) ns = U @ p # V" "in_bucket (bucket_index key) X = []" "in_bucket (bucket_index key) Y = []"
      "map n_key X = concat A" "map n_key Y = concat B" "segs_ok (A @ map n_key (U @ p # V) # B)"
      "seg_index (map n_key (U @ p # V)) = bucket_index key"
      "\<forall>n \<in> set U. n_key n < key" "\<not> n_key p < key \<or> V = []"
      "b = \<lparr>bk_first = Some (n_ptr (hd (U @ p # V))), bk_last = Some (n_ptr (last (U @ p # V)))\<rparr>"
proof (cases "in_bucket (bucket_index key) ns = []")
  case True
  then have "b = empty_bucket" using get_bucket_table [OF t] b by (simp add: bucket_of_def)
  then show thesis using empty True by (simp add: find_in_bucket_def empty_bucket_def)
next
  case False
  obtain X S Y A B where S: "ns = X @ S @ Y" "map n_key X = concat A" "map n_key Y = concat B"
    "segs_ok (A @ map n_key S # B)" "seg_index (map n_key S) = bucket_index key"
    "in_bucket (bucket_index key) ns = S" "S \<noteq> []"
    "in_bucket (bucket_index key) X = []" "in_bucket (bucket_index key) Y = []"
    by (rule table_split [OF t False])
  have d: "distinct (map n_ptr ns)" using t by (simp add: table_ok_def)
  then have "distinct (map n_ptr S)" using S(1) by simp
  from walk_bucket_split [OF S(7) this] obtain U p V where
    w: "S = U @ p # V" "walk_bucket key (n_ptr (last S)) (S @ Y) = Some p"
    "\<forall>n \<in> set U. n_key n < key" "\<not> n_key p < key \<or> V = []" by blast
  have bk: "b = \<lparr>bk_first = Some (n_ptr (hd S)), bk_last = Some (n_ptr (last S))\<rparr>"
    using get_bucket_table [OF t] b S(6,7) by (simp add: bucket_of_def)
  obtain n S' where n: "S = n # S'" using S(7) by (cases S) auto
  have "dropWhile (\<lambda>m. n_ptr m \<noteq> n_ptr (hd S)) ns = S @ Y"
    using dropWhile_ptr(1) [of X n "S' @ Y"] d unfolding S(1) n by simp
  then have "find_in_bucket key b ns = Some p" using bk w(2) by (simp add: find_in_bucket_def)
  then show thesis using S w(3,4) bk unfolding w(1) by (intro stop)
qed
lemma seg_ok_sorted: "seg_ok s \<Longrightarrow> sorted_wrt (<) s"
  by (simp add: seg_ok_def)

lemma find_in_bucket_None:
  "table_ok ns bs \<Longrightarrow> find_in_bucket key (get_bucket bs key) ns = None \<Longrightarrow> key \<notin> n_key ` set ns"
  by (rule find_in_bucket_cases [of ns bs "get_bucket bs key" key]) (auto simp: in_bucket_empty)

lemma find_in_bucket_Some:
  assumes t: "table_ok ns bs" and f: "find_in_bucket key (get_bucket bs key) ns = Some p"
  shows "p \<in> set ns" and "n_key p \<noteq> key \<Longrightarrow> key \<notin> n_key ` set ns"
proof -
  show "p \<in> set ns"
    using t refl f by (cases rule: find_in_bucket_cases [where key = key]) auto
  assume ne: "n_key p \<noteq> key"
  from t refl show "key \<notin> n_key ` set ns"
  proof (cases rule: find_in_bucket_cases [where key = key])
    case (stop X U q V Y A B)
    have q: "q = p" using f stop(1) by simp
    have "sorted_wrt (<) (map n_key (U @ p # V))"
      using stop(8) q by (auto simp: segs_ok_append segs_ok_Cons dest: seg_ok_sorted)
    then have V: "\<forall>n \<in> set V. n_key p < n_key n" by (simp add: sorted_wrt_append sorted_wrt_map)
    have "n_key n \<noteq> key" if "n \<in> set ns" for n
    proof (cases "n \<in> set (U @ p # V)")
      case True
      then show ?thesis using stop(10,11) V ne q by fastforce
    next
      case False
      then have "n \<in> set X \<union> set Y" using that stop(2) q by auto
      then show ?thesis using stop(4,5) unfolding in_bucket_empty by blast
    qed
    then show ?thesis by blast
  qed (use f in simp)
qed

lemma buckets_update:
  assumes "table_ok ns bs" "\<And>i. i \<noteq> bucket_index key \<Longrightarrow> in_bucket i ns' = in_bucket i ns"
    and "b' = bucket_of (in_bucket (bucket_index key) ns')"
  shows "set_bucket key b' bs = map (\<lambda>i. bucket_of (in_bucket i ns')) [0..<bucket_count]"
proof (rule nth_equalityI)
  show "length (set_bucket key b' bs) = length (map (\<lambda>i. bucket_of (in_bucket i ns')) [0..<bucket_count])"
    using assms(1) by (simp add: table_ok_def set_bucket_def)
  fix i assume "i < length (set_bucket key b' bs)"
  then have i: "i < 16" using assms(1) by (simp add: table_ok_def set_bucket_def)
  then show "set_bucket key b' bs ! i = map (\<lambda>i. bucket_of (in_bucket i ns')) [0..<bucket_count] ! i"
    using assms by (cases "i = bucket_index key") (simp_all add: table_ok_def set_bucket_def)
qed

lemma shape_snoc_new:
  assumes "shape ks" "\<forall>k' \<in> set ks. bucket_index k' \<noteq> bucket_index k"
  shows "shape (ks @ [k])"
proof -
  obtain segs where segs: "segs_ok segs" "ks = concat segs" using assms(1) by (auto simp: shape_def)
  have "bucket_index k \<noteq> seg_index s" if "s \<in> set segs" for s
  proof -
    have "s \<noteq> []" using segs(1) that by (simp add: segs_ok_def seg_ok_def)
    then have "hd s \<in> set ks" using segs(2) that by (auto intro!: bexI [of _ s])
    then show ?thesis using assms(2) unfolding seg_index_def by metis
  qed
  then show ?thesis using shape_new [OF segs(1)] segs(2) by blast
qed

lemma run_bucket:
  assumes "segs_ok (A @ map n_key S # B)" "seg_index (map n_key S) = i"
  shows "S \<noteq> []" "sorted_wrt (<) (map n_key S)" "\<forall>n \<in> set S. bucket_index (n_key n) = i"
  using assms by (auto simp: segs_ok_append segs_ok_Cons seg_ok_def)

lemma run_replace:
  assumes X: "map n_key X = concat A" and Y: "map n_key Y = concat B"
    and ok: "segs_ok (A @ map n_key S # B)" "seg_index (map n_key S) = i"
    and out: "in_bucket i X = []" "in_bucket i Y = []"
    and S': "sorted_wrt (<) (map n_key S')" "\<forall>n \<in> set S'. bucket_index (n_key n) = i"
  shows "shape (map n_key (X @ S' @ Y))" and "in_bucket i (X @ S' @ Y) = S'"
    and "j \<noteq> i \<Longrightarrow> in_bucket j (X @ S' @ Y) = in_bucket j (X @ S @ Y)"
proof -
  show "shape (map n_key (X @ S' @ Y))"
  proof (cases "S' = []")
    case True
    then show ?thesis using shape_remove [OF ok(1)] X Y by simp
  next
    case False
    then have "seg_index (map n_key S') = i" using S'(2) by (simp add: seg_index_def hd_map)
    then have "seg_ok (map n_key S')" using S' False by (simp add: seg_ok_def)
    then show ?thesis using shape_replace [OF ok(1)] ok(2) \<open>seg_index (map n_key S') = i\<close> X Y by simp
  qed
  have "in_bucket i S' = S'" using S'(2) by (intro in_bucket_all) auto
  then show "in_bucket i (X @ S' @ Y) = S'" using out by simp
  assume "j \<noteq> i"
  then have "in_bucket j S' = []" "in_bucket j S = []"
    using S'(2) run_bucket(3) [OF ok] by (auto simp: in_bucket_empty)
  then show "in_bucket j (X @ S' @ Y) = in_bucket j (X @ S @ Y)" by simp
qed

lemma link_node_ok:
  assumes t: "table_ok ns bs" and b: "b = get_bucket bs key" and p: "p = find_in_bucket key b ns"
    and new: "key \<notin> n_key ` set ns" and n: "n_key n = key" "n_ptr n \<notin> n_ptr ` set ns"
    and link: "link_node n p b ns = (ns', b')"
  shows "table_ok ns' (set_bucket key b' bs)" and "set ns' = insert n (set ns)"
proof -
  have d: "distinct (map n_ptr ns)" using t by (simp add: table_ok_def)
  from t b have "shape (map n_key ns') \<and> (\<forall>i. i \<noteq> bucket_index key \<longrightarrow> in_bucket i ns' = in_bucket i ns) \<and>
      b' = bucket_of (in_bucket (bucket_index key) ns') \<and> distinct (map n_ptr ns') \<and> set ns' = insert n (set ns)"
  proof (cases rule: find_in_bucket_cases)
    case empty
    then have ns': "ns' = ns @ [n]" and b': "b' = \<lparr>bk_first = Some (n_ptr n), bk_last = Some (n_ptr n)\<rparr>"
      using link p by (simp_all add: link_node_def)
    have "shape (map n_key ns)" using t by (simp add: table_ok_def)
    then have "shape (map n_key ns @ [key])"
      using empty(2) by (intro shape_snoc_new) (auto simp: in_bucket_empty)
    then show ?thesis using ns' b' d n empty(2) by (auto simp: bucket_of_def)
  next
    case (stop X U q V Y A B)
    let ?S = "U @ q # V"
    have D: "distinct (map n_ptr ((X @ U) @ q # V @ Y))" using d stop(2) by simp
    note run = run_bucket [OF stop(8,9)]
    have qn: "n_key q \<noteq> key" using new stop(2) by auto
    define S' where "S' = (if key > n_key q then U @ [q, n] else U @ n # q # V)"
    have V: "V = []" if "key > n_key q" using stop(11) that by simp
    have sorted: "sorted_wrt (<) (map n_key S')"
    proof (cases "key > n_key q")
      case True
      then show ?thesis using run(2) stop(10) n(1) V by (simp add: S'_def sorted_wrt_append)
    next
      case False
      then have lt: "key < n_key q" using qn by simp
      then have "\<forall>m \<in> set V. key < n_key m" using run(2) by (auto simp: sorted_wrt_append sorted_wrt_map intro: less_trans)
      then show ?thesis using run(2) stop(10) n(1) lt False by (simp add: S'_def sorted_wrt_append)
    qed
    have idx: "\<forall>m \<in> set S'. bucket_index (n_key m) = bucket_index key"
      using run(3) n(1) by (auto simp: S'_def)
    have last: "n_ptr q = n_ptr (last ?S) \<longleftrightarrow> V = []"
      using D by (cases V rule: rev_cases) auto
    have first: "n_ptr q = n_ptr (hd ?S) \<longleftrightarrow> U = []"
      using D by (cases U) auto
    have ns_eq: "ns = (X @ U) @ q # V @ Y" using stop(2) by simp
    have "ns' = X @ S' @ Y \<and> b' = bucket_of S'"
    proof (cases "key > n_key q")
      case True
      have "link_node n p b ns = (insert_after (n_ptr q) n ns, b\<lparr>bk_last := Some (n_ptr n)\<rparr>)"
        using p stop(1,12) True n(1) V [OF True] by (simp add: link_node_def)
      moreover have "insert_after (n_ptr q) n ns = X @ S' @ Y"
        using dropWhile_ptr [OF D] True V [OF True] unfolding insert_after_def ns_eq by (simp add: S'_def)
      moreover have "b\<lparr>bk_last := Some (n_ptr n)\<rparr> = bucket_of S'"
        using stop(12) True V [OF True] by (cases U) (simp_all add: bucket_of_def S'_def)
      ultimately show ?thesis using link by simp
    next
      case False
      let ?b = "if U = [] then b\<lparr>bk_first := Some (n_ptr n)\<rparr> else b"
      have "link_node n p b ns = (insert_before (n_ptr q) n ns, ?b)"
        using p stop(1,12) False n(1) first by (simp add: link_node_def)
      moreover have "insert_before (n_ptr q) n ns = X @ S' @ Y"
        using dropWhile_ptr [OF D] False unfolding insert_before_def ns_eq by (simp add: S'_def)
      moreover have "?b = bucket_of S'"
        using stop(12) False by (cases U) (simp_all add: bucket_of_def S'_def)
      ultimately show ?thesis using link by simp
    qed
    then have ns': "ns' = X @ S' @ Y" and b': "b' = bucket_of S'" by simp_all
    note rep = run_replace [OF stop(6-9) stop(4,5) sorted idx]
    have mset: "mset ns' = add_mset n (mset ns)"
      using V unfolding ns' ns_eq S'_def by (cases "key > n_key q") simp_all
    have "set ns' = insert n (set ns)" using arg_cong [OF mset, of set_mset] by simp
    moreover have "mset (map n_ptr ns') = mset (n_ptr n # map n_ptr ns)"
      unfolding mset_map mset by simp
    then have "distinct (map n_ptr ns') = distinct (n_ptr n # map n_ptr ns)"
      by (rule mset_eq_imp_distinct_iff)
    then have "distinct (map n_ptr ns')" using d n(2) by simp
    ultimately show ?thesis using rep b' stop(2) by (simp add: ns')
  qed
  then show "table_ok ns' (set_bucket key b' bs)" and "set ns' = insert n (set ns)"
    using buckets_update [OF t, of key ns' b'] by (simp_all add: table_ok_def)
qed
section \<open>Unlinking and appending\<close>

lemma next_ptr_eq:
  "distinct (map n_ptr (xs @ p # q # ys)) \<Longrightarrow> next_ptr (xs @ p # q # ys) (n_ptr p) = Some (n_ptr q)"
  using dropWhile_ptr(1) [of xs p "q # ys"] by (simp add: next_ptr_def)

lemma prev_ptr_eq:
  assumes "distinct (map n_ptr (xs @ q # p # ys))"
  shows "prev_ptr (xs @ q # p # ys) (n_ptr p) = Some (n_ptr q)"
proof -
  have "distinct (map n_ptr (rev ys @ p # q # rev xs))"
    using distinct_rev [of "map n_ptr (xs @ q # p # ys)"] assms by (simp add: rev_map)
  from next_ptr_eq [OF this] show ?thesis by (simp add: prev_ptr_def)
qed

lemma filter_ptr:
  assumes "distinct (map n_ptr (xs @ p # ys))"
  shows "filter (\<lambda>m. n_ptr m \<noteq> n_ptr p) (xs @ p # ys) = xs @ ys"
proof -
  have "n_ptr p \<notin> n_ptr ` set (xs @ ys)" using assms by auto
  then have "filter (\<lambda>m. n_ptr m \<noteq> n_ptr p) (xs @ ys) = xs @ ys" by (metis (mono_tags, lifting) filter_True imageI)
  then show ?thesis by simp
qed

lemma unlink_bucket_run:
  assumes d: "distinct (map n_ptr (X @ (U @ p # V) @ Y))"
    and b: "b = \<lparr>bk_first = Some (n_ptr (hd (U @ p # V))), bk_last = Some (n_ptr (last (U @ p # V)))\<rparr>"
  shows "unlink_bucket p (X @ (U @ p # V) @ Y) b = bucket_of (U @ V)"
proof -
  have last: "n_ptr p = n_ptr (last (U @ p # V)) \<longleftrightarrow> V = []"
    using d by (cases V rule: rev_cases) auto
  have first: "n_ptr p = n_ptr (hd (U @ p # V)) \<longleftrightarrow> U = []"
    using d by (cases U) auto
  show ?thesis
  proof (cases U rule: rev_cases)
    case Nil
    show ?thesis
    proof (cases V)
      case (Cons q V')
      have "next_ptr (X @ p # q # V' @ Y) (n_ptr p) = Some (n_ptr q)"
        using d Nil Cons by (intro next_ptr_eq) simp
      then show ?thesis using last first Nil Cons b by (simp add: unlink_bucket_def bucket_of_def)
    qed (use last first Nil b in \<open>simp add: unlink_bucket_def bucket_of_def\<close>)
  next
    case (snoc U' q)
    have "prev_ptr ((X @ U') @ q # p # V @ Y) (n_ptr p) = Some (n_ptr q)"
      using d snoc by (intro prev_ptr_eq) simp
    then show ?thesis using last first snoc b
      by (cases "V = []"; cases U') (auto simp: unlink_bucket_def bucket_of_def)
  qed
qed

lemma unlink_node_ok:
  assumes t: "table_ok ns bs" and p: "p \<in> set ns"
  defines "ns' \<equiv> filter (\<lambda>m. n_ptr m \<noteq> n_ptr p) ns"
  shows "table_ok ns' (set_bucket (n_key p) (unlink_bucket p ns (get_bucket bs (n_key p))) bs)"
    and "set ns' = set ns - {p}"
proof -
  let ?i = "bucket_index (n_key p)"
  have d: "distinct (map n_ptr ns)" using t by (simp add: table_ok_def)
  have "in_bucket ?i ns \<noteq> []" using p by (auto simp: in_bucket_empty)
  from t this obtain X S Y A B where S: "ns = X @ S @ Y" "map n_key X = concat A" "map n_key Y = concat B"
    "segs_ok (A @ map n_key S # B)" "seg_index (map n_key S) = ?i" "in_bucket ?i ns = S" "S \<noteq> []"
    "in_bucket ?i X = []" "in_bucket ?i Y = []" by (rule table_split)
  have "p \<in> set S" using S(6) p by (auto simp: in_bucket_def)
  then obtain U V where UV: "S = U @ p # V" by (meson split_list)
  have b: "get_bucket bs (n_key p) = \<lparr>bk_first = Some (n_ptr (hd S)), bk_last = Some (n_ptr (last S))\<rparr>"
    using get_bucket_table [OF t] S(6,7) by (simp add: bucket_of_def)
  have ns': "ns' = X @ (U @ V) @ Y"
    unfolding ns'_def S(1) UV using filter_ptr [of "X @ U" p "V @ Y"] d S(1) UV by simp
  note run = run_bucket [OF S(4,5)]
  have "sorted_wrt (<) (map n_key (U @ V))" "\<forall>n \<in> set (U @ V). bucket_index (n_key n) = ?i"
    using run(2,3) UV by (auto simp: sorted_wrt_append)
  note rep = run_replace [OF S(2-5,8,9) this]
  have un: "unlink_bucket p ns (get_bucket bs (n_key p)) = bucket_of (U @ V)"
    unfolding S(1) UV by (rule unlink_bucket_run) (use d S(1) UV b in simp_all)
  have "distinct (map n_ptr ns')" unfolding ns'_def using d by (rule distinct_map_filter)
  then show "table_ok ns' (set_bucket (n_key p) (unlink_bucket p ns (get_bucket bs (n_key p))) bs)"
    unfolding un table_ok_def
    using rep buckets_update [OF t, of "n_key p" ns' "bucket_of (U @ V)"] S(1)
    by (simp only: ns' simp_thms)
  have "p \<notin> set (X @ (U @ V) @ Y)" using d S(1) UV by (auto simp: distinct_map)
  then show "set ns' = set ns - {p}" unfolding ns' S(1) UV by auto
qed

lemma append_node_ok:
  assumes t: "table_ok ns bs" and sh: "shape (map n_key (ns @ [n]))" and n: "n_ptr n \<notin> n_ptr ` set ns"
    and app: "append_node n ns bs = (ns', bs')"
  shows "table_ok ns' bs'" and "ns' = ns @ [n]"
proof -
  show ns': "ns' = ns @ [n]" using app by (simp add: append_node_def Let_def)
  let ?b = "get_bucket bs (n_key n)"
  have b: "?b = bucket_of (in_bucket (bucket_index (n_key n)) ns)" using t by (rule get_bucket_table)
  have "(if bk_first ?b = None then \<lparr>bk_first = Some (n_ptr n), bk_last = Some (n_ptr n)\<rparr>
      else ?b\<lparr>bk_last := Some (n_ptr n)\<rparr>) = bucket_of (in_bucket (bucket_index (n_key n)) ns')"
    unfolding b ns' by (simp add: bucket_of_def empty_bucket_def)
  then have "bs' = map (\<lambda>i. bucket_of (in_bucket i ns')) [0..<bucket_count]"
    using app buckets_update [OF t, of "n_key n" ns'] ns' by (auto simp: append_node_def Let_def)
  then show "table_ok ns' bs'" using sh t n ns' by (simp add: table_ok_def)
qed

section \<open>The table as a map\<close>

lemma table_map_iff:
  assumes "distinct (map n_key ns)"
  shows "table_map ns k = Some d \<longleftrightarrow> (\<exists>n \<in> set ns. n_key n = k \<and> n_data n = d)"
proof -
  have "distinct (map fst (map (\<lambda>n. (n_key n, n_data n)) ns))" using assms by (simp add: comp_def)
  then show ?thesis unfolding table_map_def by (auto simp: map_of_eq_Some_iff)
qed

lemma table_map_None: "table_map ns k = None \<longleftrightarrow> k \<notin> n_key ` set ns"
  by (auto simp: table_map_def map_of_eq_None_iff image_comp comp_def)

lemma table_keys: "table_ok ns bs \<Longrightarrow> distinct (map n_key ns)"
  by (simp add: table_ok_def shape_distinct)

lemma table_map_insert:
  assumes "distinct (map n_key ns)" "distinct (map n_key ns')" "set ns' = insert n (set ns)" "n_key n \<notin> n_key ` set ns"
  shows "table_map ns' = (table_map ns)(n_key n \<mapsto> n_data n)"
proof (rule ext, rule option.expand)
  fix k
  show "(table_map ns' k = None) = (((table_map ns)(n_key n \<mapsto> n_data n)) k = None)"
    using assms(3) by (auto simp: table_map_None)
  assume "table_map ns' k \<noteq> None"
  then obtain d where d: "table_map ns' k = Some d" by blast
  then have "((table_map ns)(n_key n \<mapsto> n_data n)) k = Some d"
    using table_map_iff [OF assms(2)] table_map_iff [OF assms(1)] assms(3,4) by (auto, metis imageI)
  with d show "the (table_map ns' k) = the (((table_map ns)(n_key n \<mapsto> n_data n)) k)" by simp
qed

lemma table_map_remove:
  assumes "distinct (map n_key ns)" "distinct (map n_key ns')" "set ns' = set ns - {n}" "n \<in> set ns"
  shows "table_map ns' = (table_map ns)(n_key n := None)"
proof (rule ext)
  fix k
  have uniq: "m = n" if "m \<in> set ns" "n_key m = n_key n" for m
    using assms(1,4) that by (metis distinct_map inj_onD)
  show "table_map ns' k = ((table_map ns)(n_key n := None)) k"
  proof (cases "k = n_key n")
    case True
    then show ?thesis using assms(3) uniq by (auto simp: table_map_None)
  next
    case False
    show ?thesis
    proof (cases "table_map ns k")
      case None
      then have "table_map ns' k = None" using assms(3) by (auto simp: table_map_None)
      then show ?thesis using None False by simp
    next
      case (Some d)
      then have "table_map ns' k = Some d"
        using table_map_iff [OF assms(2)] table_map_iff [OF assms(1)] assms(3) False by auto
      then show ?thesis using False Some by simp
    qed
  qed
qed
end
