(* ===== verification/Attribute_Set_Refinement.thy ===== *)
theory Attribute_Set_Refinement
  imports Attribute_Table
begin

text \<open>
  The operations of an attribute set refine those of a finite map. The interface \<open>unique_map\<close> states what a
  container that never replaces a value promises; attribute sets and attribute value sets both provide it.
\<close>

section \<open>Containers of unique keys\<close>

locale unique_map =
  fixes ok :: "'s \<Rightarrow> bool"
    and get :: "'s \<Rightarrow> 'k \<Rightarrow> 'v option"
    and add :: "'k \<Rightarrow> 'v \<Rightarrow> 's \<Rightarrow> 's"
  assumes add_ok: "ok s \<Longrightarrow> ok (add k v s)"
    and get_add: "ok s \<Longrightarrow> get (add k v s) = (case get s k of None \<Rightarrow> (get s)(k \<mapsto> v) | Some _ \<Rightarrow> get s)"
begin

lemma add_all:
  assumes "ok s"
  shows "ok (fold (\<lambda>(k, v). add k v) kvs s) \<and> get (fold (\<lambda>(k, v). add k v) kvs s) = map_of kvs ++ get s"
  using assms
proof (induction kvs arbitrary: s)
  case (Cons kv kvs)
  obtain k v where kv: "kv = (k, v)" by (cases kv)
  have "map_of kvs ++ get (add k v s) = map_of ((k, v) # kvs) ++ get s"
    using get_add [OF Cons.prems, of k v]
    by (auto simp: fun_eq_iff map_add_def split: option.splits)
  then show ?case using Cons.IH [OF add_ok [OF Cons.prems], of k v] kv by (simp add: fun_upd_def)
qed simp

end

section \<open>Operations\<close>

definition alloc_ok :: "'d node list \<Rightarrow> pool_allocator \<Rightarrow> bool" where
  "alloc_ok ns a \<longleftrightarrow> distinct (al_pool a) \<and> length (al_pool a) \<le> max_pool_size \<and>
     set (al_pool a) \<inter> n_ptr ` set ns = {} \<and> (\<forall>p \<in> set (al_pool a) \<union> n_ptr ` set ns. p < al_next a)"

definition as_ok :: "'d attribute_set \<Rightarrow> bool" where
  "as_ok s \<longleftrightarrow> table_ok (as_nodes s) (as_buckets s) \<and> alloc_ok (as_nodes s) (as_alloc s)"

definition as_map :: "'d attribute_set \<Rightarrow> u32 \<Rightarrow> 'd option" where
  "as_map s = table_map (as_nodes s)"

lemma pool_allocate_ok:
  assumes "alloc_ok ns a" "pool_allocate a = (p, a')"
  shows "p \<notin> n_ptr ` set ns" and "set ns' = insert n (set ns) \<Longrightarrow> n_ptr n = p \<Longrightarrow> alloc_ok ns' a'"
proof (atomize (full), cases "al_pool a = []")
  case True
  then have p: "p = al_next a" "a' = a\<lparr>al_next := al_next a + 1\<rparr>"
    using assms(2) by (auto simp: pool_allocate_def)
  then show "p \<notin> n_ptr ` set ns \<and> (set ns' = insert n (set ns) \<longrightarrow> n_ptr n = p \<longrightarrow> alloc_ok ns' a')"
    using assms(1) True by (auto simp: alloc_ok_def less_Suc_eq)
next
  case False
  obtain ps where ps: "al_pool a = ps @ [p]" "a' = a\<lparr>al_pool := ps\<rparr>"
    using assms(2) False by (cases "al_pool a" rule: rev_cases) (auto simp: pool_allocate_def)
  then show "p \<notin> n_ptr ` set ns \<and> (set ns' = insert n (set ns) \<longrightarrow> n_ptr n = p \<longrightarrow> alloc_ok ns' a')"
    using assms(1) by (auto simp: alloc_ok_def)
qed

lemma pool_deallocate_ok:
  assumes "alloc_ok ns a" "p \<in> set ns" "set ns' = set ns - {p}" "inj_on n_ptr (set ns)"
  shows "alloc_ok ns' (pool_deallocate (n_ptr p) a)"
proof -
  have "n_ptr p \<notin> n_ptr ` set ns'" using assms(2,3,4) by (auto simp: inj_on_def)
  moreover have "n_ptr p \<notin> set (al_pool a)" "n_ptr p < al_next a" using assms(1,2) by (auto simp: alloc_ok_def)
  ultimately show ?thesis using assms(1,3) by (auto simp: alloc_ok_def pool_deallocate_def)
qed

lemma table_inj: "table_ok ns bs \<Longrightarrow> inj_on n_ptr (set ns)"
  by (simp add: table_ok_def distinct_map)

lemma as_find_map:
  assumes "as_ok s"
  shows "as_find key s = Some n \<Longrightarrow> n \<in> set (as_nodes s) \<and> n_key n = key"
    and "map_option n_data (as_find key s) = as_map s key"
proof -
  have t: "table_ok (as_nodes s) (as_buckets s)" using assms by (simp add: as_ok_def)
  show *: "n \<in> set (as_nodes s) \<and> n_key n = key" if "as_find key s = Some n" for n
    using that find_in_bucket_Some(1) [OF t] by (auto simp: as_find_def split: option.splits if_splits)
  have none: "key \<notin> n_key ` set (as_nodes s)" if "as_find key s = None"
    using that find_in_bucket_None [OF t, of key] find_in_bucket_Some(2) [OF t, of key]
    by (auto simp: as_find_def split: option.splits if_splits)
  show "map_option n_data (as_find key s) = as_map s key"
  proof (cases "as_find key s")
    case None
    then show ?thesis using none table_map_None [of "as_nodes s" key] by (simp add: as_map_def)
  next
    case (Some m)
    then have "as_map s key = Some (n_data m)"
      using * table_map_iff [OF table_keys [OF t]] by (auto simp: as_map_def)
    with Some show ?thesis by simp
  qed
qed

lemma as_insert_cases:
  assumes ok: "as_ok s" and ins: "as_insert key d s = ((n, b), s')"
  shows "as_ok s'" and "n \<in> set (as_nodes s') \<and> n_key n = key"
    and "b \<longleftrightarrow> as_map s key = None"
    and "as_map s' = (if b then (as_map s)(key \<mapsto> d) else as_map s)"
    and "set (as_nodes s') = insert n (set (as_nodes s))"
proof -
  have t: "table_ok (as_nodes s) (as_buckets s)" and a: "alloc_ok (as_nodes s) (as_alloc s)"
    using ok by (simp_all add: as_ok_def)
  let ?b = "get_bucket (as_buckets s) key"
  define p where "p = find_in_bucket key ?b (as_nodes s)"
  have "as_ok s' \<and> (n \<in> set (as_nodes s') \<and> n_key n = key) \<and> b = (as_map s key = None) \<and>
     as_map s' = (if b then (as_map s)(key \<mapsto> d) else as_map s) \<and> set (as_nodes s') = insert n (set (as_nodes s))"
  proof (cases "\<exists>m. p = Some m \<and> n_key m = key")
    case True
    then obtain m where m: "p = Some m" "n_key m = key" by blast
    then have "n = m" "\<not> b" "s' = s" using ins by (simp_all add: as_insert_def Let_def p_def)
    moreover have "m \<in> set (as_nodes s)" using find_in_bucket_Some(1) [OF t] m by (simp add: p_def)
    moreover have "as_map s key \<noteq> None"
      using calculation m(2) table_map_None [of "as_nodes s" key] by (auto simp: as_map_def)
    ultimately show ?thesis using ok m(2) by auto
  next
    case False
    then have new: "key \<notin> n_key ` set (as_nodes s)"
      using find_in_bucket_None [OF t, of key] find_in_bucket_Some(2) [OF t, of key]
      by (cases p) (auto simp: p_def)
    obtain q al where q: "pool_allocate (as_alloc s) = (q, al)" by (cases "pool_allocate (as_alloc s)")
    obtain ns b' where l: "link_node (Node q key d) p ?b (as_nodes s) = (ns, b')"
      by (cases "link_node (Node q key d) p ?b (as_nodes s)")
    have "(case p of None \<Rightarrow> False | Some m \<Rightarrow> n_key m = key) = False" using False by (auto split: option.split)
    then have r: "n = Node q key d" "b"
      "s' = s\<lparr>as_nodes := ns, as_alloc := al, as_buckets := set_bucket key b' (as_buckets s)\<rparr>"
      using ins q l by (auto simp: as_insert_def Let_def p_def)
    have fresh: "q \<notin> n_ptr ` set (as_nodes s)" using pool_allocate_ok(1) [OF a q] .
    note lk = link_node_ok [OF t refl p_def new _ _ l]
    have t': "table_ok ns (set_bucket key b' (as_buckets s))" and set: "set ns = insert n (set (as_nodes s))"
      using lk fresh r(1) by simp_all
    have "alloc_ok ns al" using pool_allocate_ok(2) [OF a q set] r(1) by simp
    moreover have "table_map ns = (table_map (as_nodes s))(key \<mapsto> d)"
      using table_map_insert [OF table_keys [OF t] table_keys [OF t'] set] r(1) new by simp
    moreover have "as_map s key = None" using new by (simp add: as_map_def table_map_None)
    ultimately show ?thesis using r t' set by (simp add: as_ok_def as_map_def)
  qed
  then show "as_ok s'" and "n \<in> set (as_nodes s') \<and> n_key n = key" and "b \<longleftrightarrow> as_map s key = None"
    and "as_map s' = (if b then (as_map s)(key \<mapsto> d) else as_map s)"
    and "set (as_nodes s') = insert n (set (as_nodes s))" by blast+
qed

lemma as_erase_ok:
  assumes ok: "as_ok s" and p: "p \<in> set (as_nodes s)"
  shows "as_ok (as_erase p s)" and "as_map (as_erase p s) = (as_map s)(n_key p := None)"
    and "set (as_nodes (as_erase p s)) = set (as_nodes s) - {p}"
proof -
  have t: "table_ok (as_nodes s) (as_buckets s)" and a: "alloc_ok (as_nodes s) (as_alloc s)"
    using ok by (simp_all add: as_ok_def)
  note u = unlink_node_ok [OF t p]
  show "as_ok (as_erase p s)"
    using u(1) pool_deallocate_ok [OF a p u(2) table_inj [OF t]] by (simp add: as_ok_def as_erase_def Let_def)
  show "as_map (as_erase p s) = (as_map s)(n_key p := None)"
    using table_map_remove [OF table_keys [OF t] table_keys [OF u(1)] u(2) p]
    by (simp add: as_map_def as_erase_def Let_def)
  show "set (as_nodes (as_erase p s)) = set (as_nodes s) - {p}"
    using u(2) by (simp add: as_erase_def Let_def)
qed

interpretation aset: unique_map as_ok as_map "\<lambda>k d s. snd (as_insert k d s)"
proof
  fix s :: "'a attribute_set" and k d
  assume ok: "as_ok s"
  obtain n b s' where ins: "as_insert k d s = ((n, b), s')" by (metis prod_cases3 prod.collapse)
  note c = as_insert_cases [OF ok ins]
  show "as_ok (snd (as_insert k d s))" using c(1) ins by simp
  show "as_map (snd (as_insert k d s)) =
      (case as_map s k of None \<Rightarrow> (as_map s)(k \<mapsto> d) | Some _ \<Rightarrow> as_map s)"
    using c(3,4) ins by (simp split: option.split)
qed

lemma as_empty_ok: "as_ok (as_empty p)" "as_map (as_empty p) = Map.empty"
proof -
  have "shape []" unfolding shape_def by (intro exI [of _ "[]"]) simp
  then show "as_ok (as_empty p)"
    by (simp add: as_ok_def as_empty_def table_ok_def alloc_ok_def new_allocator_def bucket_of_def map_replicate_const)
  show "as_map (as_empty p) = Map.empty" by (simp add: as_map_def as_empty_def table_map_def)
qed

lemma deallocate_all:
  "alloc_ok ns a \<Longrightarrow> distinct (map n_ptr ns) \<Longrightarrow> alloc_ok [] (fold (\<lambda>n. pool_deallocate (n_ptr n)) ns a)"
proof (induction ns arbitrary: a)
  case (Cons n ns)
  have "alloc_ok ns (pool_deallocate (n_ptr n) a)"
    using Cons.prems by (intro pool_deallocate_ok [of "n # ns"]) (auto simp: distinct_map)
  then show ?case using Cons by simp
qed (simp add: alloc_ok_def)

lemma as_clear_ok: "as_ok s \<Longrightarrow> as_ok (as_clear s) \<and> as_map (as_clear s) = Map.empty"
  using as_empty_ok(1) [of 0] deallocate_all [of "as_nodes s" "as_alloc s"]
  by (auto simp: as_ok_def as_clear_def as_empty_def as_map_def table_map_def table_ok_def)

lemma as_erase_key_ok:
  assumes "as_ok s"
  shows "as_ok (snd (as_erase_key key s)) \<and> as_map (snd (as_erase_key key s)) = (as_map s)(key := None) \<and>
    fst (as_erase_key key s) = (if as_map s key = None then 0 else 1)"
proof (cases "as_find key s")
  case None
  then have "as_map s key = None" using as_find_map(2) [OF assms, of key] by simp
  then show ?thesis using None assms by (simp add: as_erase_key_def fun_upd_idem)
next
  case (Some n)
  note n = as_find_map(1) [OF assms Some]
  have "as_map s key = Some (n_data n)" using as_find_map(2) [OF assms, of key] Some by simp
  then show ?thesis using Some as_erase_ok [OF assms, of n] n by (simp add: as_erase_key_def)
qed

lemma copy_nodes:
  assumes "as_ok s" "shape (map n_key (as_nodes s @ ns))"
  shows "as_ok (fold copy_node ns s) \<and>
    map (\<lambda>n. (n_key n, n_data n)) (as_nodes (fold copy_node ns s)) =
    map (\<lambda>n. (n_key n, n_data n)) (as_nodes s @ ns)"
  using assms
proof (induction ns arbitrary: s)
  case (Cons n ns)
  obtain a al where a: "pool_allocate (as_alloc s) = (a, al)" by (cases "pool_allocate (as_alloc s)")
  let ?n = "Node a (n_key n) (n_data n)"
  obtain ns' bs' where app: "append_node ?n (as_nodes s) (as_buckets s) = (ns', bs')"
    by (cases "append_node ?n (as_nodes s) (as_buckets s)")
  have t: "table_ok (as_nodes s) (as_buckets s)" and al: "alloc_ok (as_nodes s) (as_alloc s)"
    using Cons.prems(1) by (simp_all add: as_ok_def)
  have "shape (map n_key (as_nodes s @ [?n]))"
    using Cons.prems(2) shape_prefix [of "map n_key (as_nodes s) @ [n_key n]" "map n_key ns"] by simp
  note an = append_node_ok [OF t this _ app]
  have fresh: "n_ptr ?n \<notin> n_ptr ` set (as_nodes s)" using pool_allocate_ok(1) [OF al a] by simp
  have c: "copy_node n s = s\<lparr>as_nodes := ns', as_alloc := al, as_buckets := bs'\<rparr>"
    using a app by (simp add: copy_node_def)
  have ns': "ns' = as_nodes s @ [?n]" using an(2) fresh by blast
  have "alloc_ok ns' al" using pool_allocate_ok(2) [OF al a, of ns' ?n] ns' by simp
  then have "as_ok (copy_node n s)" using an(1) fresh by (simp add: c as_ok_def)
  moreover have "shape (map n_key (as_nodes (copy_node n s) @ ns))" using Cons.prems(2) by (simp add: c ns')
  ultimately show ?case using Cons.IH by (simp add: c ns')
qed simp

lemma as_copy_ok:
  assumes "as_ok that"
  shows "as_ok (as_copy p that)" "as_map (as_copy p that) = as_map that"
    "map n_key (as_nodes (as_copy p that)) = map n_key (as_nodes that)"
proof -
  have "shape (map n_key (as_nodes (as_empty p :: 'a attribute_set) @ as_nodes that))"
    using assms by (simp add: as_empty_def as_ok_def table_ok_def)
  note c = copy_nodes [OF as_empty_ok(1) this]
  then have e: "map (\<lambda>n. (n_key n, n_data n)) (as_nodes (as_copy p that)) = map (\<lambda>n. (n_key n, n_data n)) (as_nodes that)"
    by (simp add: as_copy_def as_empty_def)
  show "as_ok (as_copy p that)" using c by (simp add: as_copy_def)
  show "as_map (as_copy p that) = as_map that" using e by (simp add: as_map_def table_map_def)
  show "map n_key (as_nodes (as_copy p that)) = map n_key (as_nodes that)"
    using arg_cong [OF e, of "map fst"] by (simp add: comp_def)
qed

section \<open>Properties\<close>

datatype 'd set_op = Insert u32 'd | Erase u32 | Clear

fun run_set_ops :: "'d attribute_set \<Rightarrow> 'd set_op list \<Rightarrow> bool list \<times> 'd attribute_set" where
  "run_set_ops s [] = ([], s)"
| "run_set_ops s (Insert k d # ops) =
     (case as_insert k d s of ((n, b), s') \<Rightarrow> case run_set_ops s' ops of (rs, s'') \<Rightarrow> (b # rs, s''))"
| "run_set_ops s (Erase k # ops) =
     (case as_erase_key k s of (c, s') \<Rightarrow> case run_set_ops s' ops of (rs, s'') \<Rightarrow> ((c = 1) # rs, s''))"
| "run_set_ops s (Clear # ops) = (case run_set_ops (as_clear s) ops of (rs, s'') \<Rightarrow> (True # rs, s''))"

fun run_map_ops :: "(u32 \<Rightarrow> 'd option) \<Rightarrow> 'd set_op list \<Rightarrow> bool list \<times> (u32 \<Rightarrow> 'd option)" where
  "run_map_ops m [] = ([], m)"
| "run_map_ops m (Insert k d # ops) =
     (let b = (m k = None) in
      case run_map_ops (if b then m(k \<mapsto> d) else m) ops of (rs, m') \<Rightarrow> (b # rs, m'))"
| "run_map_ops m (Erase k # ops) =
     (case run_map_ops (m(k := None)) ops of (rs, m') \<Rightarrow> ((m k \<noteq> None) # rs, m'))"
| "run_map_ops m (Clear # ops) = (case run_map_ops Map.empty ops of (rs, m') \<Rightarrow> (True # rs, m'))"

lemma run_set_ops_refines:
  assumes "as_ok s" "run_set_ops s ops = (rs, s')"
  shows "as_ok s' \<and> run_map_ops (as_map s) ops = (rs, as_map s')"
  using assms
proof (induction s ops arbitrary: rs s' rule: run_set_ops.induct)
  case (2 s k d ops)
  obtain n b s1 where ins: "as_insert k d s = ((n, b), s1)" by (metis prod_cases3 prod.collapse)
  obtain rs1 where r: "run_set_ops s1 ops = (rs1, s')" and rs: "rs = b # rs1"
    using "2.prems"(2) ins by (auto split: prod.splits)
  note c = as_insert_cases [OF "2.prems"(1) ins]
  have "as_ok s' \<and> run_map_ops (as_map s1) ops = (rs1, as_map s')"
    using "2.IH" [OF ins [symmetric] refl c(1) r] .
  then show ?case using c(3,4) rs by (simp add: Let_def)
next
  case (3 s k ops)
  obtain c s1 where e: "as_erase_key k s = (c, s1)" by (cases "as_erase_key k s")
  obtain rs1 where r: "run_set_ops s1 ops = (rs1, s')" and rs: "rs = (c = 1) # rs1"
    using "3.prems"(2) e by (auto split: prod.splits)
  have k: "as_ok s1" "as_map s1 = (as_map s)(k := None)" "c = (if as_map s k = None then 0 else 1)"
    using as_erase_key_ok [OF "3.prems"(1), of k] e by simp_all
  have "as_ok s' \<and> run_map_ops ((as_map s)(k := None)) ops = (rs1, as_map s')"
    using "3.IH" [OF e [symmetric] k(1) r] unfolding k(2) .
  then show ?case using k(3) rs by simp
next
  case (4 s ops)
  obtain rs1 where r: "run_set_ops (as_clear s) ops = (rs1, s')" and rs: "rs = True # rs1"
    using "4.prems"(2) by (auto split: prod.splits)
  from "4.IH" [OF _ r] as_clear_ok [OF "4.prems"(1)] show ?case using rs by simp
qed simp

text \<open>
  C10. An attribute set refines a finite map: after any sequence of insertions, erasures and clears of a
  well-formed set the hash table, its sorted buckets and its node pool are well-formed again, every
  operation reported what the map operation reports, and looking a key up gives the value the map holds.
\<close>

theorem attribute_set_refines_map:
  assumes "as_ok s" "run_set_ops s ops = (rs, s')"
  shows "as_ok s' \<and> run_map_ops (as_map s) ops = (rs, as_map s') \<and>
    map_option n_data (as_find key s') = as_map s' key"
  using run_set_ops_refines [OF assms] as_find_map(2) by blast

text \<open>
  Copying an attribute set gives a well-formed set with nodes of its own that holds the same
  attributes and iterates over them in the same order.
\<close>

theorem attribute_set_copy_equal:
  assumes "as_ok that"
  shows "as_ok (as_copy p that) \<and> as_map (as_copy p that) = as_map that \<and>
    map n_key (as_nodes (as_copy p that)) = map n_key (as_nodes that)"
  using as_copy_ok [OF assms] by blast

definition demo_set :: "string attribute_set" where
  "demo_set = snd (run_set_ops (as_empty 0) [Insert 17 ''b'', Insert 1 ''a'', Insert 2 ''c'', Insert 33 ''d''])"

lemma demo_set_ok: "as_ok demo_set"
  using run_set_ops_refines [OF as_empty_ok(1)] unfolding demo_set_def by (metis prod.collapse)

lemma demo_set_run:
  "fst (run_set_ops demo_set [Erase 17, Insert 1 ''x'', Insert 17 ''y'']) = [True, False, True]"
  "map n_key (as_nodes (snd (run_set_ops demo_set [Erase 17, Insert 1 ''x'', Insert 17 ''y'']))) = [1, 17, 33, 2]"
  by code_simp+

theorem attribute_set_refines_map_witness:
  "\<exists>s'. run_set_ops demo_set [Erase 17, Insert 1 ''x'', Insert 17 ''y''] = ([True, False, True], s') \<and>
     map n_key (as_nodes s') = [1, 17, 33, 2] \<and> as_ok s' \<and> map_option n_data (as_find 17 s') = as_map s' 17"
proof -
  obtain rs s' where r: "run_set_ops demo_set [Erase 17, Insert 1 ''x'', Insert 17 ''y''] = (rs, s')"
    by (metis surj_pair)
  from attribute_set_refines_map [OF demo_set_ok r] demo_set_run r show ?thesis by auto
qed

theorem attribute_set_copy_equal_witness:
  "as_ok (as_copy 100 demo_set) \<and> as_map (as_copy 100 demo_set) = as_map demo_set \<and>
    map n_key (as_nodes (as_copy 100 demo_set)) = map n_key (as_nodes demo_set)"
  by (rule attribute_set_copy_equal [OF demo_set_ok])
end
