(* ===== verification/Attribute_Value_Set.thy ===== *)
theory Attribute_Value_Set
  imports Attribute_Set
begin

text \<open>
  Attribute value sets (src/src/attribute_value_set.cpp): the values of one log record. A value set is
  created from the source, thread and global attribute sets and acquires a value from its attribute when it
  is first looked up, or from all of them when it is frozen. Nodes live in the storage that is allocated
  with the set, and on the heap when it is used up; the flag of a node tells how to dispose of it.
  Acquiring a value is a virtual call with effects of its own: \<open>gv a w\<close> is the value of the attribute \<open>a\<close> and
  the state of the world after the call.
\<close>

section \<open>Data\<close>

type_synonym ('a, 'v, 'w) get_value = "'a \<Rightarrow> 'w \<Rightarrow> 'v \<times> 'w"

type_synonym 'v value_node = "('v \<times> bool) node"

record ('a, 'v) attribute_value_set =
  vs_source :: "'a attribute_set option"
  vs_thread :: "'a attribute_set option"
  vs_global :: "'a attribute_set option"
  vs_nodes :: "'v value_node list"
  vs_end :: ptr
  vs_eos :: ptr
  vs_heap :: ptr
  vs_buckets :: "bucket list"

text \<open>\<open>vs_heap\<close> is the next address the heap hands out; the storage of the set ends at \<open>vs_eos\<close>.\<close>

definition vs_create ::
  "ptr \<Rightarrow> nat \<Rightarrow> 'a attribute_set option \<Rightarrow> 'a attribute_set option \<Rightarrow> 'a attribute_set option \<Rightarrow>
   ('a, 'v) attribute_value_set"
where
  "vs_create storage element_count src thr glob =
     \<lparr>vs_source = src, vs_thread = thr, vs_global = glob, vs_nodes = [], vs_end = storage,
      vs_eos = storage + element_count, vs_heap = storage + element_count,
      vs_buckets = replicate bucket_count empty_bucket\<rparr>"

section \<open>Inserting nodes\<close>

definition allocate_node :: "('a, 'v) attribute_value_set \<Rightarrow> ptr \<times> bool \<times> ('a, 'v) attribute_value_set" where
  "allocate_node s =
     (if vs_end s \<noteq> vs_eos s then (vs_end s, False, s\<lparr>vs_end := vs_end s + 1\<rparr>)
      else (vs_heap s, True, s\<lparr>vs_heap := vs_heap s + 1\<rparr>))"

definition insert_node ::
  "u32 \<Rightarrow> 'v value_node option \<Rightarrow> 'v \<Rightarrow> ('a, 'v) attribute_value_set \<Rightarrow>
   'v value_node \<times> ('a, 'v) attribute_value_set"
where
  "insert_node key p data s =
     (let (a, dynamic, s) = allocate_node s;
          n = Node a key (data, dynamic);
          (ns, b) = link_node n p (get_bucket (vs_buckets s) key) (vs_nodes s)
      in (n, s\<lparr>vs_nodes := ns, vs_buckets := set_bucket key b (vs_buckets s)\<rparr>))"

definition find_node :: "u32 \<Rightarrow> ('a, 'v) attribute_value_set \<Rightarrow> 'v value_node option" where
  "find_node key s = find_in_bucket key (get_bucket (vs_buckets s) key) (vs_nodes s)"

definition vs_insert ::
  "u32 \<Rightarrow> 'v \<Rightarrow> ('a, 'v) attribute_value_set \<Rightarrow> ('v value_node \<times> bool) \<times> ('a, 'v) attribute_value_set"
where
  "vs_insert key mapped s =
     (let p = find_node key s
      in if (case p of None \<Rightarrow> True | Some m \<Rightarrow> n_key m \<noteq> key)
         then (let (n, s) = insert_node key p mapped s in ((n, True), s))
         else ((the p, False), s))"

section \<open>Acquiring values\<close>

text \<open>A single value, from the first of the source, thread and global sets that has the attribute.\<close>

definition find_attribute :: "u32 \<Rightarrow> 'a attribute_set option \<Rightarrow> 'a option" where
  "find_attribute key s = (case s of None \<Rightarrow> None | Some s \<Rightarrow> map_option n_data (as_find key s))"

definition freeze_node ::
  "('a, 'v, 'w) get_value \<Rightarrow> u32 \<Rightarrow> 'v value_node option \<Rightarrow> ('a, 'v) attribute_value_set \<Rightarrow> 'w \<Rightarrow>
   'v value_node option \<times> ('a, 'v) attribute_value_set \<times> 'w"
where
  "freeze_node gv key p s w =
     (case find_attribute key (vs_source s) of
        Some a \<Rightarrow> (let (v, w) = gv a w; (n, s) = insert_node key p v s in (Some n, s, w))
      | None \<Rightarrow>
          (case find_attribute key (vs_thread s) of
             Some a \<Rightarrow> (let (v, w) = gv a w; (n, s) = insert_node key p v s in (Some n, s, w))
           | None \<Rightarrow>
               (case find_attribute key (vs_global s) of
                  Some a \<Rightarrow> (let (v, w) = gv a w; (n, s) = insert_node key p v s in (Some n, s, w))
                | None \<Rightarrow> (None, s, w))))"

definition vs_find ::
  "('a, 'v, 'w) get_value \<Rightarrow> u32 \<Rightarrow> ('a, 'v) attribute_value_set \<Rightarrow> 'w \<Rightarrow>
   'v value_node option \<times> ('a, 'v) attribute_value_set \<times> 'w"
where
  "vs_find gv key s w =
     (let p = find_node key s
      in if (case p of None \<Rightarrow> False | Some m \<Rightarrow> n_key m = key) then (p, s, w)
         else freeze_node gv key p s w)"

text \<open>All values of one attribute set, in the order of its nodes.\<close>

definition freeze_from_node ::
  "('a, 'v, 'w) get_value \<Rightarrow> 'a node \<Rightarrow> ('a, 'v) attribute_value_set \<times> 'w \<Rightarrow> ('a, 'v) attribute_value_set \<times> 'w"
where
  "freeze_from_node gv m sw =
     (let (s, w) = sw;
          key = n_key m;
          p = find_node key s
      in if (case p of None \<Rightarrow> False | Some n \<Rightarrow> n_key n = key) then (s, w)
         else (let (v, w) = gv (n_data m) w in (snd (insert_node key p v s), w)))"

definition freeze_nodes_from ::
  "('a, 'v, 'w) get_value \<Rightarrow> 'a attribute_set \<Rightarrow> ('a, 'v) attribute_value_set \<times> 'w \<Rightarrow>
   ('a, 'v) attribute_value_set \<times> 'w"
where
  "freeze_nodes_from gv attrs sw = fold (freeze_from_node gv) (as_nodes attrs) sw"

definition freeze_optional ::
  "('a, 'v, 'w) get_value \<Rightarrow> 'a attribute_set option \<Rightarrow> ('a, 'v) attribute_value_set \<times> 'w \<Rightarrow>
   ('a, 'v) attribute_value_set \<times> 'w"
where
  "freeze_optional gv attrs sw = (case attrs of None \<Rightarrow> sw | Some a \<Rightarrow> freeze_nodes_from gv a sw)"

definition vs_freeze ::
  "('a, 'v, 'w) get_value \<Rightarrow> ('a, 'v) attribute_value_set \<Rightarrow> 'w \<Rightarrow> ('a, 'v) attribute_value_set \<times> 'w"
where
  "vs_freeze gv s w =
     (let (s, w) = freeze_optional gv (vs_source s) (s, w);
          s = s\<lparr>vs_source := None\<rparr>;
          (s, w) = freeze_optional gv (vs_thread s) (s, w);
          s = s\<lparr>vs_thread := None\<rparr>;
          (s, w) = freeze_optional gv (vs_global s) (s, w)
      in (s\<lparr>vs_global := None\<rparr>, w))"

definition vs_size ::
  "('a, 'v, 'w) get_value \<Rightarrow> ('a, 'v) attribute_value_set \<Rightarrow> 'w \<Rightarrow> nat \<times> ('a, 'v) attribute_value_set \<times> 'w"
where
  "vs_size gv s w = (let (s, w) = vs_freeze gv s w in (length (vs_nodes s), s, w))"

section \<open>Copying and construction\<close>

definition copy_value_node ::
  "'v value_node \<Rightarrow> ('a, 'v) attribute_value_set \<Rightarrow> ('a, 'v) attribute_value_set"
where
  "copy_value_node m s =
     (let n = Node (vs_end s) (n_key m) (fst (n_data m), False);
          (ns, bs) = append_node n (vs_nodes s) (vs_buckets s)
      in s\<lparr>vs_end := vs_end s + 1, vs_nodes := ns, vs_buckets := bs\<rparr>)"

definition copy_nodes_from ::
  "('a, 'v) attribute_value_set \<Rightarrow> ('a, 'v) attribute_value_set \<Rightarrow> ('a, 'v) attribute_value_set"
where
  "copy_nodes_from from s = fold copy_value_node (vs_nodes from) s"

text \<open>The constructors: empty, from three attribute sets, from a value set that is copied or moved.\<close>

definition vs_empty :: "ptr \<Rightarrow> nat \<Rightarrow> ('a, 'v) attribute_value_set" where
  "vs_empty storage reserve_count = vs_create storage reserve_count None None None"

definition vs_from_sets ::
  "ptr \<Rightarrow> 'a attribute_set \<Rightarrow> 'a attribute_set \<Rightarrow> 'a attribute_set \<Rightarrow> nat \<Rightarrow> ('a, 'v) attribute_value_set"
where
  "vs_from_sets storage src thr glob reserve_count =
     vs_create storage (as_size src + as_size thr + as_size glob + reserve_count)
       (Some src) (Some thr) (Some glob)"

definition vs_from_values ::
  "('a, 'v, 'w) get_value \<Rightarrow> ptr \<Rightarrow> ('a, 'v) attribute_value_set \<Rightarrow> 'a attribute_set \<Rightarrow> 'a attribute_set \<Rightarrow> nat \<Rightarrow> 'w \<Rightarrow>
   ('a, 'v) attribute_value_set \<times> ('a, 'v) attribute_value_set \<times> 'w"
where
  "vs_from_values gv storage src thr glob reserve_count w =
     (let (n, src, w) = vs_size gv src w;
          s = vs_create storage (n + as_size thr + as_size glob + reserve_count) None (Some thr) (Some glob)
      in (copy_nodes_from src s, src, w))"

definition vs_adopt ::
  "('a, 'v) attribute_value_set \<Rightarrow> 'a attribute_set \<Rightarrow> 'a attribute_set \<Rightarrow> ('a, 'v) attribute_value_set"
where
  "vs_adopt src thr glob = src\<lparr>vs_thread := Some thr, vs_global := Some glob\<rparr>"

definition vs_copy ::
  "('a, 'v, 'w) get_value \<Rightarrow> ptr \<Rightarrow> ('a, 'v) attribute_value_set \<Rightarrow> 'w \<Rightarrow>
   ('a, 'v) attribute_value_set \<times> ('a, 'v) attribute_value_set \<times> 'w"
where
  "vs_copy gv storage that w =
     (let (n, that, w) = vs_size gv that w
      in (copy_nodes_from that (vs_create storage n None None None), that, w))"

end
