(* ===== verification/Attribute_Values.thy ===== *)
theory Attribute_Values
  imports Attribute_Set_Refinement Attribute_Value_Set
begin

text \<open>
  Correctness of attribute value sets. Acquiring the value of an attribute is an arbitrary function of the
  attribute and the world, so a value may depend on when it is acquired and acquiring it may change the world.
  \<open>stands_for att s\<close> says that the set has, for every name of \<open>att\<close>, either a value or the attribute to acquire it
  from; looking a name up and freezing the set take steps of \<open>acquire_step\<close>, each of which acquires the value of
  a name that has none yet.
\<close>

section \<open>Invariant\<close>

definition placed_ok :: "('a, 'v) attribute_value_set \<Rightarrow> 'v value_node \<Rightarrow> bool" where
  "placed_ok s n \<longleftrightarrow>
     (if snd (n_data n) then vs_eos s \<le> n_ptr n \<and> n_ptr n < vs_heap s else n_ptr n < vs_end s)"

definition sets_ok :: "('a, 'v) attribute_value_set \<Rightarrow> bool" where
  "sets_ok s \<longleftrightarrow> pred_option as_ok (vs_source s) \<and> pred_option as_ok (vs_thread s) \<and> pred_option as_ok (vs_global s)"

definition vs_ok :: "('a, 'v) attribute_value_set \<Rightarrow> bool" where
  "vs_ok s \<longleftrightarrow> table_ok (vs_nodes s) (vs_buckets s) \<and> vs_end s \<le> vs_eos s \<and> vs_eos s \<le> vs_heap s \<and>
     (\<forall>n \<in> set (vs_nodes s). placed_ok s n) \<and> sets_ok s"

definition vs_map :: "('a, 'v) attribute_value_set \<Rightarrow> u32 \<Rightarrow> 'v option" where
  "vs_map s = map_option fst \<circ> table_map (vs_nodes s)"

definition attached :: "'a attribute_set option \<Rightarrow> u32 \<Rightarrow> 'a option" where
  "attached s = (case s of None \<Rightarrow> Map.empty | Some s \<Rightarrow> as_map s)"

definition all_attached :: "('a, 'v) attribute_value_set \<Rightarrow> u32 \<Rightarrow> 'a option" where
  "all_attached s = attached (vs_global s) ++ attached (vs_thread s) ++ attached (vs_source s)"

definition stands_for :: "(u32 \<Rightarrow> 'a option) \<Rightarrow> ('a, 'v) attribute_value_set \<Rightarrow> bool" where
  "stands_for att s \<longleftrightarrow> vs_ok s \<and> dom (vs_map s) \<subseteq> dom att \<and> (\<forall>k. vs_map s k = None \<longrightarrow> all_attached s k = att k)"

inductive acquire_step ::
  "('a, 'v, 'w) get_value \<Rightarrow> (u32 \<Rightarrow> 'a option) \<Rightarrow> (u32 \<Rightarrow> 'v option) \<times> 'w \<Rightarrow> (u32 \<Rightarrow> 'v option) \<times> 'w \<Rightarrow> bool"
  for gv :: "('a, 'v, 'w) get_value" and att :: "u32 \<Rightarrow> 'a option"
where
  acquire: "V k = None \<Longrightarrow> att k = Some a \<Longrightarrow> gv a w = (v, w') \<Longrightarrow> acquire_step gv att (V, w) (V(k \<mapsto> v), w')"

abbreviation acquires ::
  "('a, 'v, 'w) get_value \<Rightarrow> (u32 \<Rightarrow> 'a option) \<Rightarrow> (u32 \<Rightarrow> 'v option) \<times> 'w \<Rightarrow> (u32 \<Rightarrow> 'v option) \<times> 'w \<Rightarrow> bool"
where
  "acquires gv att \<equiv> (acquire_step gv att)\<^sup>*\<^sup>*"

lemma acquire_step_map_le: "acquire_step gv att vw vw' \<Longrightarrow> fst vw \<subseteq>\<^sub>m fst vw'"
  by (auto simp: map_le_def domIff elim!: acquire_step.cases)

lemma acquires_map_le: "acquires gv att vw vw' \<Longrightarrow> fst vw \<subseteq>\<^sub>m fst vw'"
  by (induction rule: rtranclp_induct) (auto dest: acquire_step_map_le intro: map_le_trans)

text \<open>Every value of \<open>V\<close> was acquired, at some moment, from the attribute that \<open>att\<close> has under its name.\<close>

definition acquired_from :: "('a, 'v, 'w) get_value \<Rightarrow> (u32 \<Rightarrow> 'a option) \<Rightarrow> (u32 \<Rightarrow> 'v option) \<Rightarrow> bool" where
  "acquired_from gv att V \<longleftrightarrow> (\<forall>k v. V k = Some v \<longrightarrow> (\<exists>a w. att k = Some a \<and> v = fst (gv a w)))"

lemma acquires_from: "acquires gv att vw vw' \<Longrightarrow> acquired_from gv att (fst vw) \<Longrightarrow> acquired_from gv att (fst vw')"
proof (induction rule: rtranclp_induct)
  case (step y z)
  from step.hyps(2) obtain V k a w v w' where s: "y = (V, w)" "z = (V(k \<mapsto> v), w')" "att k = Some a" "gv a w = (v, w')"
    by (cases rule: acquire_step.cases) blast
  have "v = fst (gv a w)" using s(4) by simp
  then show ?case using step.IH [OF step.prems] s(1-3) by (auto simp: acquired_from_def)
qed

lemma find_attribute_attached:
  "pred_option as_ok s \<Longrightarrow> find_attribute key s = attached s key"
  by (cases s) (simp_all add: find_attribute_def attached_def as_find_map(2))

lemma find_node_cases:
  assumes "vs_ok s"
  shows "find_node key s = None \<Longrightarrow> key \<notin> n_key ` set (vs_nodes s)"
    and "find_node key s = Some p \<Longrightarrow> p \<in> set (vs_nodes s)"
    and "find_node key s = Some p \<Longrightarrow> n_key p \<noteq> key \<Longrightarrow> key \<notin> n_key ` set (vs_nodes s)"
proof -
  have t: "table_ok (vs_nodes s) (vs_buckets s)" using assms by (simp add: vs_ok_def)
  show "find_node key s = None \<Longrightarrow> key \<notin> n_key ` set (vs_nodes s)"
    and "find_node key s = Some p \<Longrightarrow> p \<in> set (vs_nodes s)"
    and "find_node key s = Some p \<Longrightarrow> n_key p \<noteq> key \<Longrightarrow> key \<notin> n_key ` set (vs_nodes s)"
    unfolding find_node_def
    using find_in_bucket_None [OF t] find_in_bucket_Some [OF t] by blast+
qed

abbreviation node_found :: "u32 \<Rightarrow> 'd node option \<Rightarrow> bool" where
  "node_found key p \<equiv> (case p of None \<Rightarrow> False | Some m \<Rightarrow> n_key m = key)"

lemma find_node_found:
  assumes "vs_ok s"
  shows "node_found key (find_node key s) \<longleftrightarrow> vs_map s key \<noteq> None"
    and "node_found key (find_node key s) \<longleftrightarrow> key \<in> n_key ` set (vs_nodes s)"
proof -
  show "node_found key (find_node key s) \<longleftrightarrow> key \<in> n_key ` set (vs_nodes s)"
    using find_node_cases [OF assms, of key] by (cases "find_node key s") auto
  moreover have "vs_map s key = None \<longleftrightarrow> key \<notin> n_key ` set (vs_nodes s)"
    using table_map_None [of "vs_nodes s" key] by (simp add: vs_map_def)
  ultimately show "node_found key (find_node key s) \<longleftrightarrow> vs_map s key \<noteq> None" by argo
qed

lemma vs_map_node:
  assumes "vs_ok s" "n \<in> set (vs_nodes s)"
  shows "vs_map s (n_key n) = Some (fst (n_data n))"
proof -
  have t: "table_ok (vs_nodes s) (vs_buckets s)" using assms(1) by (simp add: vs_ok_def)
  have "table_map (vs_nodes s) (n_key n) = Some (n_data n)"
    using table_map_iff [OF table_keys [OF t]] assms(2) by blast
  then show ?thesis by (simp add: vs_map_def)
qed

lemma allocate_node_ok:
  assumes "vs_ok s" "allocate_node s = (a, dyn, s1)"
  shows "a \<notin> n_ptr ` set (vs_nodes s)" "vs_end s1 \<le> vs_eos s1" "vs_eos s1 \<le> vs_heap s1"
    "placed_ok s n \<Longrightarrow> placed_ok s1 n" "placed_ok s1 (Node a k (v, dyn))"
    "vs_nodes s1 = vs_nodes s" "vs_buckets s1 = vs_buckets s"
    "vs_source s1 = vs_source s" "vs_thread s1 = vs_thread s" "vs_global s1 = vs_global s"
  using assms
  by (auto simp: allocate_node_def vs_ok_def placed_ok_def split: if_splits)

lemma insert_node_ok:
  assumes ok: "vs_ok s" and new: "key \<notin> n_key ` set (vs_nodes s)"
    and ins: "insert_node key (find_node key s) v s = (n, s')"
  shows "vs_ok s'" and "vs_map s' = (vs_map s)(key \<mapsto> v)"
    and "n \<in> set (vs_nodes s') \<and> n_key n = key \<and> fst (n_data n) = v"
    and "vs_source s' = vs_source s" "vs_thread s' = vs_thread s" "vs_global s' = vs_global s"
    and "set (vs_nodes s') = insert n (set (vs_nodes s))"
proof -
  obtain a dyn s1 where al: "allocate_node s = (a, dyn, s1)" by (metis prod_cases3)
  note A = allocate_node_ok [OF ok al]
  let ?n = "Node a key (v, dyn)"
  obtain ns b where l: "link_node ?n (find_node key s) (get_bucket (vs_buckets s) key) (vs_nodes s) = (ns, b)"
    by (metis surj_pair)
  have r: "n = ?n" "s' = s1\<lparr>vs_nodes := ns, vs_buckets := set_bucket key b (vs_buckets s)\<rparr>"
    using ins al l A(6,7) by (simp_all add: insert_node_def)
  have t: "table_ok (vs_nodes s) (vs_buckets s)" using ok by (simp add: vs_ok_def)
  note lk = link_node_ok [OF t refl find_node_def new _ _ l]
  have t': "table_ok ns (set_bucket key b (vs_buckets s))" and set: "set ns = insert n (set (vs_nodes s))"
    using lk A(1) r(1) by simp_all
  have pl: "placed_ok s' m = placed_ok s1 m" for m by (simp add: placed_ok_def r(2))
  have "\<forall>m \<in> set ns. placed_ok s' m"
    using set A(4,5) ok r(1) unfolding pl by (auto simp: vs_ok_def)
  moreover have "sets_ok s'" using ok A(8-10) by (simp add: vs_ok_def sets_ok_def r(2))
  ultimately show "vs_ok s'" using t' A(2,3) by (simp add: vs_ok_def r(2))
  have "table_map ns = (table_map (vs_nodes s))(key \<mapsto> (v, dyn))"
    using table_map_insert [OF table_keys [OF t] table_keys [OF t'] set] r(1) new by simp
  then show "vs_map s' = (vs_map s)(key \<mapsto> v)" by (auto simp: vs_map_def r(2))
  show "n \<in> set (vs_nodes s') \<and> n_key n = key \<and> fst (n_data n) = v" using set r by simp
  show "vs_source s' = vs_source s" "vs_thread s' = vs_thread s" "vs_global s' = vs_global s"
    using A(8-10) by (simp_all add: r(2))
  show "set (vs_nodes s') = insert n (set (vs_nodes s))" using set by (simp add: r(2))
qed

interpretation vset: unique_map vs_ok vs_map "\<lambda>k v s. snd (vs_insert k v s)"
proof
  fix s :: "('a, 'b) attribute_value_set" and k v
  assume ok: "vs_ok s"
  have ne: "(case find_node k s of None \<Rightarrow> True | Some m \<Rightarrow> n_key m \<noteq> k) \<longleftrightarrow> \<not> node_found k (find_node k s)"
    by (simp split: option.split)
  obtain n s' where i: "insert_node k (find_node k s) v s = (n, s')" by (metis surj_pair)
  have "vs_ok (snd (vs_insert k v s)) \<and>
      vs_map (snd (vs_insert k v s)) = (case vs_map s k of None \<Rightarrow> (vs_map s)(k \<mapsto> v) | Some _ \<Rightarrow> vs_map s)"
  proof (cases "node_found k (find_node k s)")
    case True
    then have "vs_map s k \<noteq> None" using find_node_found(1) [OF ok] by blast
    then show ?thesis using True ok by (auto simp: vs_insert_def Let_def ne)
  next
    case False
    then have "vs_map s k = None" "k \<notin> n_key ` set (vs_nodes s)" using find_node_found [OF ok] by blast+
    then show ?thesis using insert_node_ok(1,2) [OF ok _ i] False i by (simp add: vs_insert_def Let_def ne)
  qed
  then show "vs_ok (snd (vs_insert k v s))"
    and "vs_map (snd (vs_insert k v s)) = (case vs_map s k of None \<Rightarrow> (vs_map s)(k \<mapsto> v) | Some _ \<Rightarrow> vs_map s)"
    by blast+
qed

section \<open>Acquiring values\<close>

lemma vs_insert_sets:
  "vs_source (snd (vs_insert k v s)) = vs_source s" "vs_thread (snd (vs_insert k v s)) = vs_thread s"
  "vs_global (snd (vs_insert k v s)) = vs_global s"
  by (auto simp: vs_insert_def insert_node_def allocate_node_def Let_def split: prod.splits)

lemma acquires_insert:
  assumes "V k = None" "att k = Some a" "gv a w = (v, w')"
  shows "acquires gv att (V, w) (V(k \<mapsto> v), w')"
  by (rule r_into_rtranclp, rule acquire) (use assms in auto)

lemma freeze_from_node_acquires:
  assumes ok: "vs_ok s" and att: "vs_map s (n_key m) = None \<longrightarrow> att (n_key m) = Some (n_data m)"
    and fr: "freeze_from_node gv m (s, w) = (s', w')"
  shows "vs_ok s' \<and> acquires gv att (vs_map s, w) (vs_map s', w') \<and>
    dom (vs_map s') = insert (n_key m) (dom (vs_map s)) \<and>
    vs_source s' = vs_source s \<and> vs_thread s' = vs_thread s \<and> vs_global s' = vs_global s"
proof (cases "node_found (n_key m) (find_node (n_key m) s)")
  case True
  then have "s' = s" "w' = w" "n_key m \<in> dom (vs_map s)"
    using fr find_node_found(1) [OF ok] by (auto simp: freeze_from_node_def)
  then show ?thesis using ok by auto
next
  case False
  then have none: "vs_map s (n_key m) = None" using find_node_found(1) [OF ok] by blast
  obtain v w1 where gv: "gv (n_data m) w = (v, w1)" by (metis surj_pair)
  have r: "s' = snd (vs_insert (n_key m) v s)" "w' = w1"
    using fr False gv
    by (cases "find_node (n_key m) s"; auto simp: freeze_from_node_def vs_insert_def Let_def split: prod.splits)+
  have m: "vs_map s' = (vs_map s)(n_key m \<mapsto> v)" unfolding r(1) vset.get_add [OF ok] using none by simp
  have "acquires gv att (vs_map s, w) (vs_map s', w1)"
    unfolding m using acquires_insert none att gv by metis
  then show ?thesis using m vset.add_ok [OF ok] vs_insert_sets unfolding r by auto
qed

lemma freeze_fold_acquires:
  assumes "vs_ok s" "\<And>m. m \<in> set ms \<Longrightarrow> vs_map s (n_key m) = None \<Longrightarrow> att (n_key m) = Some (n_data m)"
    and "fold (freeze_from_node gv) ms (s, w) = (s', w')"
  shows "vs_ok s' \<and> acquires gv att (vs_map s, w) (vs_map s', w') \<and>
    dom (vs_map s') = dom (vs_map s) \<union> n_key ` set ms \<and>
    vs_source s' = vs_source s \<and> vs_thread s' = vs_thread s \<and> vs_global s' = vs_global s"
  using assms
proof (induction ms arbitrary: s w)
  case (Cons m ms)
  obtain s1 w1 where s1: "freeze_from_node gv m (s, w) = (s1, w1)" by (metis surj_pair)
  have "vs_map s (n_key m) = None \<longrightarrow> att (n_key m) = Some (n_data m)" using Cons.prems(2) by simp
  note f = freeze_from_node_acquires [where att = att, OF Cons.prems(1) this s1]
  have "att (n_key m') = Some (n_data m')" if "m' \<in> set ms" "vs_map s1 (n_key m') = None" for m'
    using Cons.prems(2) that f by (metis domIff insertCI list.set_intros(2))
  then have "vs_ok s' \<and> acquires gv att (vs_map s1, w1) (vs_map s', w') \<and>
    dom (vs_map s') = dom (vs_map s1) \<union> n_key ` set ms \<and>
    vs_source s' = vs_source s1 \<and> vs_thread s' = vs_thread s1 \<and> vs_global s' = vs_global s1"
    using Cons.IH [of s1 w1] f Cons.prems(3) s1 by simp
  then show ?case using f by (auto elim: rtranclp_trans)
qed simp

lemma freeze_optional_acquires:
  assumes st: "stands_for att s" and as: "pred_option as_ok attrs"
    and first: "\<And>k a. attached attrs k = Some a \<Longrightarrow> all_attached s k = Some a"
    and fr: "freeze_optional gv attrs (s, w) = (s', w')"
  shows "stands_for att s'" and "acquires gv att (vs_map s, w) (vs_map s', w')"
    and "dom (attached attrs) \<subseteq> dom (vs_map s')"
    and "vs_source s' = vs_source s" "vs_thread s' = vs_thread s" "vs_global s' = vs_global s"
proof -
  let ?ms = "case attrs of None \<Rightarrow> [] | Some a \<Rightarrow> as_nodes a"
  have fold: "fold (freeze_from_node gv) ?ms (s, w) = (s', w')"
    using fr by (cases attrs) (simp_all add: freeze_optional_def freeze_nodes_from_def)
  have ok: "vs_ok s" using st by (simp add: stands_for_def)
  have node: "attached attrs (n_key m) = Some (n_data m)" if m: "m \<in> set ?ms" for m
  proof -
    obtain a where a: "attrs = Some a" "m \<in> set (as_nodes a)" using m by (cases attrs) auto
    then have "distinct (map n_key (as_nodes a))" using as table_keys by (auto simp: as_ok_def)
    from table_map_iff [OF this] a show ?thesis by (auto simp: attached_def as_map_def)
  qed
  then have "att (n_key m) = Some (n_data m)" if "m \<in> set ?ms" "vs_map s (n_key m) = None" for m
    using first that st by (metis stands_for_def)
  note f = freeze_fold_acquires [OF ok this fold]
  have keys: "n_key ` set ?ms = dom (attached attrs)"
    by (cases attrs) (auto simp: attached_def as_map_def dom_def table_map_None)
  then show "dom (attached attrs) \<subseteq> dom (vs_map s')" using f by blast
  show sets: "vs_source s' = vs_source s" "vs_thread s' = vs_thread s" "vs_global s' = vs_global s"
    and acq: "acquires gv att (vs_map s, w) (vs_map s', w')" using f by blast+
  have "k \<in> dom att" if "k \<in> dom (attached attrs)" for k
    using that first st unfolding stands_for_def by (metis domD domI domIff subsetD)
  moreover have "vs_map s' k = None \<Longrightarrow> vs_map s k = None" for k using f by (auto simp: domIff)
  ultimately show "stands_for att s'"
    using f keys st sets by (auto simp: stands_for_def all_attached_def)
qed

lemma vs_map_update [simp]:
  "vs_map (s\<lparr>vs_source := a\<rparr>) = vs_map s" "vs_map (s\<lparr>vs_thread := a\<rparr>) = vs_map s"
  "vs_map (s\<lparr>vs_global := a\<rparr>) = vs_map s"
  by (simp_all add: vs_map_def)

lemma vs_ok_detach:
  "vs_ok s \<Longrightarrow> vs_ok (s\<lparr>vs_source := None\<rparr>)" "vs_ok s \<Longrightarrow> vs_ok (s\<lparr>vs_thread := None\<rparr>)"
  "vs_ok s \<Longrightarrow> vs_ok (s\<lparr>vs_global := None\<rparr>)"
  by (simp_all add: vs_ok_def sets_ok_def placed_ok_def)

lemma stands_for_detach:
  assumes "stands_for att s"
  shows "dom (attached (vs_source s)) \<subseteq> dom (vs_map s) \<Longrightarrow> stands_for att (s\<lparr>vs_source := None\<rparr>)"
    and "dom (attached (vs_thread s)) \<subseteq> dom (vs_map s) \<Longrightarrow> stands_for att (s\<lparr>vs_thread := None\<rparr>)"
    and "dom (attached (vs_global s)) \<subseteq> dom (vs_map s) \<Longrightarrow> stands_for att (s\<lparr>vs_global := None\<rparr>)"
proof -
  have none: "attached (None :: 'a attribute_set option) = Map.empty" by (simp add: attached_def fun_eq_iff)
  have ok: "vs_ok s" "dom (vs_map s) \<subseteq> dom att" and a: "vs_map s k = None \<Longrightarrow> all_attached s k = att k" for k
    using assms by (simp_all add: stands_for_def)
  have same: "attached (vs_source s) k = None \<Longrightarrow> all_attached (s\<lparr>vs_source := None\<rparr>) k = all_attached s k"
    "attached (vs_thread s) k = None \<Longrightarrow> all_attached (s\<lparr>vs_thread := None\<rparr>) k = all_attached s k"
    "attached (vs_global s) k = None \<Longrightarrow> all_attached (s\<lparr>vs_global := None\<rparr>) k = all_attached s k" for k
    by (simp_all add: all_attached_def none map_add_def split: option.split)
  show "dom (attached (vs_source s)) \<subseteq> dom (vs_map s) \<Longrightarrow> stands_for att (s\<lparr>vs_source := None\<rparr>)"
    unfolding stands_for_def vs_map_update using ok vs_ok_detach(1) a same(1) by (metis domIff subsetD)
  show "dom (attached (vs_thread s)) \<subseteq> dom (vs_map s) \<Longrightarrow> stands_for att (s\<lparr>vs_thread := None\<rparr>)"
    unfolding stands_for_def vs_map_update using ok vs_ok_detach(2) a same(2) by (metis domIff subsetD)
  show "dom (attached (vs_global s)) \<subseteq> dom (vs_map s) \<Longrightarrow> stands_for att (s\<lparr>vs_global := None\<rparr>)"
    unfolding stands_for_def vs_map_update using ok vs_ok_detach(3) a same(3) by (metis domIff subsetD)
qed

lemma stands_for_sets:
  assumes "stands_for att s"
  shows "pred_option as_ok (vs_source s)" "pred_option as_ok (vs_thread s)" "pred_option as_ok (vs_global s)"
  using assms by (simp_all add: stands_for_def vs_ok_def sets_ok_def)

lemma vs_freeze_acquires:
  assumes st: "stands_for att s" and fr: "vs_freeze gv s w = (s', w')"
  shows "stands_for att s'" and "acquires gv att (vs_map s, w) (vs_map s', w')" and "dom (vs_map s') = dom att"
proof -
  obtain s1 w1 where 1: "freeze_optional gv (vs_source s) (s, w) = (s1, w1)" by (metis surj_pair)
  have p1: "attached (vs_source s) k = Some a \<Longrightarrow> all_attached s k = Some a" for k a
    by (simp add: all_attached_def)
  note f1 = freeze_optional_acquires [OF st stands_for_sets(1) [OF st] p1 1]
  let ?s1 = "s1\<lparr>vs_source := None\<rparr>"
  have st1: "stands_for att ?s1" using stands_for_detach(1) [OF f1(1)] f1(3,4) by simp
  obtain s2 w2 where 2: "freeze_optional gv (vs_thread ?s1) (?s1, w1) = (s2, w2)" by (metis surj_pair)
  have p2: "attached (vs_thread ?s1) k = Some a \<Longrightarrow> all_attached ?s1 k = Some a" for k a
    by (simp add: all_attached_def) (simp add: attached_def)
  note f2 = freeze_optional_acquires [OF st1 stands_for_sets(2) [OF st1] p2 2]
  let ?s2 = "s2\<lparr>vs_thread := None\<rparr>"
  have st2: "stands_for att ?s2" using stands_for_detach(2) [OF f2(1)] f2(3,5) by simp
  obtain s3 w3 where 3: "freeze_optional gv (vs_global ?s2) (?s2, w2) = (s3, w3)" by (metis surj_pair)
  have src: "vs_source ?s2 = None" using f2(4) by simp
  have p3: "attached (vs_global ?s2) k = Some a \<Longrightarrow> all_attached ?s2 k = Some a" for k a
    unfolding all_attached_def src by (simp add: attached_def)
  note f3 = freeze_optional_acquires [OF st2 stands_for_sets(3) [OF st2] p3 3]
  have s': "s' = s3\<lparr>vs_global := None\<rparr>" "w' = w3" using fr 1 2 3 by (simp_all add: vs_freeze_def)
  show st': "stands_for att s'" unfolding s' using stands_for_detach(3) [OF f3(1)] f3(3,6) by simp
  show "acquires gv att (vs_map s, w) (vs_map s', w')"
    using rtranclp_trans [OF f1(2) rtranclp_trans [OF f2(2) [unfolded vs_map_update]]] f3(2) s' by simp
  have "all_attached s' k = None" for k
    using f3(4,5) f2(4) by (simp add: s' all_attached_def attached_def)
  then show "dom (vs_map s') = dom att" using st' by (simp add: stands_for_def) (metis domIff subsetI subset_antisym)
qed

lemma freeze_node_attached:
  assumes "stands_for att s" "vs_map s key = None"
  shows "freeze_node gv key p s w =
    (case att key of
       None \<Rightarrow> (None, s, w)
     | Some a \<Rightarrow> (let (v, w) = gv a w; (n, s) = insert_node key p v s in (Some n, s, w)))"
proof -
  have "att key = all_attached s key" using assms by (simp add: stands_for_def)
  then show ?thesis
    using stands_for_sets [OF assms(1)]
    by (simp add: freeze_node_def find_attribute_attached all_attached_def map_add_def split: option.splits)
qed

lemma vs_find_acquires:
  assumes st: "stands_for att s" and fd: "vs_find gv key s w = (r, s', w')"
  shows "stands_for att s'" and "acquires gv att (vs_map s, w) (vs_map s', w')"
    and "map_option (fst \<circ> n_data) r = vs_map s' key" and "vs_map s' key = None \<longleftrightarrow> att key = None"
proof -
  have ok: "vs_ok s" using st by (simp add: stands_for_def)
  have "stands_for att s' \<and> acquires gv att (vs_map s, w) (vs_map s', w') \<and>
    map_option (fst \<circ> n_data) r = vs_map s' key \<and> (vs_map s' key = None \<longleftrightarrow> att key = None)"
  proof (cases "node_found key (find_node key s)")
    case True
    then obtain m where m: "find_node key s = Some m" "n_key m = key" by (auto split: option.splits)
    then have v: "vs_map s key = Some (fst (n_data m))"
      using vs_map_node [OF ok find_node_cases(2) [OF ok m(1)]] by simp
    moreover have "r = Some m" "s' = s" "w' = w" using fd True m by (simp_all add: vs_find_def)
    moreover have "att key \<noteq> None" using v st by (auto simp: stands_for_def)
    ultimately show ?thesis using st by simp
  next
    case False
    then have new: "key \<notin> n_key ` set (vs_nodes s)" and none: "vs_map s key = None"
      using find_node_found [OF ok] by blast+
    have fz: "freeze_node gv key (find_node key s) s w = (r, s', w')"
      using fd False by (simp add: vs_find_def Let_def)
    show ?thesis
    proof (cases "att key")
      case None
      then show ?thesis using fz freeze_node_attached [OF st none, of gv "find_node key s" w] none st by auto
    next
      case (Some a)
      obtain v w1 where gv: "gv a w = (v, w1)" by (metis surj_pair)
      obtain n s1 where i: "insert_node key (find_node key s) v s = (n, s1)" by (metis surj_pair)
      have r: "r = Some n" "s' = s1" "w' = w1"
        using fz freeze_node_attached [OF st none, of gv "find_node key s" w] Some gv i by auto
      note I = insert_node_ok [OF ok new i]
      have "acquires gv att (vs_map s, w) (vs_map s1, w1)" unfolding I(2) using acquires_insert none Some gv by metis
      moreover have "stands_for att s1" using st I Some by (auto simp: stands_for_def all_attached_def)
      ultimately show ?thesis using I(2,3) r Some by auto
    qed
  qed
  then show "stands_for att s'" and "acquires gv att (vs_map s, w) (vs_map s', w')"
    and "map_option (fst \<circ> n_data) r = vs_map s' key" and "vs_map s' key = None \<longleftrightarrow> att key = None"
    by blast+
qed

section \<open>Storage\<close>

definition in_storage :: "ptr \<Rightarrow> nat \<Rightarrow> u32 set \<Rightarrow> ('a, 'v) attribute_value_set \<Rightarrow> bool" where
  "in_storage base cnt K s \<longleftrightarrow> vs_ok s \<and> vs_end s = base + length (vs_nodes s) \<and> vs_eos s = base + cnt \<and>
     (\<forall>n \<in> set (vs_nodes s). \<not> snd (n_data n)) \<and> n_key ` set (vs_nodes s) \<subseteq> K"

lemma table_length: "table_ok ns bs \<Longrightarrow> length ns = card (n_key ` set ns)"
  using table_keys distinct_card by (metis length_map set_map)

lemma insert_node_in_storage:
  assumes st: "in_storage base cnt K s" and K: "finite K" "card K \<le> cnt" "key \<in> K"
    and new: "key \<notin> n_key ` set (vs_nodes s)"
    and ins: "insert_node key (find_node key s) v s = (n, s')"
  shows "in_storage base cnt K s'" and "length (vs_nodes s') = Suc (length (vs_nodes s))"
proof -
  have ok: "vs_ok s" using st by (simp add: in_storage_def)
  note i = insert_node_ok [OF ok new ins]
  have t: "table_ok (vs_nodes s) (vs_buckets s)" and t': "table_ok (vs_nodes s') (vs_buckets s')"
    using ok i(1) by (simp_all add: vs_ok_def)
  have keys: "n_key ` set (vs_nodes s') = insert key (n_key ` set (vs_nodes s))" using i(3,7) by auto
  then show len: "length (vs_nodes s') = Suc (length (vs_nodes s))"
    using table_length [OF t] table_length [OF t'] new by simp
  have "n_key ` set (vs_nodes s) \<subset> K" using st K(3) new by (auto simp: in_storage_def)
  then have "length (vs_nodes s) < card K" using K(1) table_length [OF t] by (simp add: psubset_card_mono)
  then have "vs_end s \<noteq> vs_eos s" using st K(2) by (simp add: in_storage_def)
  then have "vs_end s' = vs_end s + 1 \<and> vs_eos s' = vs_eos s \<and> \<not> snd (n_data n)"
    using ins by (auto simp: insert_node_def allocate_node_def Let_def split: prod.splits)
  then show "in_storage base cnt K s'"
    using st i(1,7) keys K(3) len by (auto simp: in_storage_def)
qed

lemma freeze_fold_in_storage:
  assumes "in_storage base cnt K s" "finite K" "card K \<le> cnt" "n_key ` set ms \<subseteq> K"
    and "fold (freeze_from_node gv) ms (s, w) = (s', w')"
  shows "in_storage base cnt K s'"
  using assms
proof (induction ms arbitrary: s w)
  case (Cons m ms)
  obtain s1 w1 where s1: "freeze_from_node gv m (s, w) = (s1, w1)" by (metis surj_pair)
  have ok: "vs_ok s" using Cons.prems(1) by (simp add: in_storage_def)
  have "in_storage base cnt K s1"
  proof (cases "node_found (n_key m) (find_node (n_key m) s)")
    case True
    then show ?thesis using s1 Cons.prems(1) by (simp add: freeze_from_node_def)
  next
    case False
    then have new: "n_key m \<notin> n_key ` set (vs_nodes s)" using find_node_found(2) [OF ok] by blast
    obtain v w2 where gv: "gv (n_data m) w = (v, w2)" by (metis surj_pair)
    obtain n s2 where i: "insert_node (n_key m) (find_node (n_key m) s) v s = (n, s2)" by (metis surj_pair)
    have "s1 = s2" using s1 False gv i by (simp add: freeze_from_node_def)
    then show ?thesis using insert_node_in_storage(1) [OF Cons.prems(1-3) _ new i] Cons.prems(4) by simp
  qed
  then show ?case using Cons.IH [of s1 w1] Cons.prems s1 by simp
qed simp

lemma freeze_optional_in_storage:
  assumes "in_storage base cnt K s" "finite K" "card K \<le> cnt" "dom (attached attrs) \<subseteq> K"
    and "freeze_optional gv attrs (s, w) = (s', w')"
  shows "in_storage base cnt K s'"
proof (cases attrs)
  case (Some a)
  have "n_key ` set (as_nodes a) = dom (attached attrs)"
    by (auto simp: Some attached_def as_map_def dom_def table_map_None)
  then show ?thesis
    using freeze_fold_in_storage [of base cnt K s "as_nodes a" gv w s' w'] assms Some
    by (simp add: freeze_optional_def freeze_nodes_from_def)
qed (use assms in \<open>simp add: freeze_optional_def\<close>)

lemma in_storage_detach:
  "in_storage base cnt K s \<Longrightarrow> in_storage base cnt K (s\<lparr>vs_source := None\<rparr>)"
  "in_storage base cnt K s \<Longrightarrow> in_storage base cnt K (s\<lparr>vs_thread := None\<rparr>)"
  "in_storage base cnt K s \<Longrightarrow> in_storage base cnt K (s\<lparr>vs_global := None\<rparr>)"
  by (simp_all add: in_storage_def vs_ok_detach)

lemma freeze_optional_sets:
  assumes "freeze_optional gv attrs (s, w) = (s', w')"
  shows "vs_source s' = vs_source s \<and> vs_thread s' = vs_thread s \<and> vs_global s' = vs_global s"
proof -
  have node: "freeze_from_node gv m (s, w) = (s', w') \<Longrightarrow>
      vs_source s' = vs_source s \<and> vs_thread s' = vs_thread s \<and> vs_global s' = vs_global s" for m s w s' w'
    by (auto simp: freeze_from_node_def insert_node_def allocate_node_def Let_def split: if_splits prod.splits)
  have "fold (freeze_from_node gv) ms (s, w) = (s', w') \<Longrightarrow>
      vs_source s' = vs_source s \<and> vs_thread s' = vs_thread s \<and> vs_global s' = vs_global s" for ms s w
  proof (induction ms arbitrary: s w)
    case (Cons m ms)
    obtain s1 w1 where s1: "freeze_from_node gv m (s, w) = (s1, w1)" by (metis surj_pair)
    then show ?case using Cons.IH [of s1 w1] Cons.prems node [OF s1] by simp
  qed simp
  then show ?thesis using assms by (cases attrs) (auto simp: freeze_optional_def freeze_nodes_from_def)
qed

lemma vs_freeze_in_storage:
  assumes st: "in_storage base cnt K s" and K: "finite K" "card K \<le> cnt"
    and dom: "dom (attached (vs_source s)) \<subseteq> K" "dom (attached (vs_thread s)) \<subseteq> K" "dom (attached (vs_global s)) \<subseteq> K"
    and fr: "vs_freeze gv s w = (s', w')"
  shows "in_storage base cnt K s'"
proof -
  obtain s1 w1 where 1: "freeze_optional gv (vs_source s) (s, w) = (s1, w1)" by (metis surj_pair)
  let ?s1 = "s1\<lparr>vs_source := None\<rparr>"
  obtain s2 w2 where 2: "freeze_optional gv (vs_thread s) (?s1, w1) = (s2, w2)" by (metis surj_pair)
  let ?s2 = "s2\<lparr>vs_thread := None\<rparr>"
  obtain s3 w3 where 3: "freeze_optional gv (vs_global s) (?s2, w2) = (s3, w3)" by (metis surj_pair)
  note i1 = in_storage_detach(1) [OF freeze_optional_in_storage [OF st K dom(1) 1]]
  note i2 = in_storage_detach(2) [OF freeze_optional_in_storage [OF i1 K dom(2) 2]]
  note i3 = in_storage_detach(3) [OF freeze_optional_in_storage [OF i2 K dom(3) 3]]
  have "vs_thread s1 = vs_thread s" "vs_global s2 = vs_global s"
    using freeze_optional_sets [OF 1] freeze_optional_sets [OF 2] by simp_all
  then have "s' = s3\<lparr>vs_global := None\<rparr>" using fr 1 2 3 by (simp add: vs_freeze_def)
  then show ?thesis using i3 by simp
qed

lemma vs_find_in_storage:
  assumes st: "in_storage base cnt K s" and K: "finite K" "card K \<le> cnt"
    and dom: "dom (attached (vs_source s)) \<subseteq> K" "dom (attached (vs_thread s)) \<subseteq> K" "dom (attached (vs_global s)) \<subseteq> K"
    and fd: "vs_find gv key s w = (r, s', w')"
  shows "in_storage base cnt K s' \<and> vs_source s' = vs_source s \<and> vs_thread s' = vs_thread s \<and> vs_global s' = vs_global s"
proof (cases "node_found key (find_node key s) \<or> s' = s")
  case True
  then show ?thesis using st fd by (auto simp: vs_find_def)
next
  case False
  have ok: "vs_ok s" using st by (simp add: in_storage_def)
  have sets: "pred_option as_ok (vs_source s)" "pred_option as_ok (vs_thread s)" "pred_option as_ok (vs_global s)"
    using ok by (simp_all add: vs_ok_def sets_ok_def)
  have new: "key \<notin> n_key ` set (vs_nodes s)" using False find_node_found(2) [OF ok] by blast
  have fz: "freeze_node gv key (find_node key s) s w = (r, s', w')"
    using fd False by (simp add: vs_find_def Let_def)
  then obtain v n where i: "insert_node key (find_node key s) v s = (n, s')"
    and a: "key \<in> dom (attached (vs_source s)) \<union> dom (attached (vs_thread s)) \<union> dom (attached (vs_global s))"
    using False sets
    by (cases "attached (vs_source s) key"; cases "attached (vs_thread s) key"; cases "attached (vs_global s) key")
      (auto simp: freeze_node_def find_attribute_attached domIff split: prod.splits)
  then have "key \<in> K" using dom by blast
  then show ?thesis using insert_node_in_storage(1) [OF st K _ new i] insert_node_ok(4-6) [OF ok new i] by blast
qed

section \<open>Properties\<close>

fun run_finds ::
  "('a, 'v, 'w) get_value \<Rightarrow> u32 list \<Rightarrow> ('a, 'v) attribute_value_set \<Rightarrow> 'w \<Rightarrow>
   'v option list \<times> ('a, 'v) attribute_value_set \<times> 'w"
where
  "run_finds gv [] s w = ([], s, w)"
| "run_finds gv (k # ks) s w =
     (let (r, s, w) = vs_find gv k s w;
          (rs, s, w) = run_finds gv ks s w
      in (map_option (fst \<circ> n_data) r # rs, s, w))"

definition record_attributes :: "'a attribute_set \<Rightarrow> 'a attribute_set \<Rightarrow> 'a attribute_set \<Rightarrow> u32 \<Rightarrow> 'a option" where
  "record_attributes src thr glob = as_map glob ++ as_map thr ++ as_map src"

lemma run_finds_acquires:
  assumes "stands_for att s" and "run_finds gv ks s w = (rs, s', w')"
  shows "stands_for att s' \<and> acquires gv att (vs_map s, w) (vs_map s', w') \<and> rs = map (vs_map s') ks \<and>
    (\<forall>k \<in> set ks. vs_map s' k = None \<longleftrightarrow> att k = None)"
  using assms
proof (induction ks arbitrary: s w rs)
  case (Cons k ks)
  obtain r s1 w1 where f: "vs_find gv k s w = (r, s1, w1)" by (metis prod_cases3)
  obtain rs1 where r: "run_finds gv ks s1 w1 = (rs1, s', w')" and rs: "rs = map_option (fst \<circ> n_data) r # rs1"
    using Cons.prems(2) f by (auto split: prod.splits)
  note v = vs_find_acquires [OF Cons.prems(1) f]
  note ih = Cons.IH [OF v(1) r]
  have "vs_map s1 \<subseteq>\<^sub>m vs_map s'" using ih acquires_map_le by fastforce
  moreover have "dom (vs_map s') \<subseteq> dom att" using ih by (simp add: stands_for_def)
  ultimately have "vs_map s' k = vs_map s1 k"
    using v(4) by (cases "vs_map s1 k") (auto simp: map_le_def domIff dom_def)
  then show ?case using ih v rs by (auto intro: rtranclp_trans)
qed simp

lemma vs_from_sets_ok:
  assumes "as_ok src" "as_ok thr" "as_ok glob"
  shows "stands_for (record_attributes src thr glob) (vs_from_sets p src thr glob n)"
    and "vs_map (vs_from_sets p src thr glob n) = Map.empty"
    and "vs_ok (vs_from_sets p src thr glob n)"
proof -
  have "shape []" unfolding shape_def by (intro exI [of _ "[]"]) simp
  then have "table_ok [] (replicate bucket_count empty_bucket)"
    by (simp add: table_ok_def bucket_of_def map_replicate_const)
  then show ok: "vs_ok (vs_from_sets p src thr glob n)"
    using assms by (simp add: vs_ok_def vs_from_sets_def vs_create_def sets_ok_def)
  show m: "vs_map (vs_from_sets p src thr glob n) = Map.empty"
    by (auto simp: vs_from_sets_def vs_create_def vs_map_def table_map_def)
  show "stands_for (record_attributes src thr glob) (vs_from_sets p src thr glob n)"
    using ok by (simp add: stands_for_def m)
      (simp add: vs_from_sets_def vs_create_def all_attached_def attached_def record_attributes_def)
qed

text \<open>
  C11. The values of a record have the priority source, thread, global, whenever each of them is acquired and
  whatever acquiring it does: for every name that one of the three sets has, the value is acquired exactly
  once, from the attribute of the first of the sets that has the name; every lookup that is made before the set
  is frozen gives the value that the frozen set holds, and nothing for a name that no set has.
\<close>

theorem record_values_by_priority:
  assumes "as_ok src" "as_ok thr" "as_ok glob"
    and "run_finds gv ks (vs_from_sets p src thr glob reserve_count) w = (rs, s1, w1)"
    and "vs_freeze gv s1 w1 = (s2, w2)"
  shows "acquires gv (as_map glob ++ as_map thr ++ as_map src) (Map.empty, w) (vs_map s2, w2) \<and>
    dom (vs_map s2) = dom (as_map src) \<union> dom (as_map thr) \<union> dom (as_map glob) \<and>
    rs = map (vs_map s2) ks \<and> vs_ok s2"
proof -
  let ?att = "record_attributes src thr glob"
  note f = run_finds_acquires [OF vs_from_sets_ok(1) [OF assms(1-3)] assms(4), unfolded vs_from_sets_ok(2) [OF assms(1-3)]]
  then have "stands_for ?att s1" by blast
  note z = vs_freeze_acquires [OF this assms(5)]
  have le: "vs_map s1 \<subseteq>\<^sub>m vs_map s2" using acquires_map_le [OF z(2)] by simp
  have "vs_map s2 k = vs_map s1 k" if "k \<in> set ks" for k
    using that f z(3) le by (cases "vs_map s1 k") (metis domIff, metis domI map_le_def)
  then have "rs = map (vs_map s2) ks" using f by simp
  moreover have "acquires gv ?att (Map.empty, w) (vs_map s2, w2)" using f z(2) by (auto intro: rtranclp_trans)
  ultimately show ?thesis using z(1,3) by (auto simp: stands_for_def record_attributes_def)
qed

lemma run_finds_in_storage:
  assumes "in_storage base cnt K s" "finite K" "card K \<le> cnt"
    and "dom (attached (vs_source s)) \<subseteq> K" "dom (attached (vs_thread s)) \<subseteq> K" "dom (attached (vs_global s)) \<subseteq> K"
    and "run_finds gv ks s w = (rs, s', w')"
  shows "in_storage base cnt K s' \<and> vs_source s' = vs_source s \<and> vs_thread s' = vs_thread s \<and> vs_global s' = vs_global s"
  using assms
proof (induction ks arbitrary: s w rs)
  case (Cons k ks)
  obtain r s1 w1 where f: "vs_find gv k s w = (r, s1, w1)" by (metis prod_cases3)
  obtain rs1 where r: "run_finds gv ks s1 w1 = (rs1, s', w')"
    using Cons.prems(7) f by (auto split: prod.splits)
  note i = vs_find_in_storage [OF Cons.prems(1-6) f]
  show ?case using Cons.IH [OF _ Cons.prems(2,3) _ _ _ r] i Cons.prems(4-6) by simp
qed simp

lemma as_size_dom:
  assumes "as_ok s"
  shows "dom (as_map s) = n_key ` set (as_nodes s)" "card (dom (as_map s)) = as_size s" "finite (dom (as_map s))"
proof -
  show d: "dom (as_map s) = n_key ` set (as_nodes s)"
    by (auto simp: as_map_def dom_def table_map_None)
  show "card (dom (as_map s)) = as_size s"
    using table_length assms unfolding d by (metis as_ok_def as_size_def)
  show "finite (dom (as_map s))" unfolding d by simp
qed

text \<open>
  C12. A value set that is created from three attribute sets never needs the heap for their values: every node of
  the frozen set, whatever was looked up before, lies in the storage that was reserved at creation, and its flag
  says so.
\<close>

theorem record_values_in_storage:
  fixes gv :: "('a, 'v, 'w) get_value"
  assumes "as_ok src" "as_ok thr" "as_ok glob"
    and "run_finds gv ks (vs_from_sets p src thr glob reserve_count) w = (rs, s1, w1)"
    and "vs_freeze gv s1 w1 = (s2, w2)"
  shows "\<forall>n \<in> set (vs_nodes s2). \<not> snd (n_data n) \<and>
    n_ptr n < p + (as_size src + as_size thr + as_size glob + reserve_count)"
proof -
  let ?s = "vs_from_sets p src thr glob reserve_count :: ('a, 'v) attribute_value_set"
  let ?cnt = "as_size src + as_size thr + as_size glob + reserve_count"
  let ?K = "dom (as_map src) \<union> dom (as_map thr) \<union> dom (as_map glob)"
  have K: "finite ?K" using as_size_dom(3) assms(1-3) by blast
  have "card ?K \<le> card (dom (as_map src)) + card (dom (as_map thr)) + card (dom (as_map glob))"
    using card_Un_le [of "dom (as_map src) \<union> dom (as_map thr)" "dom (as_map glob)"]
      card_Un_le [of "dom (as_map src)" "dom (as_map thr)"] by linarith
  then have c: "card ?K \<le> ?cnt" using as_size_dom(2) [OF assms(1)] as_size_dom(2) [OF assms(2)] as_size_dom(2) [OF assms(3)] by linarith
  have st: "in_storage p ?cnt ?K ?s"
    using vs_from_sets_ok(3) [OF assms(1-3), of p reserve_count]
    by (simp add: in_storage_def) (simp add: vs_from_sets_def vs_create_def)
  have d: "dom (attached (vs_source ?s)) \<subseteq> ?K" "dom (attached (vs_thread ?s)) \<subseteq> ?K"
    "dom (attached (vs_global ?s)) \<subseteq> ?K"
    by (auto simp: vs_from_sets_def vs_create_def attached_def)
  have f: "in_storage p ?cnt ?K s1" "vs_source s1 = vs_source ?s" "vs_thread s1 = vs_thread ?s"
    "vs_global s1 = vs_global ?s"
    using run_finds_in_storage [OF st K c d assms(4)] by blast+
  have "in_storage p ?cnt ?K s2"
    using vs_freeze_in_storage [OF f(1) K c _ _ _ assms(5)] d unfolding f(2-4) by blast
  then show ?thesis by (fastforce simp: in_storage_def vs_ok_def placed_ok_def)
qed

lemma copy_value_nodes:
  assumes "vs_ok s" "shape (map n_key (vs_nodes s @ ns))" "vs_end s + length ns \<le> vs_eos s"
  shows "vs_ok (fold copy_value_node ns s) \<and>
    map (\<lambda>n. (n_key n, fst (n_data n))) (vs_nodes (fold copy_value_node ns s)) =
    map (\<lambda>n. (n_key n, fst (n_data n))) (vs_nodes s @ ns)"
  using assms
proof (induction ns arbitrary: s)
  case (Cons n ns)
  let ?n = "Node (vs_end s) (n_key n) (fst (n_data n), False)"
  obtain ns' bs' where app: "append_node ?n (vs_nodes s) (vs_buckets s) = (ns', bs')" by (metis surj_pair)
  have t: "table_ok (vs_nodes s) (vs_buckets s)" and pl: "\<forall>m \<in> set (vs_nodes s). placed_ok s m"
    using Cons.prems(1) by (simp_all add: vs_ok_def)
  have sh: "shape (map n_key (vs_nodes s @ [?n]))"
    using Cons.prems(2) shape_prefix [of "map n_key (vs_nodes s) @ [n_key n]" "map n_key ns"] by simp
  have fresh: "n_ptr ?n \<notin> n_ptr ` set (vs_nodes s)"
    using pl Cons.prems(3) by (fastforce simp: placed_ok_def split: if_splits)
  note an = append_node_ok [OF t sh fresh app]
  have c: "copy_value_node n s = s\<lparr>vs_end := vs_end s + 1, vs_nodes := ns', vs_buckets := bs'\<rparr>"
    using app by (simp add: copy_value_node_def Let_def)
  have "vs_ok (copy_value_node n s)"
    using Cons.prems(1,3) an by (auto simp: c vs_ok_def placed_ok_def sets_ok_def less_Suc_eq)
  moreover have "shape (map n_key (vs_nodes (copy_value_node n s) @ ns))" using Cons.prems(2) by (simp add: c an(2))
  moreover have "vs_end (copy_value_node n s) + length ns \<le> vs_eos (copy_value_node n s)"
    using Cons.prems(3) by (simp add: c)
  ultimately show ?case using Cons.IH [of "copy_value_node n s"] by (simp add: c an(2))
qed simp

lemma map_of_map_data: "map_of (map (\<lambda>m. (n_key m, f (n_data m))) ms) = map_option f \<circ> table_map ms"
  by (induction ms) (auto simp: table_map_def)

text \<open>
  Copying a value set freezes the original and gives a set with nodes of its own that holds the same values.
\<close>

theorem value_set_copy_equal:
  assumes "stands_for att that" and "vs_copy gv p that w = (s', that', w')"
  shows "vs_ok s' \<and> vs_ok that' \<and> vs_map s' = vs_map that' \<and> dom (vs_map s') = dom att \<and>
    acquires gv att (vs_map that, w) (vs_map that', w') \<and> map n_key (vs_nodes s') = map n_key (vs_nodes that')"
proof -
  obtain t w1 where fr: "vs_freeze gv that w = (t, w1)" by (metis surj_pair)
  let ?s = "vs_create p (length (vs_nodes t)) None None None :: ('a, 'b) attribute_value_set"
  have r: "s' = fold copy_value_node (vs_nodes t) ?s" "that' = t" "w' = w1"
    using assms(2) fr by (auto simp: vs_copy_def vs_size_def copy_nodes_from_def)
  note f = vs_freeze_acquires [OF assms(1) fr]
  have ok: "vs_ok t" using f(1) by (simp add: stands_for_def)
  have "shape []" unfolding shape_def by (intro exI [of _ "[]"]) simp
  then have "vs_ok ?s"
    by (simp add: vs_ok_def vs_create_def sets_ok_def table_ok_def bucket_of_def map_replicate_const)
  moreover have "shape (map n_key (vs_nodes ?s @ vs_nodes t))"
    using ok by (simp add: vs_create_def vs_ok_def table_ok_def)
  ultimately have c: "vs_ok s'" and e: "map (\<lambda>n. (n_key n, fst (n_data n))) (vs_nodes s') =
      map (\<lambda>n. (n_key n, fst (n_data n))) (vs_nodes t)"
    using copy_value_nodes [of ?s "vs_nodes t"] by (simp_all add: r(1) vs_create_def)
  have "vs_map s' = vs_map t"
    using arg_cong [OF e, of map_of] by (simp add: vs_map_def map_of_map_data)
  moreover have "map n_key (vs_nodes s') = map n_key (vs_nodes t)"
    using arg_cong [OF e, of "map fst"] by (simp add: comp_def)
  ultimately show ?thesis using c f ok r by simp
qed

section \<open>Witnesses\<close>

definition demo_src :: "string attribute_set" where
  "demo_src = snd (run_set_ops (as_empty 0) [Insert 1 ''s1'', Insert 2 ''s2''])"

definition demo_thr :: "string attribute_set" where
  "demo_thr = snd (run_set_ops (as_empty 0) [Insert 2 ''t2'', Insert 18 ''t18''])"

definition demo_glob :: "string attribute_set" where
  "demo_glob = snd (run_set_ops (as_empty 0) [Insert 18 ''g18'', Insert 5 ''g5'', Insert 1 ''g1''])"

text \<open>The value of an attribute with the moment it was acquired at.\<close>

definition stamped :: "('a, 'a \<times> nat, nat) get_value" where
  "stamped a w = ((a, w), Suc w)"

lemma demo_sets_ok: "as_ok demo_src" "as_ok demo_thr" "as_ok demo_glob"
  using run_set_ops_refines [OF as_empty_ok(1)] unfolding demo_src_def demo_thr_def demo_glob_def
  by (metis prod.collapse)+

definition demo_found :: "(string \<times> nat) option list \<times> (string, string \<times> nat) attribute_value_set \<times> nat" where
  "demo_found = run_finds stamped [18, 7, 1, 18] (vs_from_sets 50 demo_src demo_thr demo_glob 3) 0"

definition demo_frozen :: "(string, string \<times> nat) attribute_value_set \<times> nat" where
  "demo_frozen = vs_freeze stamped (fst (snd demo_found)) (snd (snd demo_found))"

lemma demo_record_values:
  "fst demo_found = [Some (''t18'', 0), None, Some (''s1'', 1), Some (''t18'', 0)]" "snd demo_frozen = 4"
  "length (vs_nodes (fst demo_frozen)) = 4"
  by code_simp+

lemma demo_found_split: "run_finds stamped [18, 7, 1, 18] (vs_from_sets 50 demo_src demo_thr demo_glob 3) 0 =
    (fst demo_found, fst (snd demo_found), snd (snd demo_found))"
  by (simp add: demo_found_def)

lemma demo_frozen_split: "vs_freeze stamped (fst (snd demo_found)) (snd (snd demo_found)) = (fst demo_frozen, snd demo_frozen)"
  by (simp add: demo_frozen_def)

theorem record_values_by_priority_witness:
  "map (vs_map (fst demo_frozen)) [18, 7, 1, 18] = [Some (''t18'', 0), None, Some (''s1'', 1), Some (''t18'', 0)] \<and>
   acquires stamped (as_map demo_glob ++ as_map demo_thr ++ as_map demo_src) (Map.empty, 0) (vs_map (fst demo_frozen), 4)"
  using record_values_by_priority [OF demo_sets_ok demo_found_split demo_frozen_split]
    demo_record_values(1,2) by metis

theorem record_values_in_storage_witness:
  "length (vs_nodes (fst demo_frozen)) = 4 \<and>
   list_all (\<lambda>n. \<not> snd (n_data n) \<and>
     n_ptr n < 50 + (as_size demo_src + as_size demo_thr + as_size demo_glob + 3)) (vs_nodes (fst demo_frozen))"
  using record_values_in_storage [OF demo_sets_ok demo_found_split demo_frozen_split]
    demo_record_values(3) by (simp add: list_all_iff)

end
