(* ===== verification/Logging_Core.thy ===== *)
theory Logging_Core
  imports Attribute_Value_Set
begin

text \<open>
  The logging core (src/src/core.cpp): opening a record, which composes the attribute values, applies the
  global filter and asks every sink whether it will consume the record, and pushing a record to the sinks that
  accepted it. Filters, sinks, the exception handler and the random number generator are code of the user or
  of other libraries: they are the functions of \<open>core_env\<close>, with effects on the state \<open>'w\<close> of the world, and may
  throw exceptions of type \<open>'e\<close>.
\<close>

section \<open>Environment and state\<close>

type_synonym sink = nat

record ('a, 'v, 'w, 'e) core_env =
  env_get_value :: "('a, 'v, 'w) get_value"
  env_filter :: "('a, 'v) attribute_value_set \<Rightarrow> 'w \<Rightarrow> ('e + bool) \<times> ('a, 'v) attribute_value_set \<times> 'w"
  env_will_consume :: "sink \<Rightarrow> ('a, 'v) attribute_value_set \<Rightarrow> 'w \<Rightarrow> ('e + bool) \<times> ('a, 'v) attribute_value_set \<times> 'w"
  env_cross_thread :: "sink \<Rightarrow> bool"
  env_try_consume :: "sink \<Rightarrow> 'w \<Rightarrow> ('e + bool) \<times> 'w"
  env_consume :: "sink \<Rightarrow> 'w \<Rightarrow> ('e + unit) \<times> 'w"
  env_flush :: "sink \<Rightarrow> 'w \<Rightarrow> ('e + unit) \<times> 'w"
  env_handler :: "('e \<Rightarrow> 'w \<Rightarrow> ('e + unit) \<times> 'w) option"
  env_detach :: "'v \<Rightarrow> 'v"
  env_random :: "'w \<Rightarrow> nat \<times> 'w"

text \<open>An empty exception handler rethrows the exception.\<close>

definition handle_exception :: "('a, 'v, 'w, 'e) core_env \<Rightarrow> 'e \<Rightarrow> 'w \<Rightarrow> ('e + unit) \<times> 'w" where
  "handle_exception env e w = (case env_handler env of None \<Rightarrow> (Inl e, w) | Some h \<Rightarrow> h e w)"

record 'a core_state =
  core_sinks :: "sink list"
  core_default_sink :: sink
  core_global :: "'a attribute_set"
  core_thread :: "'a attribute_set"
  core_enabled :: bool

text \<open>\<open>core_thread\<close> is the attribute set of the calling thread.\<close>

record ('a, 'v) private_data =
  pd_values :: "('a, 'v) attribute_value_set"
  pd_sinks :: "sink list"
  pd_capacity :: nat
  pd_detach :: bool

section \<open>Configuration\<close>

definition set_logging_enabled :: "bool \<Rightarrow> 'a core_state \<Rightarrow> bool \<times> 'a core_state" where
  "set_logging_enabled enabled c = (core_enabled c, c\<lparr>core_enabled := enabled\<rparr>)"

definition add_sink :: "sink \<Rightarrow> 'a core_state \<Rightarrow> 'a core_state" where
  "add_sink s c = (if s \<in> set (core_sinks c) then c else c\<lparr>core_sinks := core_sinks c @ [s]\<rparr>)"

definition remove_sink :: "sink \<Rightarrow> 'a core_state \<Rightarrow> 'a core_state" where
  "remove_sink s c = c\<lparr>core_sinks := remove1 s (core_sinks c)\<rparr>"

definition remove_all_sinks :: "'a core_state \<Rightarrow> 'a core_state" where
  "remove_all_sinks c = c\<lparr>core_sinks := []\<rparr>"

definition add_global_attribute :: "u32 \<Rightarrow> 'a \<Rightarrow> 'a core_state \<Rightarrow> ('a node \<times> bool) \<times> 'a core_state" where
  "add_global_attribute name attr c =
     (let (r, s) = as_insert name attr (core_global c) in (r, c\<lparr>core_global := s\<rparr>))"

definition remove_global_attribute :: "'a node \<Rightarrow> 'a core_state \<Rightarrow> 'a core_state" where
  "remove_global_attribute it c = c\<lparr>core_global := as_erase it (core_global c)\<rparr>"

definition set_global_attributes :: "ptr \<Rightarrow> 'a attribute_set \<Rightarrow> 'a core_state \<Rightarrow> 'a core_state" where
  "set_global_attributes p attrs c = c\<lparr>core_global := as_copy p attrs\<rparr>"

definition add_thread_attribute :: "u32 \<Rightarrow> 'a \<Rightarrow> 'a core_state \<Rightarrow> ('a node \<times> bool) \<times> 'a core_state" where
  "add_thread_attribute name attr c =
     (let (r, s) = as_insert name attr (core_thread c) in (r, c\<lparr>core_thread := s\<rparr>))"

definition remove_thread_attribute :: "'a node \<Rightarrow> 'a core_state \<Rightarrow> 'a core_state" where
  "remove_thread_attribute it c = c\<lparr>core_thread := as_erase it (core_thread c)\<rparr>"

definition set_thread_attributes :: "ptr \<Rightarrow> 'a attribute_set \<Rightarrow> 'a core_state \<Rightarrow> 'a core_state" where
  "set_thread_attributes p attrs c = c\<lparr>core_thread := as_copy p attrs\<rparr>"

section \<open>Opening a record\<close>

text \<open>
  While the sinks are asked, the values are in a local set until the first sink accepts the record; then they
  are moved into the record. \<open>o_record\<close> is the record without its values, which are \<open>o_values\<close> in both cases.
\<close>

record ('a, 'v, 'w) open_state =
  o_values :: "('a, 'v) attribute_value_set"
  o_record :: "(sink list \<times> nat \<times> bool) option"
  o_world :: 'w

definition push_back_accepting_sink ::
  "('a, 'v, 'w, 'e) core_env \<Rightarrow> sink \<Rightarrow> sink list \<times> nat \<times> bool \<Rightarrow> sink list \<times> nat \<times> bool"
where
  "push_back_accepting_sink env s r =
     (case r of (sinks, capacity, detach) \<Rightarrow> (sinks @ [s], capacity, detach \<or> env_cross_thread env s))"

definition apply_sink_filter ::
  "('a, 'v, 'w, 'e) core_env \<Rightarrow> sink \<Rightarrow> nat \<Rightarrow> ('a, 'v, 'w) open_state \<Rightarrow> ('e + unit) \<times> ('a, 'v, 'w) open_state"
where
  "apply_sink_filter env s remaining_capacity st =
     (case env_will_consume env s (o_values st) (o_world st) of
        (Inr b, v, w) \<Rightarrow>
          let st = st\<lparr>o_values := v, o_world := w\<rparr>
          in if b
             then (let r = (case o_record st of None \<Rightarrow> ([], remaining_capacity, False) | Some r \<Rightarrow> r)
                   in (Inr (), st\<lparr>o_record := Some (push_back_accepting_sink env s r)\<rparr>))
             else (Inr (), st)
      | (Inl e, v, w) \<Rightarrow>
          (case handle_exception env e w of
             (r, w) \<Rightarrow> (r, st\<lparr>o_values := v, o_world := w\<rparr>)))"

fun apply_sink_filters ::
  "('a, 'v, 'w, 'e) core_env \<Rightarrow> sink list \<Rightarrow> ('a, 'v, 'w) open_state \<Rightarrow> ('e + unit) \<times> ('a, 'v, 'w) open_state"
where
  "apply_sink_filters env [] st = (Inr (), st)"
| "apply_sink_filters env (s # sinks) st =
     (case apply_sink_filter env s (length (s # sinks)) st of
        (Inl e, st) \<Rightarrow> (Inl e, st)
      | (Inr _, st) \<Rightarrow> apply_sink_filters env sinks st)"

text \<open>
  \<open>enabled0\<close> is the state of the flag in the check that is made before the core is locked, \<open>compose\<close> the
  construction of the values from the source attributes and the thread and global sets.
\<close>

definition open_record ::
  "('a, 'v, 'w, 'e) core_env \<Rightarrow> 'a core_state \<Rightarrow> bool \<Rightarrow>
   ('a attribute_set \<Rightarrow> 'a attribute_set \<Rightarrow> 'w \<Rightarrow> ('a, 'v) attribute_value_set \<times> 'w) \<Rightarrow> 'w \<Rightarrow>
   ('e + ('a, 'v) private_data option) \<times> 'w"
where
  "open_record env c enabled0 compose w =
     (if \<not> enabled0 then (Inr None, w)
      else if \<not> core_enabled c then (Inr None, w)
      else
        let (v, w) = compose (core_thread c) (core_global c) w
        in case env_filter env v w of
             (Inl e, v, w) \<Rightarrow>
               (case handle_exception env e w of
                  (Inl e, w) \<Rightarrow> (Inl e, w)
                | (Inr _, w) \<Rightarrow> (Inr None, w))
           | (Inr False, v, w) \<Rightarrow> (Inr None, w)
           | (Inr True, v, w) \<Rightarrow>
               (let st = \<lparr>o_values = v, o_record = None, o_world = w\<rparr>;
                    (r, st) = (if core_sinks c \<noteq> [] then apply_sink_filters env (core_sinks c) st
                               else apply_sink_filter env (core_default_sink c) 1 st)
                in case r of
                     Inl e \<Rightarrow> (Inl e, o_world st)
                   | Inr _ \<Rightarrow>
                       (case o_record st of
                          Some ([], _, _) \<Rightarrow> (Inr None, o_world st)
                        | _ \<Rightarrow>
                            (case vs_freeze (env_get_value env) (o_values st) (o_world st) of
                               (v, w) \<Rightarrow>
                                 (Inr (map_option (\<lambda>(sinks, capacity, detach).
                                    \<lparr>pd_values = v, pd_sinks = sinks, pd_capacity = capacity,
                                     pd_detach = detach\<rparr>) (o_record st)), w)))))"

definition core_open_record ::
  "('a, 'v, 'w, 'e) core_env \<Rightarrow> 'a core_state \<Rightarrow> bool \<Rightarrow> ptr \<Rightarrow> 'a attribute_set \<Rightarrow> 'w \<Rightarrow>
   ('e + ('a, 'v) private_data option) \<times> 'w"
where
  "core_open_record env c enabled0 storage source_attributes w =
     open_record env c enabled0
       (\<lambda>thr glob w. (vs_from_sets storage source_attributes thr glob 0, w)) w"

definition core_open_record_values ::
  "('a, 'v, 'w, 'e) core_env \<Rightarrow> 'a core_state \<Rightarrow> bool \<Rightarrow> ptr \<Rightarrow> ('a, 'v) attribute_value_set \<Rightarrow> 'w \<Rightarrow>
   ('e + ('a, 'v) private_data option) \<times> 'w"
where
  "core_open_record_values env c enabled0 storage source_attributes w =
     open_record env c enabled0
       (\<lambda>thr glob w. case vs_from_values (env_get_value env) storage source_attributes thr glob 0 w of
                        (v, _, w) \<Rightarrow> (v, w)) w"

definition core_open_record_move ::
  "('a, 'v, 'w, 'e) core_env \<Rightarrow> 'a core_state \<Rightarrow> bool \<Rightarrow> ('a, 'v) attribute_value_set \<Rightarrow> 'w \<Rightarrow>
   ('e + ('a, 'v) private_data option) \<times> 'w"
where
  "core_open_record_move env c enabled0 source_attributes w =
     open_record env c enabled0 (\<lambda>thr glob w. (vs_adopt source_attributes thr glob, w)) w"

section \<open>Pushing a record\<close>

definition record_lock :: "('a, 'v, 'w, 'e) core_env \<Rightarrow> ('a, 'v) private_data \<Rightarrow> ('a, 'v) private_data" where
  "record_lock env r =
     (if pd_detach r
      then r\<lparr>pd_values := (pd_values r)\<lparr>vs_nodes :=
             map (\<lambda>n. Node (n_ptr n) (n_key n) (env_detach env (fst (n_data n)), snd (n_data n)))
               (vs_nodes (pd_values r))\<rparr>\<rparr>
      else r)"

text \<open>
  The sinks that still have to consume the record are the range from \<open>begin\<close> to \<open>end\<close>. Taking the sink at index
  \<open>i\<close> out of the range swaps it with the last one and shortens the range. \<open>log\<close> records the sinks that are
  done with the record, with whether they consumed it.
\<close>

definition take_out :: "nat \<Rightarrow> sink list \<Rightarrow> sink list" where
  "take_out i live = butlast (live[i := last live])"

record 'w push_state =
  ps_live :: "sink list"
  ps_log :: "(sink \<times> bool) list"
  ps_world :: 'w

definition sink_done :: "nat \<Rightarrow> bool \<Rightarrow> 'w push_state \<Rightarrow> 'w push_state" where
  "sink_done i consumed st =
     st\<lparr>ps_live := take_out i (ps_live st), ps_log := ps_log st @ [(ps_live st ! i, consumed)]\<rparr>"

text \<open>
  One pass over the range with \<open>try_consume\<close>, from index \<open>i\<close>: the result is the state, whether all sinks
  were locked, and the exception and the index of the sink that threw it.
\<close>

function try_consume_pass ::
  "('a, 'v, 'w, 'e) core_env \<Rightarrow> nat \<Rightarrow> bool \<Rightarrow> 'w push_state \<Rightarrow> ('e \<times> nat) option \<times> bool \<times> 'w push_state"
where
  "try_consume_pass env i all_locked st =
     (if i < length (ps_live st)
      then (case env_try_consume env (ps_live st ! i) (ps_world st) of
              (Inl e, w) \<Rightarrow> (Some (e, i), all_locked, st\<lparr>ps_world := w\<rparr>)
            | (Inr True, w) \<Rightarrow> try_consume_pass env i False (sink_done i True (st\<lparr>ps_world := w\<rparr>))
            | (Inr False, w) \<Rightarrow> try_consume_pass env (i + 1) all_locked (st\<lparr>ps_world := w\<rparr>))
      else (None, all_locked, st))"
  by pat_completeness auto
termination
  by (relation "measure (\<lambda>(env, i, all_locked, st). length (ps_live st) - i)")
    (auto simp: sink_done_def take_out_def)

fun shuffle_loop :: "('w \<Rightarrow> nat \<times> 'w) \<Rightarrow> nat \<Rightarrow> nat \<Rightarrow> sink list \<Rightarrow> 'w \<Rightarrow> sink list \<times> 'w" where
  "shuffle_loop rng it 0 xs w = (xs, w)"
| "shuffle_loop rng it (Suc n) xs w =
     (let (x, w) = rng w;
          p = x mod (it + 1);
          xs = (if p \<noteq> it then xs[p := xs ! it, it := xs ! p] else xs)
      in shuffle_loop rng (it + 1) n xs w)"

definition random_shuffle :: "('w \<Rightarrow> nat \<times> 'w) \<Rightarrow> sink list \<Rightarrow> 'w \<Rightarrow> sink list \<times> 'w" where
  "random_shuffle rng xs w = shuffle_loop rng 1 (length xs - 1) xs w"

lemma length_take_out: "i < length xs \<Longrightarrow> length (take_out i xs) = length xs - 1"
  by (simp add: take_out_def)

lemma try_consume_pass_length:
  "try_consume_pass env i al st = (x, al', st') \<Longrightarrow>
   length (ps_live st') \<le> length (ps_live st) \<and>
   (al \<and> \<not> al' \<longrightarrow> length (ps_live st') < length (ps_live st)) \<and>
   (\<forall>e j. x = Some (e, j) \<longrightarrow> j < length (ps_live st'))"
proof (induction env i al st rule: try_consume_pass.induct)
  case (1 env i al st)
  show ?case
  proof (cases "i < length (ps_live st)")
    case False
    then show ?thesis using "1.prems" by (subst (asm) try_consume_pass.simps) auto
  next
    case True
    obtain r w where r: "env_try_consume env (ps_live st ! i) (ps_world st) = (r, w)" by (metis surj_pair)
    show ?thesis
    proof (cases r)
      case (Inl e)
      then show ?thesis using "1.prems" r True by (subst (asm) try_consume_pass.simps) auto
    next
      case (Inr b)
      show ?thesis
      proof (cases b)
        case b: True
        let ?st = "sink_done i True (st\<lparr>ps_world := w\<rparr>)"
        have p: "try_consume_pass env i False ?st = (x, al', st')"
          using "1.prems" r Inr b True by (subst (asm) try_consume_pass.simps) simp
        have "length (ps_live ?st) < length (ps_live st)" using True by (simp add: sink_done_def length_take_out)
        then show ?thesis using "1.IH"(1) [OF True r [symmetric] Inr [simplified b] refl p] by auto
      next
        case b: False
        have p: "try_consume_pass env (i + 1) al (st\<lparr>ps_world := w\<rparr>) = (x, al', st')"
          using "1.prems" r Inr b True by (subst (asm) try_consume_pass.simps) simp
        then show ?thesis using "1.IH"(2) [OF True r [symmetric] Inr [simplified b] refl p] by simp
      qed
    qed
  qed
qed


function push_loop ::
  "('a, 'v, 'w, 'e) core_env \<Rightarrow> nat \<Rightarrow> bool \<Rightarrow> 'w push_state \<Rightarrow> ('e + unit) \<times> 'w push_state"
where
  "push_loop env it shuffled st =
     (case try_consume_pass env it True st of
        (Some (e, j), _, st) \<Rightarrow>
          (case handle_exception env e (ps_world st) of
             (Inl e, w) \<Rightarrow> (Inl e, st\<lparr>ps_world := w\<rparr>)
           | (Inr _, w) \<Rightarrow> push_loop env j shuffled (sink_done j False (st\<lparr>ps_world := w\<rparr>)))
      | (None, all_locked, st) \<Rightarrow>
          if ps_live st = [] then (Inr (), st)
          else if all_locked
          then (let (live, w) = (if shuffled then (ps_live st, ps_world st)
                                 else random_shuffle (env_random env) (ps_live st) (ps_world st))
                in case env_consume env (live ! 0) w of
                     (Inl e, w) \<Rightarrow>
                       (case handle_exception env e w of
                          (Inl e, w) \<Rightarrow> (Inl e, st\<lparr>ps_live := live, ps_world := w\<rparr>)
                        | (Inr _, w) \<Rightarrow>
                            push_loop env 0 True (sink_done 0 False (st\<lparr>ps_live := live, ps_world := w\<rparr>)))
                   | (Inr _, w) \<Rightarrow>
                       push_loop env 0 True (sink_done 0 True (st\<lparr>ps_live := live, ps_world := w\<rparr>)))
          else push_loop env 0 shuffled st)"
  by pat_completeness auto

lemma shuffle_loop_length: "length (fst (shuffle_loop rng it n xs w)) = length xs"
  by (induction rng it n xs w rule: shuffle_loop.induct) (auto simp: Let_def split: prod.splits)

lemma random_shuffle_length: "random_shuffle rng xs w = (ys, w') \<Longrightarrow> length ys = length xs"
  using shuffle_loop_length [of rng 1 "length xs - 1" xs w] by (simp add: random_shuffle_def)

lemma sink_done_length: "i < length (ps_live st) \<Longrightarrow> length (ps_live (sink_done i b st)) < length (ps_live st)"
  by (simp add: sink_done_def length_take_out)

declare try_consume_pass.simps [simp del]

lemma failed_sink_shrinks:
  assumes "(Some (e, j), al, st1) = try_consume_pass env it True st"
  shows "length (ps_live (sink_done j b (st1\<lparr>ps_world := w\<rparr>))) < length (ps_live st)"
  using try_consume_pass_length [OF assms [symmetric]] sink_done_length [of j "st1\<lparr>ps_world := w\<rparr>" b] by simp

lemma consumed_sink_shrinks:
  assumes "(None, al, st1) = try_consume_pass env it True st" "ps_live st1 \<noteq> []"
    "(live, w) = (if shuffled then (ps_live st1, ps_world st1)
                  else random_shuffle rng (ps_live st1) (ps_world st1))"
  shows "length (ps_live (sink_done 0 b (st1\<lparr>ps_live := live, ps_world := w'\<rparr>))) < length (ps_live st)"
proof -
  have "length live = length (ps_live st1)"
    using assms(3) by (auto split: if_splits dest: random_shuffle_length [OF sym])
  then show ?thesis
    using assms(2) try_consume_pass_length [OF assms(1) [symmetric]]
      sink_done_length [of 0 "st1\<lparr>ps_live := live, ps_world := w'\<rparr>" b] by simp
qed

lemma unlocked_pass_shrinks:
  assumes "(None, False, st1) = try_consume_pass env it True st"
  shows "length (ps_live st1) < length (ps_live st)"
  using try_consume_pass_length [OF assms [symmetric]] by simp

termination push_loop
  by (relation "measure (\<lambda>(env, it, shuffled, st). length (ps_live st))")
    (auto intro: failed_sink_shrinks consumed_sink_shrinks unlocked_pass_shrinks simp del: not_less)

text \<open>
  \<open>alive\<close> tells which of the sinks, to which the record has weak references, still exist.
\<close>

definition push_record ::
  "('a, 'v, 'w, 'e) core_env \<Rightarrow> (sink \<Rightarrow> bool) \<Rightarrow> ('a, 'v) private_data \<Rightarrow> 'w \<Rightarrow>
   ('e + unit) \<times> (sink \<times> bool) list \<times> 'w"
where
  "push_record env alive r w =
     (let live = filter alive (pd_sinks (record_lock env r));
          (x, st) = push_loop env 0 (length live \<le> 1) \<lparr>ps_live = live, ps_log = [], ps_world = w\<rparr>
      in case x of
           Inr _ \<Rightarrow> (Inr (), ps_log st, ps_world st)
         | Inl e \<Rightarrow> (case handle_exception env e (ps_world st) of (x, w) \<Rightarrow> (x, ps_log st, w)))"

section \<open>Flushing\<close>

fun flush_sinks :: "('a, 'v, 'w, 'e) core_env \<Rightarrow> sink list \<Rightarrow> 'w \<Rightarrow> ('e + unit) \<times> 'w" where
  "flush_sinks env [] w = (Inr (), w)"
| "flush_sinks env (s # sinks) w =
     (case env_flush env s w of
        (Inr _, w) \<Rightarrow> flush_sinks env sinks w
      | (Inl e, w) \<Rightarrow>
          (case handle_exception env e w of
             (Inl e, w) \<Rightarrow> (Inl e, w)
           | (Inr _, w) \<Rightarrow> flush_sinks env sinks w))"

definition core_flush :: "('a, 'v, 'w, 'e) core_env \<Rightarrow> 'a core_state \<Rightarrow> 'w \<Rightarrow> ('e + unit) \<times> 'w" where
  "core_flush env c w =
     flush_sinks env (if core_sinks c \<noteq> [] then core_sinks c else [core_default_sink c]) w"

end
