(* ===== verification/Core_Properties.thy ===== *)
theory Core_Properties
  imports Attribute_Values Logging_Core "HOL-Library.Multiset" "HOL-Library.Sublist"
begin

text \<open>
  Correctness of the logging core: which sinks a record is opened for, what values it holds, and that pushing it
  reaches every accepting sink exactly once. The statements hold for arbitrary sinks, filters and exception
  handlers unless they say otherwise.
\<close>

section \<open>Pushing a record\<close>

definition offered :: "'w push_state \<Rightarrow> sink multiset" where
  "offered st = mset (map fst (ps_log st)) + mset (ps_live st)"

definition push_inv :: "('a, 'v, 'w, 'e) core_env \<Rightarrow> 'w push_state \<Rightarrow> 'w push_state \<Rightarrow> bool" where
  "push_inv env st st' \<longleftrightarrow> offered st' = offered st \<and>
     (env_handler env = None \<longrightarrow> list_all snd (ps_log st) \<longrightarrow> list_all snd (ps_log st'))"

lemma push_inv_refl [simp]: "push_inv env st st"
  by (simp add: push_inv_def)

lemma push_inv_trans: "push_inv env a b \<Longrightarrow> push_inv env b c \<Longrightarrow> push_inv env a c"
  by (simp add: push_inv_def)

lemma push_inv_world [simp]: "push_inv env st (st'\<lparr>ps_world := w\<rparr>) = push_inv env st st'"
  by (simp add: push_inv_def offered_def)

lemma mset_take_out: "i < length xs \<Longrightarrow> add_mset (xs ! i) (mset (take_out i xs)) = mset xs"
proof -
  assume i: "i < length xs"
  let ?ys = "xs[i := last xs]"
  have ne: "?ys \<noteq> []" "xs \<noteq> []" using i by auto
  have "last ?ys = last xs" using ne i by (simp add: last_conv_nth nth_list_update)
  then have "add_mset (last xs) (mset (butlast ?ys)) = mset ?ys"
    using append_butlast_last_id [OF ne(1)] by (metis mset.simps(2) mset_append union_mset_add_mset_right add.right_neutral mset.simps(1))
  also have "\<dots> = add_mset (last xs) (mset xs - {#xs ! i#})" using i by (simp add: mset_update)
  finally show ?thesis using i by (simp add: take_out_def)
qed

lemma push_inv_done:
  "i < length (ps_live st) \<Longrightarrow> b \<or> env_handler env \<noteq> None \<Longrightarrow> push_inv env st (sink_done i b st)"
  using mset_take_out [of i "ps_live st"] by (auto simp: push_inv_def offered_def sink_done_def)

lemma push_inv_pass:
  "try_consume_pass env i al st = (x, al', st') \<Longrightarrow> push_inv env st st'"
proof (induction env i al st rule: try_consume_pass.induct)
  case (1 env i al st)
  show ?case
  proof (cases "i < length (ps_live st)")
    case False
    then show ?thesis using "1.prems" by (subst (asm) try_consume_pass.simps) auto
  next
    case True
    obtain r w where r: "env_try_consume env (ps_live st ! i) (ps_world st) = (r, w)" by (metis surj_pair)
    have d: "push_inv env st (sink_done i True (st\<lparr>ps_world := w\<rparr>))"
      using push_inv_done [of i "st\<lparr>ps_world := w\<rparr>" True env] True
        push_inv_trans [of env st "st\<lparr>ps_world := w\<rparr>"] by simp
    consider e where "r = Inl e" | "r = Inr True" | "r = Inr False" by (cases r) auto
    then show ?thesis
    proof cases
      case 1
      then show ?thesis using "1.prems" r True by (subst (asm) try_consume_pass.simps) auto
    next
      case 2
      then show ?thesis using "1.prems" r True "1.IH"(1) [OF True r [symmetric] 2 refl] push_inv_trans [OF d]
        by (subst (asm) try_consume_pass.simps) simp
    next
      case 3
      then show ?thesis using "1.prems" r True "1.IH"(2) [OF True r [symmetric] 3 refl]
          push_inv_trans [of env st "st\<lparr>ps_world := w\<rparr>"]
        by (subst (asm) try_consume_pass.simps) simp
    qed
  qed
qed

lemma shuffle_loop_mset: "it + n \<le> length xs \<Longrightarrow> mset (fst (shuffle_loop rng it n xs w)) = mset xs"
proof (induction rng it n xs w rule: shuffle_loop.induct)
  case (2 rng it n xs w)
  obtain x w1 where x: "rng w = (x, w1)" by (metis surj_pair)
  let ?p = "x mod (it + 1)"
  have "?p < it + 1" by simp
  also have "\<dots> \<le> length xs" using 2(2) by simp
  finally have p: "?p < length xs" "it < length xs" using 2(2) by simp_all
  have "mset (xs[?p := xs ! it, it := xs ! ?p]) = mset xs" using p mset_swap [of it xs ?p] by (simp add: list_update_swap)
  then show ?case using 2 x by (simp add: Let_def)
qed simp

lemma random_shuffle_mset: "random_shuffle rng xs w = (ys, w') \<Longrightarrow> mset ys = mset xs"
proof (cases xs)
  case (Cons a xs')
  then show "random_shuffle rng xs w = (ys, w') \<Longrightarrow> mset ys = mset xs"
    using shuffle_loop_mset [of 1 "length xs - 1" xs rng w] by (simp add: random_shuffle_def)
qed (simp add: random_shuffle_def)

definition push_ends :: "('a, 'v, 'w, 'e) core_env \<Rightarrow> 'e + unit \<Rightarrow> 'w push_state \<Rightarrow> bool" where
  "push_ends env x st \<longleftrightarrow>
     (case x of Inr _ \<Rightarrow> ps_live st = []
      | Inl e \<Rightarrow> ps_live st \<noteq> [] \<and> (\<exists>e0 w. fst (handle_exception env e0 w) = Inl e))"

lemma handled: "handle_exception env e w = (Inr u, w') \<Longrightarrow> env_handler env \<noteq> None"
  by (auto simp: handle_exception_def split: option.splits)

lemma push_inv_live:
  "push_inv env st st1 \<Longrightarrow> mset live = mset (ps_live st1) \<Longrightarrow> push_inv env st (st1\<lparr>ps_live := live, ps_world := w\<rparr>)"
  by (simp add: push_inv_def offered_def)

lemma push_blocked:
  assumes inv: "push_inv env st st1" and m: "mset live = mset (ps_live st1)" and ne: "ps_live st1 \<noteq> []"
    and run: "(case env_consume env (live ! 0) w of
                 (Inl e, w) \<Rightarrow>
                   (case handle_exception env e w of
                      (Inl e, w) \<Rightarrow> (Inl e, st1\<lparr>ps_live := live, ps_world := w\<rparr>)
                    | (Inr _, w) \<Rightarrow> push_loop env 0 True (sink_done 0 False (st1\<lparr>ps_live := live, ps_world := w\<rparr>)))
               | (Inr _, w) \<Rightarrow>
                   push_loop env 0 True (sink_done 0 True (st1\<lparr>ps_live := live, ps_world := w\<rparr>))) = (x, st')"
    and step: "\<And>b w. push_loop env 0 True (sink_done 0 b (st1\<lparr>ps_live := live, ps_world := w\<rparr>)) = (x, st') \<Longrightarrow>
               push_inv env st (sink_done 0 b (st1\<lparr>ps_live := live, ps_world := w\<rparr>)) \<Longrightarrow>
               push_inv env st st' \<and> push_ends env x st'"
  shows "push_inv env st st' \<and> push_ends env x st'"
proof -
  have ne': "live \<noteq> []" using m ne by (metis mset_zero_iff)
  have d: "push_inv env st (sink_done 0 b (st1\<lparr>ps_live := live, ps_world := w'\<rparr>))"
    if "b \<or> env_handler env \<noteq> None" for b w'
    using push_inv_trans [OF push_inv_live [OF inv m, of w'] push_inv_done [OF _ that]] ne' by simp
  obtain r w1 where r: "env_consume env (live ! 0) w = (r, w1)" by (metis surj_pair)
  show ?thesis
  proof (cases r)
    case (Inr u)
    then show ?thesis using run r step [OF _ d] by simp
  next
    case (Inl e)
    obtain h w2 where h: "handle_exception env e w1 = (h, w2)" by (metis surj_pair)
    show ?thesis
    proof (cases h)
      case (Inr u)
      then show ?thesis using run r h Inl step [OF _ d] handled [of env e] by auto
    next
      case (Inl e')
      then have "x = Inl e'" "st' = st1\<lparr>ps_live := live, ps_world := w2\<rparr>" using run r h \<open>r = Inl e\<close> by simp_all
      then show ?thesis using push_inv_live [OF inv m] ne' h Inl
        by (auto simp: push_ends_def intro!: exI [of _ e] exI [of _ w1])
    qed
  qed
qed

lemma push_loop_inv:
  "push_loop env it shuffled st = (x, st') \<Longrightarrow> push_inv env st st' \<and> push_ends env x st'"
proof (induction "length (ps_live st)" arbitrary: it shuffled st rule: less_induct)
  case (less st)
  obtain r al st1 where r: "try_consume_pass env it True st = (r, al, st1)" by (metis prod_cases3)
  note pinv = push_inv_pass [OF r]
  note run = less.prems [unfolded push_loop.simps [of env it] r]
  have step: "push_inv env st st' \<and> push_ends env x st'"
    if "push_loop env i sh st2 = (x, st')" "push_inv env st st2" "length (ps_live st2) < length (ps_live st)" for i sh st2
    using less.hyps [OF that(3,1)] push_inv_trans [OF that(2)] by blast
  show ?case
  proof (cases r)
    case (Some ej)
    obtain e j where ej: "ej = (e, j)" by force
    have j: "j < length (ps_live st1)" using try_consume_pass_length [OF r] Some ej by simp
    obtain h w where h: "handle_exception env e (ps_world st1) = (h, w)" by (metis surj_pair)
    show ?thesis
    proof (cases h)
      case (Inl e')
      then have "x = Inl e'" "st' = st1\<lparr>ps_world := w\<rparr>" using run Some ej h by simp_all
      then show ?thesis using pinv j h Inl by (auto simp: push_ends_def intro!: exI [of _ e] exI [of _ "ps_world st1"])
    next
      case (Inr u)
      let ?st = "sink_done j False (st1\<lparr>ps_world := w\<rparr>)"
      have "push_inv env st ?st"
        using push_inv_done [of j "st1\<lparr>ps_world := w\<rparr>" False env] j pinv handled [of env e] h Inr
          push_inv_trans [of env st "st1\<lparr>ps_world := w\<rparr>" ?st] by simp
      moreover have "push_loop env j shuffled ?st = (x, st')" using run Some ej h Inr by simp
      ultimately show ?thesis using step failed_sink_shrinks r Some ej by metis
    qed
  next
    case None
    consider "ps_live st1 = []" | "ps_live st1 \<noteq> []" "\<not> al" | "ps_live st1 \<noteq> []" al by blast
    then show ?thesis
    proof cases
      case 1
      then show ?thesis using run None pinv by (auto simp: push_ends_def)
    next
      case 2
      then have "push_loop env 0 shuffled st1 = (x, st')" using run None by simp
      moreover have "length (ps_live st1) < length (ps_live st)"
        using unlocked_pass_shrinks [of st1 env it st] r None 2 by simp
      ultimately show ?thesis using step [OF _ pinv] by blast
    next
      case 3
      obtain live w where l: "(live, w) = (if shuffled then (ps_live st1, ps_world st1)
          else random_shuffle (env_random env) (ps_live st1) (ps_world st1))" by (metis surj_pair)
      then have m: "mset live = mset (ps_live st1)" by (auto split: if_splits dest: random_shuffle_mset [OF sym])
      show ?thesis
        using push_blocked [OF pinv m 3(1), of w x st'] run 3 None l [symmetric] r [symmetric]
          step [OF _ _ consumed_sink_shrinks [OF _ 3(1) l, of al env it st]] by simp
    qed
  qed
qed

lemma record_lock_sinks [simp]: "pd_sinks (record_lock env r) = pd_sinks r"
  by (simp add: record_lock_def)

lemma push_record_cases:
  assumes "push_record env alive r w = (x, log, w')"
  obtains x1 st where "push_inv env \<lparr>ps_live = filter alive (pd_sinks r), ps_log = [], ps_world = w\<rparr> st"
    "push_ends env x1 st" "log = ps_log st"
    "(x, w') = (case x1 of Inr _ \<Rightarrow> (Inr (), ps_world st) | Inl e \<Rightarrow> handle_exception env e (ps_world st))"
proof -
  let ?live = "filter alive (pd_sinks r)"
  obtain x1 st where st: "push_loop env 0 (length ?live \<le> 1) \<lparr>ps_live = ?live, ps_log = [], ps_world = w\<rparr> = (x1, st)"
    by (metis surj_pair)
  show ?thesis
    using that [of st x1] push_loop_inv [OF st] assms st
    by (auto simp: push_record_def Let_def split: sum.splits prod.splits)
qed

text \<open>
  C13. With an exception handler that returns normally, pushing a record always ends normally and offers the
  record exactly once to every sink that accepted it and still exists, whatever the sinks answer to
  \<open>try_consume\<close>, whichever of them throw, and whatever the random numbers are.
\<close>

theorem push_record_each_sink_once:
  assumes "\<And>e w. fst (handle_exception env e w) = Inr ()"
    and "push_record env alive r w = (x, log, w')"
  shows "x = Inr () \<and> mset (map fst log) = mset (filter alive (pd_sinks r))"
proof (rule push_record_cases [OF assms(2)])
  fix x1 st assume a: "push_inv env \<lparr>ps_live = filter alive (pd_sinks r), ps_log = [], ps_world = w\<rparr> st"
    "push_ends env x1 st" "log = ps_log st"
    "(x, w') = (case x1 of Inr _ \<Rightarrow> (Inr (), ps_world st) | Inl e \<Rightarrow> handle_exception env e (ps_world st))"
  then show ?thesis using assms(1)
    by (cases x1) (auto simp: push_ends_def push_inv_def offered_def)
qed

text \<open>
  C14. Without an exception handler, an exception of a sink leaves the function, and then every sink that was done
  with the record before has consumed it and the record was not offered to all of the sinks. When the function
  returns, every sink has consumed the record.
\<close>

theorem push_record_without_handler:
  assumes "env_handler env = None" and "push_record env alive r w = (x, log, w')"
  shows "list_all snd log \<and>
    (if x = Inr () then mset (map fst log) = mset (filter alive (pd_sinks r))
     else mset (map fst log) \<subset># mset (filter alive (pd_sinks r)))"
proof (rule push_record_cases [OF assms(2)])
  fix x1 st assume a: "push_inv env \<lparr>ps_live = filter alive (pd_sinks r), ps_log = [], ps_world = w\<rparr> st"
    "push_ends env x1 st" "log = ps_log st"
    "(x, w') = (case x1 of Inr _ \<Rightarrow> (Inr (), ps_world st) | Inl e \<Rightarrow> handle_exception env e (ps_world st))"
  have l: "mset (filter alive (pd_sinks r)) = mset (map fst log) + mset (ps_live st)"
    using a(1,3) by (simp add: push_inv_def offered_def)
  show ?thesis
  proof (cases x1)
    case (Inl e)
    then have "x = Inl e" "ps_live st \<noteq> []" using a(2,4) assms(1) by (auto simp: push_ends_def handle_exception_def)
    then have "mset (map fst log) \<subset># mset (filter alive (pd_sinks r))" unfolding l by (simp add: subset_mset_def)
    then show ?thesis using a(1,3) assms(1) \<open>x = Inl e\<close> by (simp add: push_inv_def)
  next
    case (Inr u)
    then show ?thesis using a l assms(1) by (auto simp: push_ends_def push_inv_def)
  qed
qed

section \<open>Opening a record\<close>

text \<open>
  Filters receive the values of the record as a constant set and look values up in it, which may acquire them.
  A \<open>query\<close> is a filter that answers by what its lookups return: it looks names up one after another, each choice
  depending on the values it has seen, may have effects of its own on the world, and ends with an answer or an
  exception. \<open>run_query\<close> runs it on a value set, \<open>eval_query\<close> gives its answer for known values.
\<close>

datatype ('v, 'w, 'e) query =
    Answer bool
  | Throw 'e
  | Ask u32 "'v option \<Rightarrow> ('v, 'w, 'e) query"
  | Effect "'w \<Rightarrow> 'w" "('v, 'w, 'e) query"

primrec run_query ::
  "('a, 'v, 'w) get_value \<Rightarrow> ('v, 'w, 'e) query \<Rightarrow> ('a, 'v) attribute_value_set \<Rightarrow> 'w \<Rightarrow>
   ('e + bool) \<times> ('a, 'v) attribute_value_set \<times> 'w"
where
  "run_query gv (Answer b) v w = (Inr b, v, w)"
| "run_query gv (Throw e) v w = (Inl e, v, w)"
| "run_query gv (Ask key q) v w =
     (let (r, v, w) = vs_find gv key v w in run_query gv (q (map_option (fst \<circ> n_data) r)) v w)"
| "run_query gv (Effect f q) v w = run_query gv q v (f w)"

primrec eval_query :: "('v, 'w, 'e) query \<Rightarrow> (u32 \<Rightarrow> 'v option) \<Rightarrow> 'e + bool" where
  "eval_query (Answer b) V = Inr b"
| "eval_query (Throw e) V = Inl e"
| "eval_query (Ask key q) V = eval_query (q (V key)) V"
| "eval_query (Effect f q) V = eval_query q V"

text \<open>
  \<open>grows gv att v v'\<close>: the set \<open>v'\<close> stands for the same attributes as \<open>v\<close>, keeps the values of \<open>v\<close>, and has only
  values that were acquired from the attributes.
\<close>

definition grows ::
  "('a, 'v, 'w) get_value \<Rightarrow> (u32 \<Rightarrow> 'a option) \<Rightarrow> ('a, 'v) attribute_value_set \<Rightarrow> ('a, 'v) attribute_value_set \<Rightarrow> bool"
where
  "grows gv att v v' \<longleftrightarrow> (stands_for att v \<and> acquired_from gv att (vs_map v) \<longrightarrow>
     stands_for att v' \<and> acquired_from gv att (vs_map v') \<and> vs_map v \<subseteq>\<^sub>m vs_map v')"

lemma grows_refl [simp]: "grows gv att v v"
  by (simp add: grows_def)

lemma grows_trans: "grows gv att u v \<Longrightarrow> grows gv att v v' \<Longrightarrow> grows gv att u v'"
  unfolding grows_def by (meson map_le_trans)

lemma grows_find: "vs_find gv key v w = (r, v', w') \<Longrightarrow> grows gv att v v'"
  using vs_find_acquires(1,2) acquires_from acquires_map_le unfolding grows_def by (metis fst_conv)

lemma grows_freeze: "vs_freeze gv v w = (v', w') \<Longrightarrow> grows gv att v v'"
  using vs_freeze_acquires(1,2) acquires_from acquires_map_le unfolding grows_def by (metis fst_conv)

lemma run_query_grows: "run_query gv q v w = (x, v', w') \<Longrightarrow> grows gv att v v'"
proof (induction q arbitrary: v w)
  case (Ask key q)
  obtain r v1 w1 where f: "vs_find gv key v w = (r, v1, w1)" by (metis prod_cases3)
  then have "grows gv att v1 v'" using Ask.IH [of "q (map_option (fst \<circ> n_data) r)" v1 w1] Ask.prems by simp
  then show ?case using grows_find [OF f] grows_trans by blast
qed auto

text \<open>What a query has answered stays its answer for every extension of the values it has acquired.\<close>

lemma run_query_eval:
  assumes "run_query gv q v w = (x, v', w')" "stands_for att v" "acquired_from gv att (vs_map v)"
    and "vs_map v' \<subseteq>\<^sub>m V" "dom V = dom att"
  shows "eval_query q V = x"
  using assms(1-3)
proof (induction q arbitrary: v w)
  case (Ask key q)
  obtain r v1 w1 where f: "vs_find gv key v w = (r, v1, w1)" by (metis prod_cases3)
  note a = vs_find_acquires [OF Ask.prems(2) f]
  let ?q = "q (map_option (fst \<circ> n_data) r)"
  have run: "run_query gv ?q v1 w1 = (x, v', w')" using Ask.prems(1) f by simp
  have ok: "stands_for att v1" "acquired_from gv att (vs_map v1)"
    using grows_find [OF f, of att] Ask.prems(2,3) by (simp_all add: grows_def)
  then have "vs_map v1 \<subseteq>\<^sub>m V"
    using run_query_grows [OF run, of att] assms(4) unfolding grows_def by (meson map_le_trans)
  then have "V key = map_option (fst \<circ> n_data) r"
    using a(3,4) assms(5) by (cases "vs_map v1 key") (metis domIff, metis domI map_le_def)
  then show ?case using Ask.IH [OF _ run ok] by simp
qed simp_all

definition record_matches ::
  "('a, 'v, 'w, 'e) core_env \<Rightarrow> sink list \<Rightarrow> nat \<Rightarrow> (sink list \<times> nat \<times> bool) option \<Rightarrow> bool"
where
  "record_matches env xs n r \<longleftrightarrow>
     (case r of
        None \<Rightarrow> xs = []
      | Some (sinks, capacity, detach) \<Rightarrow>
          sinks = xs \<and> xs \<noteq> [] \<and> length xs + n \<le> capacity \<and> detach = (\<exists>s \<in> set xs. env_cross_thread env s))"

text \<open>
  While the sinks are asked: the values stand for the attributes, and the record lists the sinks of \<open>seen\<close> whose
  answer was positive. \<open>answers\<close> says that the filters of the sinks in \<open>seen\<close> did not let an exception out and that
  \<open>xs\<close> are those that accept, for every extension of the values acquired so far.
\<close>

definition answers ::
  "(sink \<Rightarrow> ('v, 'w, 'e) query) \<Rightarrow> (u32 \<Rightarrow> 'a option) \<Rightarrow> (u32 \<Rightarrow> 'v option) \<Rightarrow> sink list \<Rightarrow> sink list \<Rightarrow> bool"
where
  "answers qs att U seen xs \<longleftrightarrow>
     (\<forall>V. U \<subseteq>\<^sub>m V \<longrightarrow> dom V = dom att \<longrightarrow> xs = filter (\<lambda>s. eval_query (qs s) V = Inr True) seen)"

definition open_ok ::
  "('a, 'v, 'w, 'e) core_env \<Rightarrow> (sink \<Rightarrow> ('v, 'w, 'e) query) \<Rightarrow> (u32 \<Rightarrow> 'a option) \<Rightarrow> sink list \<Rightarrow> sink list \<Rightarrow> nat \<Rightarrow>
   ('a, 'v, 'w) open_state \<Rightarrow> bool"
where
  "open_ok env qs att seen xs n st \<longleftrightarrow>
     stands_for att (o_values st) \<and> acquired_from (env_get_value env) att (vs_map (o_values st)) \<and>
     answers qs att (vs_map (o_values st)) seen xs \<and> record_matches env xs n (o_record st)"

text \<open>The exception \<open>e\<close> that the handler let out was thrown by a query, for every extension of the values.\<close>

definition let_out ::
  "('a, 'v, 'w, 'e) core_env \<Rightarrow> (u32 \<Rightarrow> 'a option) \<Rightarrow> (u32 \<Rightarrow> 'v option) \<Rightarrow> ('v, 'w, 'e) query \<Rightarrow> 'e \<Rightarrow> bool"
where
  "let_out env att U q e \<longleftrightarrow>
     (\<exists>e0 w w'. handle_exception env e0 w = (Inl e, w') \<and>
        (\<forall>V. U \<subseteq>\<^sub>m V \<longrightarrow> dom V = dom att \<longrightarrow> eval_query q V = Inl e0))"

definition sinks_asked ::
  "('a, 'v, 'w, 'e) core_env \<Rightarrow> (sink \<Rightarrow> ('v, 'w, 'e) query) \<Rightarrow> (u32 \<Rightarrow> 'a option) \<Rightarrow> sink list \<Rightarrow> nat \<Rightarrow>
   'e + unit \<Rightarrow> ('a, 'v, 'w) open_state \<Rightarrow> bool"
where
  "sinks_asked env qs att seen n r st \<longleftrightarrow>
     (case r of
        Inr _ \<Rightarrow> (\<exists>xs. open_ok env qs att seen xs n st)
      | Inl e \<Rightarrow>
          stands_for att (o_values st) \<and> acquired_from (env_get_value env) att (vs_map (o_values st)) \<and>
          (\<exists>s \<in> set seen. let_out env att (vs_map (o_values st)) (qs s) e))"

lemma apply_sink_filter_ok:
  assumes q: "env_will_consume env s = run_query (env_get_value env) (qs s)"
    and ok: "open_ok env qs att seen xs (Suc n) st"
    and ap: "apply_sink_filter env s (Suc n) st = (r, st')"
  shows "sinks_asked env qs att (seen @ [s]) n r st' \<and> vs_map (o_values st) \<subseteq>\<^sub>m vs_map (o_values st')"
proof -
  let ?gv = "env_get_value env"
  have v: "stands_for att (o_values st)" "acquired_from ?gv att (vs_map (o_values st))"
    "answers qs att (vs_map (o_values st)) seen xs" "record_matches env xs (Suc n) (o_record st)"
    using ok by (simp_all add: open_ok_def)
  obtain x v' w' where run: "run_query ?gv (qs s) (o_values st) (o_world st) = (x, v', w')" by (metis prod_cases3)
  have v': "stands_for att v'" "acquired_from ?gv att (vs_map v')" and le: "vs_map (o_values st) \<subseteq>\<^sub>m vs_map v'"
    using run_query_grows [OF run, of att] v(1,2) by (simp_all add: grows_def)
  note ev = run_query_eval [OF run v(1,2)]
  have old: "answers qs att (vs_map v') seen xs" using v(3) le unfolding answers_def by (meson map_le_trans)
  show ?thesis
  proof (cases x)
    case (Inl e0)
    obtain r1 w1 where h: "handle_exception env e0 w' = (r1, w1)" by (metis surj_pair)
    have "answers qs att (vs_map v') (seen @ [s]) xs" using old ev Inl by (simp add: answers_def)
    moreover have "r = r1" "o_record st' = o_record st" "o_values st' = v'"
      using ap run Inl h by (auto simp: apply_sink_filter_def q)
    ultimately show ?thesis
      using v' v(4) h le ev Inl
      by (cases r1) (auto simp: sinks_asked_def open_ok_def let_out_def record_matches_def split: option.splits)
  next
    case (Inr b)
    let ?xs = "xs @ (if b then [s] else [])"
    have "answers qs att (vs_map v') (seen @ [s]) ?xs" using old ev Inr by (simp add: answers_def)
    moreover have "r = Inr ()" "o_values st' = v'" "record_matches env ?xs n (o_record st')"
      using ap run Inr v(4)
      by (auto simp: apply_sink_filter_def q Let_def record_matches_def push_back_accepting_sink_def
          split: if_splits option.splits)
    ultimately show ?thesis using v' le by (auto simp: sinks_asked_def open_ok_def)
  qed
qed

lemma apply_sink_filters_ok:
  assumes q: "\<And>s. env_will_consume env s = run_query (env_get_value env) (qs s)"
    and "open_ok env qs att seen xs (length sinks) st" "apply_sink_filters env sinks st = (r, st')"
  shows "sinks_asked env qs att (seen @ sinks) 0 r st' \<and> vs_map (o_values st) \<subseteq>\<^sub>m vs_map (o_values st')"
  using assms(2,3)
proof (induction sinks arbitrary: seen xs st)
  case (Cons s sinks)
  obtain r1 st1 where st1: "apply_sink_filter env s (Suc (length sinks)) st = (r1, st1)" by (metis surj_pair)
  note a = apply_sink_filter_ok [OF q Cons.prems(1) [unfolded list.size add_Suc_right add_0_right] st1]
  show ?case
  proof (cases r1)
    case (Inl e)
    then show ?thesis using a Cons.prems(2) st1 by (auto simp: sinks_asked_def)
  next
    case (Inr u)
    then obtain xs1 where "open_ok env qs att (seen @ [s]) xs1 (length sinks) st1" using a by (auto simp: sinks_asked_def)
    from Cons.IH [OF this] Cons.prems(2) st1 Inr a show ?thesis by (auto intro: map_le_trans)
  qed
qed (auto simp: sinks_asked_def)

definition asked_sinks :: "'a core_state \<Rightarrow> sink list" where
  "asked_sinks c = (if core_sinks c \<noteq> [] then core_sinks c else [core_default_sink c])"

lemma ask_sinks_ok:
  assumes "\<And>s. env_will_consume env s = run_query (env_get_value env) (qs s)"
    and "stands_for att v" "acquired_from (env_get_value env) att (vs_map v)"
    and "(if core_sinks c \<noteq> [] then apply_sink_filters env (core_sinks c) \<lparr>o_values = v, o_record = None, o_world = w\<rparr>
           else apply_sink_filter env (core_default_sink c) 1 \<lparr>o_values = v, o_record = None, o_world = w\<rparr>) = (r, st)"
  shows "sinks_asked env qs att (asked_sinks c) 0 r st \<and> vs_map v \<subseteq>\<^sub>m vs_map (o_values st)"
proof -
  let ?st = "\<lparr>o_values = v, o_record = None, o_world = w\<rparr>"
  have ok: "open_ok env qs att [] [] n ?st" for n using assms(2,3) by (simp add: open_ok_def record_matches_def answers_def)
  show ?thesis
  proof (cases "core_sinks c = []")
    case True
    then show ?thesis using apply_sink_filter_ok [OF assms(1) ok [of "Suc 0"], of "core_default_sink c" r st] assms(4)
      by (simp add: asked_sinks_def)
  next
    case False
    then show ?thesis using apply_sink_filters_ok [OF assms(1) ok, of "core_sinks c" r st] assms(4)
      by (simp add: asked_sinks_def)
  qed
qed

lemma complete_values:
  assumes "acquired_from gv att U" "stands_for att v" "vs_map v = U"
  shows "\<exists>V. U \<subseteq>\<^sub>m V \<and> dom V = dom att \<and> acquired_from gv att V"
proof -
  let ?V = "(\<lambda>k. map_option (\<lambda>a. fst (gv a undefined)) (att k)) ++ U"
  have "dom U \<subseteq> dom att" using assms(2,3) by (simp add: stands_for_def)
  then have "dom ?V = dom att" unfolding dom_map_add by (auto simp: dom_def)
  moreover have "acquired_from gv att ?V" using assms(1) by (auto simp: acquired_from_def map_add_Some_iff)
  ultimately show ?thesis using map_le_map_add by blast
qed

text \<open>
  The outcome of opening a record for the values \<open>V\<close> of the attributes, when the global filter answers by \<open>qf\<close> and
  the sink \<open>s\<close> by \<open>qs s\<close>.
\<close>

definition open_outcome ::
  "('a, 'v, 'w, 'e) core_env \<Rightarrow> ('v, 'w, 'e) query \<Rightarrow> (sink \<Rightarrow> ('v, 'w, 'e) query) \<Rightarrow> sink list \<Rightarrow> (u32 \<Rightarrow> 'v option) \<Rightarrow>
   'e + ('a, 'v) private_data option \<Rightarrow> bool"
where
  "open_outcome env qf qs sinks V x \<longleftrightarrow>
     (let accepting = filter (\<lambda>s. eval_query (qs s) V = Inr True) sinks
      in case x of
           Inr (Some r) \<Rightarrow>
             eval_query qf V = Inr True \<and> accepting \<noteq> [] \<and> pd_sinks r = accepting \<and>
             length accepting \<le> pd_capacity r \<and> pd_detach r = list_ex (env_cross_thread env) accepting \<and>
             vs_map (pd_values r) = V
         | Inr None \<Rightarrow> eval_query qf V \<noteq> Inr True \<or> accepting = []
         | Inl e \<Rightarrow>
             (\<exists>e0 w w'. handle_exception env e0 w = (Inl e, w') \<and>
                (eval_query qf V = Inl e0 \<or>
                 eval_query qf V = Inr True \<and> list_ex (\<lambda>s. eval_query (qs s) V = Inl e0) sinks)))"

lemma open_asked_outcome:
  assumes asked: "sinks_asked env qs att (asked_sinks c) 0 r st"
    and pass: "\<And>V. vs_map (o_values st) \<subseteq>\<^sub>m V \<Longrightarrow> dom V = dom att \<Longrightarrow> eval_query qf V = Inr True"
    and x: "x = (case r of
        Inl e \<Rightarrow> Inl e
      | Inr _ \<Rightarrow>
          (case o_record st of
             Some ([], _, _) \<Rightarrow> Inr None
           | _ \<Rightarrow>
               (case vs_freeze (env_get_value env) (o_values st) (o_world st) of
                  (v, w) \<Rightarrow>
                    Inr (map_option (\<lambda>(sinks, capacity, detach).
                      \<lparr>pd_values = v, pd_sinks = sinks, pd_capacity = capacity, pd_detach = detach\<rparr>) (o_record st)))))"
  shows "\<exists>V. dom V = dom att \<and> acquired_from (env_get_value env) att V \<and> open_outcome env qf qs (asked_sinks c) V x"
proof (cases r)
  case (Inl e)
  then obtain s where s: "s \<in> set (asked_sinks c)" "let_out env att (vs_map (o_values st)) (qs s) e"
    and v: "stands_for att (o_values st)" "acquired_from (env_get_value env) att (vs_map (o_values st))"
    using asked by (auto simp: sinks_asked_def)
  obtain V where V: "vs_map (o_values st) \<subseteq>\<^sub>m V" "dom V = dom att" "acquired_from (env_get_value env) att V"
    using complete_values [OF v(2,1) refl] by blast
  obtain e0 w w' where "handle_exception env e0 w = (Inl e, w')" "eval_query (qs s) V = Inl e0"
    using s(2) V(1,2) unfolding let_out_def by blast
  then have "open_outcome env qf qs (asked_sinks c) V (Inl e)"
    using s(1) pass [OF V(1,2)] unfolding open_outcome_def Let_def list_ex_iff sum.case by blast
  then show ?thesis using V x Inl by auto
next
  case (Inr u)
  then obtain xs where ok: "open_ok env qs att (asked_sinks c) xs 0 st" using asked by (auto simp: sinks_asked_def)
  then have v: "stands_for att (o_values st)" "acquired_from (env_get_value env) att (vs_map (o_values st))"
    "answers qs att (vs_map (o_values st)) (asked_sinks c) xs" and rec: "record_matches env xs 0 (o_record st)"
    by (simp_all add: open_ok_def)
  obtain v2 w2 where fr: "vs_freeze (env_get_value env) (o_values st) (o_world st) = (v2, w2)" by (metis surj_pair)
  have V: "vs_map (o_values st) \<subseteq>\<^sub>m vs_map v2" "acquired_from (env_get_value env) att (vs_map v2)"
    using grows_freeze [OF fr, of att] v(1,2) by (simp_all add: grows_def)
  note d = vs_freeze_acquires(3) [OF v(1) fr]
  have xs: "xs = filter (\<lambda>s. eval_query (qs s) (vs_map v2) = Inr True) (asked_sinks c)"
    using v(3) V(1) d by (simp add: answers_def)
  have "open_outcome env qf qs (asked_sinks c) (vs_map v2) x"
    using rec x Inr fr pass [OF V(1) d] xs
    by (auto simp: open_outcome_def record_matches_def Let_def list_ex_iff split: option.splits list.splits)
  then show ?thesis using V(2) d by blast
qed

lemma open_record_outcome:
  assumes qf: "env_filter env = run_query (env_get_value env) qf"
    and qs: "\<And>s. env_will_consume env s = run_query (env_get_value env) (qs s)"
    and compose: "compose (core_thread c) (core_global c) w = (v, w0)"
    and v: "stands_for att v" "acquired_from (env_get_value env) att (vs_map v)"
    and op: "open_record env c True compose w = (x, w')" "core_enabled c"
  shows "\<exists>V. dom V = dom att \<and> acquired_from (env_get_value env) att V \<and> open_outcome env qf qs (asked_sinks c) V x"
proof -
  obtain y v1 w1 where run: "run_query (env_get_value env) qf v w0 = (y, v1, w1)" by (metis prod_cases3)
  have v1: "stands_for att v1" "acquired_from (env_get_value env) att (vs_map v1)"
    using run_query_grows [OF run, of att] v by (simp_all add: grows_def)
  note ev = run_query_eval [OF run v]
  obtain r st where st: "(if core_sinks c \<noteq> [] then apply_sink_filters env (core_sinks c) \<lparr>o_values = v1, o_record = None, o_world = w1\<rparr>
           else apply_sink_filter env (core_default_sink c) 1 \<lparr>o_values = v1, o_record = None, o_world = w1\<rparr>) = (r, st)"
    by (metis surj_pair)
  note a = ask_sinks_ok [where qs = qs, OF qs v1 st]
  show ?thesis
  proof (cases "y = Inr True")
    case True
    have pass: "vs_map (o_values st) \<subseteq>\<^sub>m V \<Longrightarrow> dom V = dom att \<Longrightarrow> eval_query qf V = Inr True" for V
      using ev True a by (meson map_le_trans)
    show ?thesis
      by (rule open_asked_outcome [OF conjunct1 [OF a] pass])
        (use op run True st compose in \<open>auto simp: open_record_def qf Let_def split: sum.splits option.splits list.splits prod.splits\<close>)
  next
    case False
    obtain V where V: "vs_map v1 \<subseteq>\<^sub>m V" "dom V = dom att" "acquired_from (env_get_value env) att V"
      using complete_values [OF v1(2,1) refl] by blast
    have "x = Inr None \<or> (\<exists>e0 e w w'. y = Inl e0 \<and> x = Inl e \<and> handle_exception env e0 w = (Inl e, w'))"
      using op run False compose
      by (cases y) (auto simp: open_record_def qf Let_def split: sum.splits prod.splits bool.splits)
    then have "open_outcome env qf qs (asked_sinks c) V x"
      using ev [OF V(1,2)] False unfolding open_outcome_def Let_def by (elim disjE exE conjE) (simp, simp, blast)
    then show ?thesis using V(2,3) by blast
  qed
qed

text \<open>
  C15. Opening a record with source attributes, when the global filter and the sinks answer, or throw, by the
  values they look up; acquiring a value may give different values at different times and have any effect. When
  logging is disabled nothing happens. Otherwise there are values for exactly the names of the source, thread and
  global attributes, each acquired from the attribute of the first of these sets that has the name, such that: a
  record is opened when the global filter passes these values and some sink accepts them; it holds these values,
  lists the accepting sinks in their order within the room that was reserved, and is marked for detaching exactly
  when one of them works across threads. No record is opened only when the filter does not pass the values or no
  sink accepts them, and an exception leaves only when the filter, or a sink after the filter has passed, throws
  on these values and the exception handler lets it out.
\<close>

theorem open_record_correct:
  assumes "as_ok src" "as_ok (core_thread c)" "as_ok (core_global c)"
    and "env_filter env = run_query (env_get_value env) qf"
    and "\<And>s. env_will_consume env s = run_query (env_get_value env) (qs s)"
    and "att = as_map (core_global c) ++ as_map (core_thread c) ++ as_map src"
    and "core_open_record env c enabled0 p src w = (x, w')"
  shows "if enabled0 \<and> core_enabled c
    then \<exists>V. dom V = dom att \<and> acquired_from (env_get_value env) att V \<and> open_outcome env qf qs (asked_sinks c) V x
    else x = Inr None \<and> w' = w"
proof (cases "enabled0 \<and> core_enabled c")
  case True
  let ?v = "vs_from_sets p src (core_thread c) (core_global c) 0"
  note v = vs_from_sets_ok [OF assms(1-3)]
  have ok: "stands_for att ?v" "acquired_from (env_get_value env) att (vs_map ?v)"
    using v(1) assms(6) by (simp_all add: record_attributes_def acquired_from_def v(2))
  have "open_record env c True (\<lambda>thr glob w. (vs_from_sets p src thr glob 0, w)) w = (x, w')"
    using assms(7) True by (simp add: core_open_record_def)
  from open_record_outcome [OF assms(4,5) _ ok this] True show ?thesis by simp
next
  case False
  then have "core_open_record env c enabled0 p src w = (Inr None, w)" by (auto simp: core_open_record_def open_record_def)
  then show ?thesis using False assms(7) by auto
qed

section \<open>Values of rejected records\<close>

lemma length_insert_node:
  fixes s :: "('a, 'b) attribute_value_set"
  shows "length (vs_nodes (snd (insert_node key p v s))) = Suc (length (vs_nodes s))"
proof -
  have split: "length (takeWhile P xs) + length (dropWhile P xs) = length xs" for P and xs :: "'b value_node list"
    by (metis length_append takeWhile_dropWhile_id)
  have 1: "length (insert_before q n ns) = Suc (length ns)" for q n and ns :: "'b value_node list"
    using split [of "\<lambda>m. n_ptr m \<noteq> q" ns] by (simp add: insert_before_def)
  have 2: "length (insert_after q n ns) = Suc (length ns)" for q n and ns :: "'b value_node list"
    using split [of "\<lambda>m. n_ptr m \<noteq> q" ns] by (cases "dropWhile (\<lambda>m. n_ptr m \<noteq> q) ns") (simp_all add: insert_after_def del: dropWhile_eq_Nil_conv)
  have "length (fst (link_node n p b ns)) = Suc (length ns)" for n b and ns :: "'b value_node list"
    by (simp add: link_node_def 1 2 split: option.split)
  then show ?thesis
    by (auto simp: insert_node_def allocate_node_def Let_def split: prod.splits if_splits) (metis fst_conv)+
qed

lemma freeze_fold_count:
  assumes gv: "\<And>a w. gv a w = (f a, Suc w)" and "fold (freeze_from_node gv) ms (s, w) = (s', w')"
  shows "w' + length (vs_nodes s) = w + length (vs_nodes s')"
  using assms(2)
proof (induction ms arbitrary: s w)
  case (Cons m ms)
  obtain s1 w1 where s1: "freeze_from_node gv m (s, w) = (s1, w1)" by (metis surj_pair)
  have "w1 + length (vs_nodes s) = w + length (vs_nodes s1)"
    using s1 by (auto simp: freeze_from_node_def gv Let_def length_insert_node split: if_splits)
  then show ?case using Cons.IH [of s1 w1] Cons.prems s1 by simp
qed simp

lemma freeze_optional_count:
  assumes gv: "\<And>a w. gv a w = (f a, Suc w)" and "freeze_optional gv attrs (s, w) = (s', w')"
  shows "w' + length (vs_nodes s) = w + length (vs_nodes s')"
  using assms(2) freeze_fold_count [OF gv]
  by (cases attrs) (auto simp: freeze_optional_def freeze_nodes_from_def)

lemma vs_freeze_count:
  assumes gv: "\<And>a w. gv a w = (f a, Suc w)" and "vs_freeze gv s w = (s', w')"
  shows "w' + length (vs_nodes s) = w + length (vs_nodes s')"
proof -
  obtain s1 w1 where 1: "freeze_optional gv (vs_source s) (s, w) = (s1, w1)" by (metis surj_pair)
  obtain s2 w2 where 2: "freeze_optional gv (vs_thread s1) (s1\<lparr>vs_source := None\<rparr>, w1) = (s2, w2)" by (metis surj_pair)
  obtain s3 w3 where 3: "freeze_optional gv (vs_global s2) (s2\<lparr>vs_thread := None\<rparr>, w2) = (s3, w3)" by (metis surj_pair)
  have "s' = s3\<lparr>vs_global := None\<rparr>" "w' = w3" using assms(2) 1 2 3 by (simp_all add: vs_freeze_def)
  then show ?thesis
    using freeze_optional_count [OF gv 1] freeze_optional_count [OF gv 2] freeze_optional_count [OF gv 3] by simp
qed

lemma apply_sink_filters_reject:
  assumes "\<And>s v w. env_will_consume env s v w = (Inr False, v, w)"
  shows "apply_sink_filters env sinks st = (Inr (), st)"
  by (induction sinks) (simp_all add: apply_sink_filter_def assms)

text \<open>
  A record that every sink rejects is not opened, yet the values of all its attributes are acquired: with
  attributes that count how often their value is asked for, opening the record counts once per name in the
  source, thread and global sets.
\<close>

theorem open_record_rejected_acquires_values:
  assumes "as_ok src" "as_ok (core_thread c)" "as_ok (core_global c)" "core_enabled c"
    and gv: "\<And>a w. env_get_value env a w = (f a, Suc w)"
    and "\<And>v w. env_filter env v w = (Inr True, v, w)"
    and "\<And>s v w. env_will_consume env s v w = (Inr False, v, w)"
  shows "core_open_record env c True p src w =
    (Inr None, w + card (dom (as_map src) \<union> dom (as_map (core_thread c)) \<union> dom (as_map (core_global c))))"
proof -
  let ?v = "vs_from_sets p src (core_thread c) (core_global c) 0"
  obtain v' w' where fr: "vs_freeze (env_get_value env) ?v w = (v', w')" by (metis surj_pair)
  note v = vs_from_sets_ok [OF assms(1-3)]
  note fz = vs_freeze_acquires(1,3) [OF v(1) fr]
  have "w' = w + length (vs_nodes v')"
    using vs_freeze_count [OF gv fr] by (simp add: vs_from_sets_def vs_create_def)
  also have "length (vs_nodes v') = card (dom (vs_map v'))"
  proof -
    have "dom (vs_map v') = n_key ` set (vs_nodes v')"
      by (auto simp: vs_map_def dom_def table_map_None)
    then show ?thesis using table_length [of "vs_nodes v'" "vs_buckets v'"] fz(1) by (simp add: stands_for_def vs_ok_def)
  qed
  also have "dom (vs_map v') = dom (as_map src) \<union> dom (as_map (core_thread c)) \<union> dom (as_map (core_global c))"
    unfolding fz(2) record_attributes_def by auto
  finally show ?thesis
    using fr assms(4,6,7) apply_sink_filters_reject [OF assms(7)]
    by (simp add: core_open_record_def open_record_def apply_sink_filter_def Let_def)
qed

section \<open>Registered sinks\<close>

datatype sink_op = Add_Sink sink | Remove_Sink sink | Remove_All_Sinks

fun run_sink_op :: "sink_op \<Rightarrow> 'a core_state \<Rightarrow> 'a core_state" where
  "run_sink_op (Add_Sink s) c = add_sink s c"
| "run_sink_op (Remove_Sink s) c = remove_sink s c"
| "run_sink_op Remove_All_Sinks c = remove_all_sinks c"

lemma distinct_sinks: "distinct (core_sinks c) \<Longrightarrow> distinct (core_sinks (fold run_sink_op ops c))"
proof (induction ops arbitrary: c)
  case (Cons x ops)
  have "distinct (core_sinks (run_sink_op x c))"
    using Cons.prems by (cases x) (simp_all add: add_sink_def remove_sink_def remove_all_sinks_def)
  then show ?case using Cons.IH by simp
qed simp

definition record_sinks :: "('a, 'v, 'w) open_state \<Rightarrow> sink list" where
  "record_sinks st = (case o_record st of None \<Rightarrow> [] | Some (sinks, _, _) \<Rightarrow> sinks)"

lemma apply_sink_filter_subseq:
  "apply_sink_filter env s n st = (x, st') \<Longrightarrow> record_sinks st' \<in> {record_sinks st, record_sinks st @ [s]}"
  by (auto simp: apply_sink_filter_def record_sinks_def push_back_accepting_sink_def Let_def
      split: prod.splits sum.splits if_splits option.splits)

lemma apply_sink_filters_subseq:
  "apply_sink_filters env sinks st = (x, st') \<Longrightarrow>
   \<exists>ys. subseq ys sinks \<and> record_sinks st' = record_sinks st @ ys"
proof (induction sinks arbitrary: st)
  case (Cons s sinks)
  obtain x1 st1 where st1: "apply_sink_filter env s (length (s # sinks)) st = (x1, st1)" by (metis surj_pair)
  note c = apply_sink_filter_subseq [OF st1]
  show ?case
  proof (cases x1)
    case (Inl e)
    then have "record_sinks st' = record_sinks st1" using Cons.prems st1 by simp
    then show ?thesis using c by auto
  next
    case (Inr u)
    then obtain ys where "subseq ys sinks" "record_sinks st' = record_sinks st1 @ ys"
      using Cons.IH [of st1] Cons.prems st1 by auto
    then show ?thesis using c by auto
  qed
qed (simp add: record_sinks_def)

lemma subseq_distinct: "subseq xs ys \<Longrightarrow> distinct ys \<Longrightarrow> distinct xs"
  by (induction rule: list_emb.induct) (auto dest: list_emb_set)

lemma submultiset_distinct:
  assumes "mset xs \<subseteq># mset ys" "distinct ys"
  shows "distinct xs"
  unfolding distinct_count_atmost_1
proof
  fix a
  have "count (mset xs) a \<le> 1"
    using mset_subset_eq_count [OF assms(1), of a] assms(2) distinct_count_atmost_1 [of ys] by (metis le_trans le_numeral_extra(4) zero_le_one)
  moreover have "0 < count (mset xs) a \<longleftrightarrow> a \<in> set xs" by (simp add: count_greater_zero_iff del: count_mset)
  ultimately show "count (mset xs) a = (if a \<in> set xs then 1 else 0)"
    by (metis One_nat_def Suc_leI le_antisym not_gr_zero)
qed

lemma open_record_subseq:
  assumes "open_record env c enabled0 compose w = (Inr (Some r), w')"
  shows "subseq (pd_sinks r) (asked_sinks c)"
proof -
  obtain st0 x st where st: "(if core_sinks c \<noteq> [] then apply_sink_filters env (core_sinks c) st0
      else apply_sink_filter env (core_default_sink c) 1 st0) = (x, st)" "o_record st0 = None"
    "\<exists>cap d. o_record st = Some (pd_sinks r, cap, d)"
    using assms
    by (fastforce simp: open_record_def Let_def split: if_splits prod.splits sum.splits bool.splits option.splits list.splits)
  then have r: "record_sinks st = pd_sinks r" "record_sinks st0 = []" by (auto simp: record_sinks_def)
  show ?thesis
  proof (cases "core_sinks c = []")
    case True
    then show ?thesis using st(1) r apply_sink_filter_subseq [of env "core_default_sink c" 1 st0 x st]
      by (auto simp: asked_sinks_def)
  next
    case False
    then show ?thesis using st(1) r apply_sink_filters_subseq [of env "core_sinks c" st0 x st]
      by (auto simp: asked_sinks_def)
  qed
qed

text \<open>
  C16. After any registrations and removals of sinks, no sink is given a record twice and only registered sinks,
  or the default sink when there are none, are given it, whatever the filters, the sinks and the exception
  handler do.
\<close>

theorem sink_given_record_once:
  assumes "c = fold run_sink_op ops c0" "core_sinks c0 = []"
    and "core_open_record env c enabled0 p src w = (Inr (Some r), w1)"
    and "push_record env alive r w2 = (x, log, w3)"
  shows "distinct (map fst log) \<and> set (map fst log) \<subseteq> set (asked_sinks c)"
proof (rule push_record_cases [OF assms(4)])
  fix x1 st assume "push_inv env \<lparr>ps_live = filter alive (pd_sinks r), ps_log = [], ps_world = w2\<rparr> st" "log = ps_log st"
  then have m: "mset (map fst log) \<subseteq># mset (filter alive (pd_sinks r))"
    by (auto simp: push_inv_def offered_def) (metis mset_subset_eq_add_left)+
  have s: "subseq (pd_sinks r) (asked_sinks c)"
    using open_record_subseq assms(3) unfolding core_open_record_def by metis
  have "distinct (asked_sinks c)" using distinct_sinks [of c0 ops] assms(1,2) by (simp add: asked_sinks_def)
  then have "distinct (filter alive (pd_sinks r))" using s subseq_distinct distinct_filter by blast
  then have "distinct (map fst log)" using submultiset_distinct [OF m] by blast
  moreover have "set (map fst log) \<subseteq> set (pd_sinks r)" using set_mset_mono [OF m] by auto
  moreover have "set (pd_sinks r) \<subseteq> set (asked_sinks c)" using s by (auto dest: list_emb_set)
  ultimately show ?thesis by blast
qed

section \<open>Witnesses\<close>

text \<open>
  Three sinks that accept a record with a value for the name 5: the first is busy, the second throws, the third
  consumes the record at once. The handler notes the exception in the world.
\<close>

definition logged :: "(string, string, string list) get_value" where
  "logged a w = (a, w @ [a])"

definition demo_query :: "sink \<Rightarrow> (string, string list, string) query" where
  "demo_query s = Ask 5 (\<lambda>r. if s = 4 then Throw ''e4'' else Answer (r \<noteq> None))"

definition demo_env :: "(string, string, string list, string) core_env" where
  "demo_env =
     \<lparr>env_get_value = logged,
      env_filter = run_query logged (Answer True),
      env_will_consume = (\<lambda>s. run_query logged (demo_query s)),
      env_cross_thread = (\<lambda>s. s = 2),
      env_try_consume = (\<lambda>s w. if s = 1 then (Inr False, w) else if s = 2 then (Inl ''e2'', w) else (Inr True, w)),
      env_consume = (\<lambda>s w. (Inr (), ''consumed'' # w)),
      env_flush = (\<lambda>s w. (Inr (), w)),
      env_handler = Some (\<lambda>e w. (Inr (), e # w)),
      env_detach = (\<lambda>v. v),
      env_random = (\<lambda>w. (length w, w))\<rparr>"

definition demo_core :: "string core_state" where
  "demo_core = fold run_sink_op [Add_Sink 1, Add_Sink 5, Add_Sink 2, Add_Sink 1, Add_Sink 3, Add_Sink 4, Remove_Sink 5]
     \<lparr>core_sinks = [], core_default_sink = 0, core_global = demo_glob, core_thread = demo_thr, core_enabled = True\<rparr>"

definition demo_record :: "(string + (string, string) private_data option) \<times> string list" where
  "demo_record = core_open_record demo_env demo_core True 50 demo_src []"

definition demo_opened :: "(string, string) private_data" where
  "demo_opened = (case demo_record of (Inr (Some r), _) \<Rightarrow> r
     | _ \<Rightarrow> \<lparr>pd_values = vs_empty 0 0, pd_sinks = [], pd_capacity = 0, pd_detach = False\<rparr>)"

definition demo_pushed :: "(string + unit) \<times> (sink \<times> bool) list \<times> string list" where
  "demo_pushed = push_record demo_env (\<lambda>s. True) demo_opened []"

definition demo_unhandled :: "(string + unit) \<times> (sink \<times> bool) list \<times> string list" where
  "demo_unhandled = push_record (demo_env\<lparr>env_handler := None\<rparr>) (\<lambda>s. True) (demo_opened\<lparr>pd_sinks := [3, 1, 2]\<rparr>) []"

lemma demo_results:
  "fst demo_record = Inr (Some demo_opened)" "snd demo_record = [''e4'', ''g5'', ''s1'', ''s2'', ''t18'']"
  "pd_sinks demo_opened = [1, 2, 3]"
  "demo_pushed = (Inr (), [(2, False), (3, True), (1, True)], [''consumed'', ''e2''])"
  "demo_unhandled = (Inl ''e2'', [(3, True)], [])"
  by code_simp+

lemma demo_handled: "fst (handle_exception demo_env e w) = Inr ()"
  by (simp add: handle_exception_def demo_env_def)

theorem push_record_each_sink_once_witness:
  "push_record demo_env (\<lambda>s. True) demo_opened [] = (Inr (), [(2, False), (3, True), (1, True)], [''consumed'', ''e2'']) \<and>
   mset (map fst [(2, False), (3, True), (1, True)]) = mset (filter (\<lambda>s. True) (pd_sinks demo_opened))"
  using push_record_each_sink_once [OF demo_handled demo_results(4) [unfolded demo_pushed_def]]
    demo_results(4) [unfolded demo_pushed_def] by blast

theorem push_record_without_handler_witness:
  "demo_unhandled = (Inl ''e2'', [(3, True)], []) \<and> list_all snd [(3 :: sink, True)] \<and>
   mset (map fst [(3 :: sink, True)]) \<subset># mset (filter (\<lambda>s. True) [3, 1, 2])"
  using push_record_without_handler [OF _ demo_results(5) [unfolded demo_unhandled_def]] demo_results(5) by simp

lemma demo_filters:
  "env_filter demo_env = run_query (env_get_value demo_env) (Answer True)"
  "env_will_consume demo_env s = run_query (env_get_value demo_env) (demo_query s)"
  by (simp_all add: demo_env_def)

lemma demo_core_sets:
  "as_ok (core_thread demo_core)" "as_ok (core_global demo_core)" "core_enabled demo_core"
  "asked_sinks demo_core = [1, 2, 3, 4]"
  using demo_sets_ok by (simp_all add: demo_core_def add_sink_def remove_sink_def asked_sinks_def)

lemma demo_record_split: "core_open_record demo_env demo_core True 50 demo_src [] = (Inr (Some demo_opened), snd demo_record)"
  using demo_results(1) by (metis demo_record_def prod.collapse)

lemma open_outcome_opened:
  assumes "open_outcome env qf qs sinks V (Inr (Some r))"
  shows "eval_query qf V = Inr True" "pd_sinks r = filter (\<lambda>s. eval_query (qs s) V = Inr True) sinks"
    "length (pd_sinks r) \<le> pd_capacity r" "pd_detach r = list_ex (env_cross_thread env) (pd_sinks r)"
    "V = vs_map (pd_values r)"
  using assms by (auto simp: open_outcome_def Let_def)

theorem open_record_correct_witness:
  "core_open_record demo_env demo_core True 50 demo_src [] = (Inr (Some demo_opened), snd demo_record) \<and>
   pd_sinks demo_opened = [1, 2, 3] \<and> 3 \<le> pd_capacity demo_opened \<and> pd_detach demo_opened \<and>
   filter (\<lambda>s. eval_query (demo_query s) (vs_map (pd_values demo_opened)) = Inr True) [1, 2, 3, 4] = [1, 2, 3]"
proof -
  have c: "env_cross_thread demo_env 2" by (simp add: demo_env_def)
  obtain V where o: "open_outcome demo_env (Answer True) demo_query (asked_sinks demo_core) V (Inr (Some demo_opened))"
    using open_record_correct [where qs = demo_query, OF demo_sets_ok(1) demo_core_sets(1,2) demo_filters refl demo_record_split]
      demo_core_sets(3) by (metis (no_types, lifting))
  note d = open_outcome_opened [OF o]
  have "filter (\<lambda>s. eval_query (demo_query s) (vs_map (pd_values demo_opened)) = Inr True) [1, 2, 3, 4] = [1, 2, 3]"
    using d(2) demo_results(3) unfolding demo_core_sets(4) d(5) by (rule trans [OF sym])
  moreover have "3 \<le> pd_capacity demo_opened" "pd_detach demo_opened"
    using d(3,4) c unfolding demo_results(3) by simp_all
  ultimately show ?thesis using demo_results(3) demo_record_split by blast
qed

definition counting_env :: "(string, string, nat, string) core_env" where
  "counting_env =
     \<lparr>env_get_value = (\<lambda>a w. (a, Suc w)), env_filter = (\<lambda>v w. (Inr True, v, w)),
      env_will_consume = (\<lambda>s v w. (Inr False, v, w)), env_cross_thread = (\<lambda>s. False),
      env_try_consume = (\<lambda>s w. (Inr True, w)), env_consume = (\<lambda>s w. (Inr (), w)), env_flush = (\<lambda>s w. (Inr (), w)),
      env_handler = None, env_detach = (\<lambda>v. v), env_random = (\<lambda>w. (0, w))\<rparr>"

lemma counting_run: "core_open_record counting_env demo_core True 50 demo_src 0 = (Inr None, 4)"
  by code_simp

theorem open_record_rejected_acquires_values_witness:
  "core_open_record counting_env demo_core True 50 demo_src 0 = (Inr None, 4) \<and>
   card (dom (as_map demo_src) \<union> dom (as_map (core_thread demo_core)) \<union> dom (as_map (core_global demo_core))) = 4"
  using open_record_rejected_acquires_values [OF demo_sets_ok(1) demo_core_sets(1-3), of counting_env "\<lambda>a. a" 50 0]
    counting_run by (simp add: counting_env_def)

theorem sink_given_record_once_witness:
  "demo_pushed = (Inr (), [(2, False), (3, True), (1, True)], [''consumed'', ''e2'']) \<and>
   distinct (map fst [(2 :: sink, False), (3, True), (1, True)]) \<and>
   set (map fst [(2, False), (3, True), (1, True)]) \<subseteq> set (asked_sinks demo_core)"
  using sink_given_record_once [OF demo_core_def _ demo_record_split demo_results(4) [unfolded demo_pushed_def]]
    demo_results(4) by simp

end
