(* ===== verification/Attribute_Name.thy ===== *)
theory Attribute_Name
  imports Prelude "HOL-Library.List_Lexorder" "HOL-Library.Char_ord" "HOL-Library.Sublist"
begin

text \<open>
  The repository of attribute names (src/src/attribute_name.cpp): every name that is used gets an identifier,
  its position in the list of nodes. The search set refers to the nodes in the order of their names, which is
  the order of \<open>strcmp\<close>.
\<close>

section \<open>Data and operations\<close>

datatype name_error = Too_Many_Names

record repository =
  rp_nodes :: "string list"
  rp_set :: "(string \<times> u32) list"

definition uninitialized :: u32 where
  "uninitialized = NOT 0"

definition empty_repository :: repository where
  "empty_repository = \<lparr>rp_nodes = [], rp_set = []\<rparr>"

definition lower_bound :: "string \<Rightarrow> (string \<times> u32) list \<Rightarrow> (string \<times> u32) list" where
  "lower_bound name ns = dropWhile (\<lambda>n. fst n < name) ns"

definition insert_at_lower_bound :: "string \<times> u32 \<Rightarrow> (string \<times> u32) list \<Rightarrow> (string \<times> u32) list" where
  "insert_at_lower_bound n ns = takeWhile (\<lambda>m. fst m < fst n) ns @ n # lower_bound (fst n) ns"

text \<open>The lookup under the shared lock, and the search and insertion under the exclusive lock.\<close>

definition find_id :: "string \<Rightarrow> repository \<Rightarrow> u32 option" where
  "find_id name r = (case lower_bound name (rp_set r) of
     [] \<Rightarrow> None | n # _ \<Rightarrow> if name < fst n then None else Some (snd n))"

definition add_name :: "string \<Rightarrow> repository \<Rightarrow> (name_error + u32) \<times> repository" where
  "add_name name r =
     (let it = lower_bound name (rp_set r)
      in if it = [] \<or> fst (hd it) \<noteq> name
         then (let new_id = length (rp_nodes r)
               in if new_id \<ge> unat uninitialized then (Inl Too_Many_Names, r)
                  else (Inr (of_nat new_id),
                    \<lparr>rp_nodes = rp_nodes r @ [name],
                     rp_set = insert_at_lower_bound (name, of_nat new_id) (rp_set r)\<rparr>))
         else (Inr (snd (hd it)), r))"

definition get_id_from_string :: "string \<Rightarrow> repository \<Rightarrow> (name_error + u32) \<times> repository" where
  "get_id_from_string name r =
     (case find_id name r of Some i \<Rightarrow> (Inr i, r) | None \<Rightarrow> add_name name r)"

definition get_string_from_id :: "u32 \<Rightarrow> repository \<Rightarrow> string option" where
  "get_string_from_id i r = (if unat i < length (rp_nodes r) then Some (rp_nodes r ! unat i) else None)"

section \<open>Invariant\<close>

definition repository_ok :: "repository \<Rightarrow> bool" where
  "repository_ok r \<longleftrightarrow> distinct (rp_nodes r) \<and> length (rp_nodes r) \<le> unat uninitialized \<and>
     sorted_wrt (<) (map fst (rp_set r)) \<and>
     set (rp_set r) = (\<lambda>i. (rp_nodes r ! i, of_nat i)) ` {..<length (rp_nodes r)}"

lemma uninitialized_value [simp]: "unat uninitialized = 4294967295"
  by (simp add: uninitialized_def unsigned_minus_1_eq_mask mask_eq_exp_minus_1)

lemma repository_ok_empty: "repository_ok empty_repository"
  by (simp add: repository_ok_def empty_repository_def)

lemma lower_bound_split:
  assumes "sorted_wrt (<) (map fst ns)"
  shows "ns = takeWhile (\<lambda>m. fst m < name) ns @ lower_bound name ns"
    "m \<in> set (takeWhile (\<lambda>m. fst m < name) ns) \<Longrightarrow> fst m < name"
    "m \<in> set (lower_bound name ns) \<Longrightarrow> name \<le> fst m"
    "sorted_wrt (<) (map fst (lower_bound name ns))"
proof -
  show "ns = takeWhile (\<lambda>m. fst m < name) ns @ lower_bound name ns" by (simp add: lower_bound_def)
  show "m \<in> set (takeWhile (\<lambda>m. fst m < name) ns) \<Longrightarrow> fst m < name" using set_takeWhileD by fastforce
  show "m \<in> set (lower_bound name ns) \<Longrightarrow> name \<le> fst m"
    using assms by (induction ns) (auto simp: lower_bound_def split: if_splits)
  show "sorted_wrt (<) (map fst (lower_bound name ns))"
    using assms by (induction ns) (auto simp: lower_bound_def)
qed

lemma lower_bound_found:
  assumes "sorted_wrt (<) (map fst ns)"
  shows "(name, i) \<in> set ns \<longleftrightarrow> (\<exists>ms. lower_bound name ns = (name, i) # ms)"
proof
  assume "(name, i) \<in> set ns"
  then have m: "(name, i) \<in> set (lower_bound name ns)"
    using lower_bound_split(1,2) [OF assms, where name = name] by (metis Un_iff fst_conv order_less_irrefl set_append)
  then obtain n ms where n: "lower_bound name ns = n # ms" by (cases "lower_bound name ns") auto
  have "n = (name, i)"
    using m n lower_bound_split(3,4) [OF assms, where name = name] by fastforce
  then show "\<exists>ms. lower_bound name ns = (name, i) # ms" using n by simp
next
  assume "\<exists>ms. lower_bound name ns = (name, i) # ms"
  then have "(name, i) \<in> set (lower_bound name ns)" by auto
  then show "(name, i) \<in> set ns" by (metis lower_bound_def set_dropWhileD)
qed

lemma sorted_insert_at_lower_bound:
  assumes "sorted_wrt (<) (map fst ns)" "name \<notin> fst ` set ns"
  shows "sorted_wrt (<) (map fst (insert_at_lower_bound (name, i) ns))"
    "set (insert_at_lower_bound (name, i) ns) = insert (name, i) (set ns)"
proof -
  note s = lower_bound_split [OF assms(1), where name = name]
  have lt: "name < fst m" if "m \<in> set (lower_bound name ns)" for m
  proof -
    have "m \<in> set ns" using that by (metis lower_bound_def set_dropWhileD)
    then have "fst m \<noteq> name" using assms(2) by blast
    then show ?thesis using s(3) [OF that] by simp
  qed
  have "sorted_wrt (<) (map fst (takeWhile (\<lambda>m. fst m < name) ns))"
    using assms(1) by (subst takeWhile_eq_take) (simp flip: take_map)
  then show "sorted_wrt (<) (map fst (insert_at_lower_bound (name, i) ns))"
    using s(2,4) lt by (fastforce simp: insert_at_lower_bound_def sorted_wrt_append)
  have "set (takeWhile (\<lambda>m. fst m < name) ns) \<union> set (lower_bound name ns) = set ns"
    by (metis lower_bound_def set_append takeWhile_dropWhile_id)
  then show "set (insert_at_lower_bound (name, i) ns) = insert (name, i) (set ns)"
    by (simp add: insert_at_lower_bound_def)
qed

lemma in_set_iff:
  assumes "repository_ok r"
  shows "(name, i) \<in> set (rp_set r) \<longleftrightarrow> get_string_from_id i r = Some name"
proof -
  have b: "length (rp_nodes r) \<le> 4294967295" using assms by (simp add: repository_ok_def)
  have "unat (of_nat k :: u32) = k" if "k < length (rp_nodes r)" for k
    using that b by (simp add: unat_of_nat)
  then show ?thesis
    using assms by (auto simp: repository_ok_def get_string_from_id_def image_iff intro!: bexI [of _ "unat i"])
qed


lemma find_id_Some_iff:
  assumes "repository_ok r"
  shows "find_id name r = Some i \<longleftrightarrow> get_string_from_id i r = Some name"
proof -
  have st: "sorted_wrt (<) (map fst (rp_set r))" using assms by (simp add: repository_ok_def)
  have "find_id name r = Some i \<longleftrightarrow> (\<exists>ms. lower_bound name (rp_set r) = (name, i) # ms)"
    using lower_bound_split(3) [OF st, where name = name]
    by (fastforce simp: find_id_def order_le_less split: list.splits if_splits)
  then show ?thesis using lower_bound_found [OF st] in_set_iff [OF assms] by metis
qed

lemma name_known:
  assumes "repository_ok r"
  shows "name \<in> set (rp_nodes r) \<longleftrightarrow> (\<exists>i. get_string_from_id i r = Some name)"
  using assms in_set_iff [OF assms, of name]
  by (auto simp: repository_ok_def in_set_conv_nth image_iff)

definition extends :: "repository \<Rightarrow> repository \<Rightarrow> bool" where
  "extends r r' \<longleftrightarrow> prefix (rp_nodes r) (rp_nodes r')"

lemma extends_string:
  "extends r r' \<Longrightarrow> get_string_from_id i r = Some name \<Longrightarrow> get_string_from_id i r' = Some name"
  by (auto simp: extends_def get_string_from_id_def prefix_def nth_append split: if_splits)

lemma string_id_inj:
  "repository_ok r \<Longrightarrow> get_string_from_id i r = Some a \<Longrightarrow> get_string_from_id j r = Some a \<Longrightarrow> i = j"
  by (auto simp: repository_ok_def get_string_from_id_def nth_eq_iff_index_eq word_unat_eq_iff split: if_splits)

lemma add_name_ok:
  assumes ok: "repository_ok r" and run: "add_name name r = (x, r')"
  shows "repository_ok r'" "extends r r'" "x = Inr i \<Longrightarrow> get_string_from_id i r' = Some name"
proof -
  have st: "sorted_wrt (<) (map fst (rp_set r))" using ok by (simp add: repository_ok_def)
  let ?it = "lower_bound name (rp_set r)"
  let ?n = "length (rp_nodes r)"
  have "repository_ok r' \<and> extends r r' \<and> (\<forall>i. x = Inr i \<longrightarrow> get_string_from_id i r' = Some name)"
  proof (cases "?it = [] \<or> fst (hd ?it) \<noteq> name")
    case False
    then obtain i ms where "?it = (name, i) # ms" by (cases ?it) (auto simp: prod_eq_iff)
    then have "get_string_from_id i r = Some name" "x = Inr i" "r' = r"
      using lower_bound_found [OF st] in_set_iff [OF ok] run by (auto simp: add_name_def)
    then show ?thesis using ok by (simp add: extends_def)
  next
    case new: True
    show ?thesis
    proof (cases "?n \<ge> unat uninitialized")
      case True
      then show ?thesis using run new ok by (auto simp: add_name_def extends_def)
    next
      case False
      then have r': "r' = \<lparr>rp_nodes = rp_nodes r @ [name],
          rp_set = insert_at_lower_bound (name, of_nat ?n) (rp_set r)\<rparr>" "x = Inr (of_nat ?n)"
        using run new by (auto simp: add_name_def Let_def)
      have fresh: "name \<notin> fst ` set (rp_set r)" using new lower_bound_found [OF st, of name] by fastforce
      then have "name \<notin> set (rp_nodes r)" using name_known [OF ok] in_set_iff [OF ok, of name] by force
      moreover have "unat (of_nat ?n :: u32) = ?n" using False by (simp add: unat_of_nat)
      ultimately show ?thesis
        using ok r' False sorted_insert_at_lower_bound [OF st fresh]
        by (auto simp: repository_ok_def extends_def get_string_from_id_def lessThan_Suc nth_append)
    qed
  qed
  then show "repository_ok r'" "extends r r'" "x = Inr i \<Longrightarrow> get_string_from_id i r' = Some name" by blast+
qed

section \<open>Properties\<close>

text \<open>
  Threads take turns with lookups under the shared lock and insertions under the exclusive one; the calls of
  \<open>get_id_from_string\<close> of all threads are some sequence of these events.
\<close>

datatype name_event = Lookup string | Request string

fun event_name :: "name_event \<Rightarrow> string" where
  "event_name (Lookup name) = name"
| "event_name (Request name) = name"

fun name_event_step :: "name_event \<Rightarrow> repository \<Rightarrow> (name_error + u32) option \<times> repository" where
  "name_event_step (Lookup name) r = (map_option Inr (find_id name r), r)"
| "name_event_step (Request name) r = (case add_name name r of (x, r) \<Rightarrow> (Some x, r))"

fun run_names :: "name_event list \<Rightarrow> repository \<Rightarrow> (name_error + u32) option list \<times> repository" where
  "run_names [] r = ([], r)"
| "run_names (e # es) r =
     (let (x, r) = name_event_step e r; (xs, r) = run_names es r in (x # xs, r))"

lemma name_event_step_ok:
  assumes "repository_ok r" "name_event_step e r = (x, r')"
  shows "repository_ok r'" "extends r r'" "x = Some (Inr i) \<Longrightarrow> get_string_from_id i r' = Some (event_name e)"
proof -
  have "repository_ok r' \<and> extends r r' \<and> (\<forall>i. x = Some (Inr i) \<longrightarrow> get_string_from_id i r' = Some (event_name e))"
  proof (cases e)
    case (Lookup name)
    then show ?thesis using assms find_id_Some_iff [OF assms(1)] by (auto simp: extends_def)
  next
    case (Request name)
    then show ?thesis using assms(2) add_name_ok [OF assms(1), of name] by (auto split: prod.splits)
  qed
  then show "repository_ok r'" "extends r r'"
    "x = Some (Inr i) \<Longrightarrow> get_string_from_id i r' = Some (event_name e)" by blast+
qed

lemma run_names_ok:
  assumes "repository_ok r" "run_names es r = (xs, r')"
  shows "repository_ok r' \<and> extends r r' \<and> length xs = length es \<and>
    (\<forall>k i. k < length es \<longrightarrow> xs ! k = Some (Inr i) \<longrightarrow> get_string_from_id i r' = Some (event_name (es ! k)))"
  using assms
proof (induction es arbitrary: r xs)
  case (Cons e es)
  obtain x r1 where e: "name_event_step e r = (x, r1)" by (metis surj_pair)
  obtain ys where ys: "run_names es r1 = (ys, r')" "xs = x # ys" using Cons.prems(2) e by (auto split: prod.splits)
  note s = name_event_step_ok [OF Cons.prems(1) e]
  have ih: "repository_ok r' \<and> extends r1 r' \<and> length ys = length es \<and>
      (\<forall>k i. k < length es \<longrightarrow> ys ! k = Some (Inr i) \<longrightarrow> get_string_from_id i r' = Some (event_name (es ! k)))"
    by (rule Cons.IH [OF s(1) ys(1)])
  have "get_string_from_id i r' = Some (event_name e)" if "x = Some (Inr i)" for i
    using extends_string [OF _ s(3) [OF that]] ih by blast
  moreover have "extends r r'" using ih s(2) unfolding extends_def by (meson prefix_order.trans)
  ultimately show ?case using ih ys(2) by (auto simp: nth_Cons split: nat.splits)
qed (auto simp: extends_def)

text \<open>
  C17. Identifiers and names correspond one to one, for every interleaving of the lookups and insertions of any
  number of threads: the name of an identifier that was returned at any time is the name it was requested for,
  also at the end, and two requests return the same identifier exactly when they are for the same name.
\<close>

theorem attribute_names_bijective:
  assumes "run_names es empty_repository = (xs, r)"
    and "j < length es" "k < length es" "xs ! j = Some (Inr a)" "xs ! k = Some (Inr b)"
  shows "get_string_from_id a r = Some (event_name (es ! j)) \<and> (a = b \<longleftrightarrow> event_name (es ! j) = event_name (es ! k))"
proof -
  have ok: "repository_ok r"
    and s: "get_string_from_id a r = Some (event_name (es ! j))" "get_string_from_id b r = Some (event_name (es ! k))"
    using run_names_ok [OF repository_ok_empty assms(1)] assms(2-5) by simp_all
  have "a = b" if "event_name (es ! j) = event_name (es ! k)"
    by (rule string_id_inj [OF ok s(1)]) (simp add: s(2) that)
  then show ?thesis using s by auto
qed

text \<open>
  The lookup under the shared lock is only an optimisation: on a well-formed repository the whole function
  gives the same identifier and repository as the search and insertion under the exclusive lock alone.
\<close>

theorem shared_lookup_is_optimisation:
  assumes "repository_ok r"
  shows "get_id_from_string name r = add_name name r"
proof (cases "find_id name r")
  case (Some i)
  have st: "sorted_wrt (<) (map fst (rp_set r))" using assms by (simp add: repository_ok_def)
  have "(name, i) \<in> set (rp_set r)" using Some find_id_Some_iff [OF assms] in_set_iff [OF assms] by blast
  then obtain ms where "lower_bound name (rp_set r) = (name, i) # ms" using lower_bound_found [OF st] by blast
  then show ?thesis using Some by (simp add: get_id_from_string_def add_name_def)
qed (simp add: get_id_from_string_def)

definition demo_events :: "name_event list" where
  "demo_events = [Lookup ''Severity'', Request ''Severity'', Request ''Line'', Lookup ''Severity'', Request ''Line'']"

lemma demo_events_run:
  "run_names demo_events empty_repository =
     ([None, Some (Inr 0), Some (Inr 1), Some (Inr 0), Some (Inr 1)],
      \<lparr>rp_nodes = [''Severity'', ''Line''], rp_set = [(''Line'', 1), (''Severity'', 0)]\<rparr>)"
  by (simp add: demo_events_def empty_repository_def add_name_def find_id_def lower_bound_def
      insert_at_lower_bound_def less_char_def)

theorem attribute_names_bijective_witness:
  "get_string_from_id 1 (snd (run_names demo_events empty_repository)) = Some (event_name (demo_events ! 2)) \<and>
   ((1 :: u32) = 0 \<longleftrightarrow> event_name (demo_events ! 2) = event_name (demo_events ! 3))"
  using attribute_names_bijective [OF demo_events_run, of 2 3 1 0] unfolding demo_events_run
  by (simp add: demo_events_def)

theorem shared_lookup_is_optimisation_witness:
  "get_id_from_string ''Line'' empty_repository = add_name ''Line'' empty_repository"
  using shared_lookup_is_optimisation [OF repository_ok_empty] by blast

end
