(* ===== verification/File_Name_Pattern.thy ===== *)
theory File_Name_Pattern
  imports Prelude
begin

text \<open>
  File name patterns of the text file sink (src/src/text_file_backend.cpp): generating the name of a file from a
  pattern and the file counter, and matching file names that are found in a directory with the pattern. Paths
  are split by Boost.Filesystem; the model works on the file name part, a string of \<open>char\<close>. The extraction of
  decimal numbers by Boost.Spirit, the width of fractional seconds and the formatting of the current time by
  Boost.DateTime are functions of the environment.
\<close>

section \<open>Environment\<close>

text \<open>
  \<open>fn_extract s\<close> is the number at the beginning of \<open>s\<close> and how many characters it has. \<open>fn_date p w\<close> is the
  pattern with the time filled in, unless the stream failed.
\<close>

record 'w name_env =
  fn_extract :: "string \<Rightarrow> (u32 \<times> nat) option"
  fn_frac_digits :: nat
  fn_date :: "string \<Rightarrow> 'w \<Rightarrow> string option"

definition is_digit :: "char \<Rightarrow> bool" where
  "is_digit c \<longleftrightarrow> c \<in> set ''0123456789''"

datatype pattern_error = Unsupported_Placeholder

section \<open>The counter placeholder\<close>

text \<open>The result is the rest of the pattern, when there is a placeholder, and the width, which is set on the way.\<close>

definition parse_number_placeholder :: "string \<Rightarrow> u32 \<Rightarrow> string option \<times> u32" where
  "parse_number_placeholder s width =
     (case s of c # r \<Rightarrow> (if c = CHR ''N'' then (Some r, width) else (None, width)) | [] \<Rightarrow> (None, width))"

definition parse_precision :: "string \<Rightarrow> u32 \<Rightarrow> string option \<times> u32" where
  "parse_precision s width =
     (case s of
        c # r \<Rightarrow>
          (if c = CHR ''.'' then parse_number_placeholder (dropWhile is_digit r) width
           else parse_number_placeholder s width)
      | [] \<Rightarrow> (None, width))"

definition parse_width :: "'w name_env \<Rightarrow> string \<Rightarrow> u32 \<Rightarrow> string option \<times> u32" where
  "parse_width env s width =
     (case s of
        c # _ \<Rightarrow>
          (if is_digit c
           then (case fn_extract env s of
                   None \<Rightarrow> (None, width)
                 | Some (n, k) \<Rightarrow> parse_precision (drop k s) n)
           else parse_precision s width)
      | [] \<Rightarrow> (None, width))"

definition parse_counter_placeholder :: "'w name_env \<Rightarrow> string \<Rightarrow> u32 \<Rightarrow> string option \<times> u32" where
  "parse_counter_placeholder env s width =
     (case s of
        c # r \<Rightarrow> (if c \<in> set ''0 +-'' then parse_width env r width else parse_width env s width)
      | [] \<Rightarrow> (None, width))"

lemma parse_counter_placeholder_length:
  assumes "parse_counter_placeholder env s width = (Some r, w)"
  shows "length r < length s"
proof -
  have 1: "length r < length t" if "parse_number_placeholder t u = (Some r, w)" for t u
    using that by (auto simp: parse_number_placeholder_def split: list.splits if_splits)
  have 2: "length r < length t" if "parse_precision t u = (Some r, w)" for t u
    using that 1 [of "dropWhile is_digit (tl t)" u] 1 [of t u] length_dropWhile_le [of is_digit "tl t"]
    by (cases t) (auto simp: parse_precision_def split: if_splits)
  have 3: "length r < length t" if "parse_width env t u = (Some r, w)" for t u
    using that 2 [of t u] 2 [of "drop k t" n for k n]
    by (fastforce simp: parse_width_def split: list.splits if_splits option.splits)
  show ?thesis
    using assms 3 [of s width] 3 [of "tl s" width]
    by (cases s) (auto simp: parse_counter_placeholder_def split: if_splits)
qed

section \<open>Matching file names\<close>

fun scan_digits :: "string \<Rightarrow> nat \<Rightarrow> string option" where
  "scan_digits s 0 = Some s"
| "scan_digits [] (Suc n) = None"
| "scan_digits (c # s) (Suc n) = (if is_digit c then scan_digits s n else None)"

record match_state =
  ms_file :: string
  ms_pattern :: string
  ms_placeholder :: bool
  ms_counter :: u32
  ms_parsed :: bool

text \<open>One round of the loop: \<open>Inr None\<close> when the function returns false.\<close>

definition match_digits :: "nat \<Rightarrow> match_state \<Rightarrow> pattern_error + match_state option" where
  "match_digits n st =
     (case scan_digits (ms_file st) n of
        None \<Rightarrow> Inr None
      | Some f \<Rightarrow> Inr (Some (st\<lparr>ms_file := f, ms_pattern := tl (ms_pattern st), ms_placeholder := False\<rparr>)))"

definition match_counter :: "'w name_env \<Rightarrow> match_state \<Rightarrow> pattern_error + match_state option" where
  "match_counter env st =
     (case parse_counter_placeholder env (ms_pattern st) 0 of
        (None, _) \<Rightarrow> Inl Unsupported_Placeholder
      | (Some p, width) \<Rightarrow>
          (case scan_digits (ms_file st) (unat width) of
             None \<Rightarrow> Inr None
           | Some f \<Rightarrow>
               (let digits = take (length (ms_file st) - length (dropWhile is_digit f)) (ms_file st)
                in case fn_extract env digits of
                     None \<Rightarrow> Inr None
                   | Some (n, k) \<Rightarrow>
                       Inr (Some (st\<lparr>ms_file := drop k (ms_file st), ms_pattern := p, ms_placeholder := False,
                         ms_counter := n, ms_parsed := True\<rparr>)))))"

definition match_step :: "'w name_env \<Rightarrow> match_state \<Rightarrow> pattern_error + match_state option" where
  "match_step env st =
     (let p_c = hd (ms_pattern st); f_c = hd (ms_file st)
      in if \<not> ms_placeholder st
         then (if p_c = CHR ''%'' then Inr (Some (st\<lparr>ms_placeholder := True, ms_pattern := tl (ms_pattern st)\<rparr>))
               else if p_c = f_c then Inr (Some (st\<lparr>ms_pattern := tl (ms_pattern st), ms_file := tl (ms_file st)\<rparr>))
               else Inr None)
         else if p_c = CHR ''%''
         then (if p_c = f_c
               then Inr (Some (st\<lparr>ms_pattern := tl (ms_pattern st), ms_file := tl (ms_file st), ms_placeholder := False\<rparr>))
               else Inr None)
         else if p_c \<in> set ''SMHdmy'' then match_digits 2 st
         else if p_c = CHR ''Y'' then match_digits 4 st
         else if p_c = CHR ''f'' then match_digits (fn_frac_digits env) st
         else match_counter env st)"

lemma match_step_shrinks:
  assumes "match_step env st = Inr (Some st')" "ms_pattern st \<noteq> []"
  shows "length (ms_pattern st') < length (ms_pattern st)"
  using assms
  by (auto simp: match_step_def match_digits_def match_counter_def Let_def
      split: if_splits option.splits prod.splits dest!: parse_counter_placeholder_length)

function match_loop :: "'w name_env \<Rightarrow> match_state \<Rightarrow> pattern_error + match_state option" where
  "match_loop env st =
     (if ms_file st \<noteq> [] \<and> ms_pattern st \<noteq> []
      then (case match_step env st of
              Inl e \<Rightarrow> Inl e
            | Inr None \<Rightarrow> Inr None
            | Inr (Some st) \<Rightarrow> match_loop env st)
      else Inr (Some st))"
  by pat_completeness auto
termination
  by (relation "measure (\<lambda>(env, st). length (ms_pattern st))") (auto dest: match_step_shrinks)

declare match_loop.simps [simp del]

text \<open>The result: whether the name matches, with the counter and whether there is one.\<close>

definition match_pattern :: "'w name_env \<Rightarrow> string \<Rightarrow> string \<Rightarrow> pattern_error + bool \<times> u32 \<times> bool" where
  "match_pattern env file_name pattern =
     (case match_loop env \<lparr>ms_file = file_name, ms_pattern = pattern, ms_placeholder = False, ms_counter = 0,
                           ms_parsed = False\<rparr> of
        Inl e \<Rightarrow> Inl e
      | Inr None \<Rightarrow> Inr (False, 0, False)
      | Inr (Some st) \<Rightarrow>
          Inr (ms_pattern st = [] \<and>
               (ms_file st = [] \<or> scan_digits (ms_file st) (length (ms_file st)) \<noteq> None),
               ms_counter st, ms_parsed st))"

section \<open>Generating file names\<close>

fun decimal :: "nat \<Rightarrow> string" where
  "decimal n = (if n < 10 then [''0123456789'' ! n] else decimal (n div 10) @ [''0123456789'' ! (n mod 10)])"

declare decimal.simps [simp del]

text \<open>The counter is right-aligned in the width with zeros and inserted at its position in the pattern.\<close>

definition file_counter_formatter :: "nat \<Rightarrow> u32 \<Rightarrow> string \<Rightarrow> u32 \<Rightarrow> string" where
  "file_counter_formatter pos width pattern counter =
     (let number = decimal (unat counter)
      in take pos pattern @ (replicate (unat width - length number) CHR ''0'' @ number) @ drop pos pattern)"

definition date_and_time_formatter :: "'w name_env \<Rightarrow> string \<Rightarrow> 'w \<Rightarrow> string" where
  "date_and_time_formatter env pattern w = (case fn_date env pattern w of Some s \<Rightarrow> s | None \<Rightarrow> pattern)"

datatype name_generator =
    Date_And_Counter nat u32 string
  | Date_Only string
  | Counter_Only nat u32 string
  | No_Placeholders string

fun generate_name :: "'w name_env \<Rightarrow> name_generator \<Rightarrow> u32 \<Rightarrow> 'w \<Rightarrow> string" where
  "generate_name env (Date_And_Counter pos width pattern) counter w =
     date_and_time_formatter env (file_counter_formatter pos width pattern counter) w"
| "generate_name env (Date_Only pattern) counter w = date_and_time_formatter env pattern w"
| "generate_name env (Counter_Only pos width pattern) counter w = file_counter_formatter pos width pattern counter"
| "generate_name env (No_Placeholders pattern) counter w = pattern"

text \<open>
  The search for placeholders: the pattern is \<open>pre @ rest\<close> with the iterator between them. The first counter
  placeholder is cut out of the pattern and its position remembered.
\<close>

record scan_state =
  sc_pre :: string
  sc_rest :: string
  sc_count :: nat
  sc_width :: u32
  sc_pos :: "nat option"

definition scan_placeholder :: "'w name_env \<Rightarrow> string \<Rightarrow> string \<Rightarrow> scan_state \<Rightarrow> scan_state" where
  "scan_placeholder env pre r st =
     (case sc_pos st of
        Some _ \<Rightarrow> st\<lparr>sc_pre := pre @ ''%'', sc_rest := r, sc_count := sc_count st + 1\<rparr>
      | None \<Rightarrow>
          (case parse_counter_placeholder env r (sc_width st) of
             (Some r2, width) \<Rightarrow> st\<lparr>sc_pre := pre, sc_rest := r2, sc_width := width, sc_pos := Some (length pre)\<rparr>
           | (None, width) \<Rightarrow>
               st\<lparr>sc_pre := pre @ ''%'', sc_rest := r, sc_count := sc_count st + 1, sc_width := width\<rparr>))"

lemma scan_placeholder_length: "length (sc_rest (scan_placeholder env pre r st)) \<le> length r"
  by (auto simp: scan_placeholder_def split: option.split prod.split dest: parse_counter_placeholder_length)

lemma scan_pattern_shrinks:
  assumes "dropWhile P xs = a # ys"
  shows "length ys < length xs"
  using length_dropWhile_le [of P xs] assms by simp

function scan_pattern :: "'w name_env \<Rightarrow> scan_state \<Rightarrow> scan_state" where
  "scan_pattern env st =
     (let pre = sc_pre st @ takeWhile (\<lambda>c. c \<noteq> CHR ''%'') (sc_rest st)
      in case dropWhile (\<lambda>c. c \<noteq> CHR ''%'') (sc_rest st) of
           [] \<Rightarrow> st
         | [_] \<Rightarrow> st
         | _ # c # r \<Rightarrow>
             if c = CHR ''%'' then scan_pattern env (st\<lparr>sc_pre := pre @ ''%%'', sc_rest := r\<rparr>)
             else scan_pattern env (scan_placeholder env pre (c # r) st))"
  by pat_completeness auto

termination
proof (relation "measure (\<lambda>(env, st). length (sc_rest st))", goal_cases)
  case (3 env st pre x21 x22 x21a x22a)
  then show ?case
    using scan_placeholder_length [of env pre "x21a # x22a" st] scan_pattern_shrinks [of _ "sc_rest st" x21 x22]
    by (simp add: le_less_trans)
qed (auto dest: scan_pattern_shrinks)

declare scan_pattern.simps [simp del]

definition parse_file_name_pattern :: "'w name_env \<Rightarrow> string \<Rightarrow> name_generator" where
  "parse_file_name_pattern env pattern =
     (let st = scan_pattern env \<lparr>sc_pre = [], sc_rest = pattern, sc_count = 0, sc_width = 0, sc_pos = None\<rparr>;
          name_pattern = sc_pre st @ sc_rest st
      in if sc_count st > 0
         then (case sc_pos st of
                 Some pos \<Rightarrow> Date_And_Counter pos (sc_width st) name_pattern
               | None \<Rightarrow> Date_Only name_pattern)
         else (case sc_pos st of
                 Some pos \<Rightarrow> Counter_Only pos (sc_width st) name_pattern
               | None \<Rightarrow> No_Placeholders name_pattern))"

end
