(* ===== verification/File_Name_Roundtrip.thy ===== *)
theory File_Name_Roundtrip
  imports File_Name_Pattern
begin

text \<open>
  Generated file names and the pattern they are matched with: the round trip of the file counter, the digits that
  are appended to clashing names, and the escaped percent sign.
\<close>

section \<open>Decimal numbers\<close>

definition digit_value :: "char \<Rightarrow> nat" where
  "digit_value c = of_char c - 48"

definition digits_value :: "string \<Rightarrow> nat" where
  "digits_value ds = foldl (\<lambda>n c. 10 * n + digit_value c) 0 ds"

lemma digit_char: "n < 10 \<Longrightarrow> is_digit (''0123456789'' ! n) \<and> digit_value (''0123456789'' ! n) = n"
proof -
  assume "n < 10"
  then have "n \<in> {0, 1, 2, 3, 4, 5, 6, 7, 8, 9}" by auto
  then show ?thesis by (auto simp: is_digit_def digit_value_def)
qed

lemma digits_value_append: "digits_value (xs @ [c]) = 10 * digits_value xs + digit_value c"
  by (simp add: digits_value_def)

lemma decimal_value: "digits_value (decimal n) = n \<and> list_all is_digit (decimal n) \<and> decimal n \<noteq> []"
proof (induction n rule: decimal.induct)
  case (1 n)
  show ?case
  proof (cases "n < 10")
    case True
    then show ?thesis using digit_char [OF True] by (simp add: decimal.simps [of n] digits_value_def)
  next
    case False
    have "n mod 10 < 10" by simp
    from digit_char [OF this] 1 False show ?thesis
      by (subst (1 2 3) decimal.simps) (simp add: digits_value_append)
  qed
qed

lemma digits_value_zeros: "digits_value (replicate k CHR ''0'' @ ds) = digits_value ds"
proof (induction ds rule: rev_induct)
  case Nil
  have "digits_value (replicate k CHR ''0'') = 0"
    by (induction k) (simp_all add: digits_value_def digit_value_def)
  then show ?case by (simp add: digits_value_def)
next
  case (snoc c ds)
  then show ?case by (simp flip: append_assoc add: digits_value_append)
qed

section \<open>The extraction of numbers\<close>

text \<open>
  The documented behaviour of the number extraction: it takes all digits at the beginning, at least one, and
  fails when the number does not fit.
\<close>

definition extract_ok :: "'w name_env \<Rightarrow> bool" where
  "extract_ok env \<longleftrightarrow>
     (\<forall>s. fn_extract env s =
       (let ds = takeWhile is_digit s
        in if ds = [] \<or> digits_value ds \<ge> 2 ^ 32 then None else Some (of_nat (digits_value ds), length ds)))"

lemma extract_digits:
  "extract_ok env \<Longrightarrow> takeWhile is_digit s = ds \<Longrightarrow> ds \<noteq> [] \<Longrightarrow> digits_value ds < 2 ^ 32 \<Longrightarrow>
   fn_extract env s = Some (of_nat (digits_value ds), length ds)"
  unfolding extract_ok_def Let_def by simp

definition counter_spec :: "string \<Rightarrow> string \<Rightarrow> string \<Rightarrow> bool" where
  "counter_spec filler width precision \<longleftrightarrow>
     filler \<in> {'''', ''0'', '' '', ''+'', ''-''} \<and> list_all is_digit width \<and> digits_value width < 2 ^ 32 \<and>
     (filler = [] \<longrightarrow> (\<forall>r. width \<noteq> CHR ''0'' # r)) \<and>
     (precision = [] \<or> (\<exists>ds. precision = CHR ''.'' # ds \<and> list_all is_digit ds))"

definition spec_width :: "string \<Rightarrow> u32" where
  "spec_width width = of_nat (digits_value width)"

lemma parse_precision_spec:
  assumes "precision = [] \<or> (\<exists>ds. precision = CHR ''.'' # ds \<and> list_all is_digit ds)"
  shows "parse_precision (precision @ CHR ''N'' # r) w = (Some r, w)"
proof -
  have n: "\<not> is_digit CHR ''N''" by (simp add: is_digit_def)
  have "dropWhile is_digit (ds @ CHR ''N'' # r) = CHR ''N'' # r" if "list_all is_digit ds" for ds
    using that n by (induction ds) simp_all
  then show ?thesis using assms by (auto simp: parse_precision_def parse_number_placeholder_def)
qed

lemma parse_width_spec:
  assumes ext: "extract_ok env" and w: "list_all is_digit width" "digits_value width < 2 ^ 32"
    and pr: "precision = [] \<or> (\<exists>ds. precision = CHR ''.'' # ds \<and> list_all is_digit ds)"
  shows "parse_width env (width @ precision @ CHR ''N'' # r) u = (Some r, if width = [] then u else spec_width width)"
proof -
  let ?t = "precision @ CHR ''N'' # r"
  have nd: "?t \<noteq> []" "\<not> is_digit (hd ?t)" using pr by (auto simp: is_digit_def)
  show ?thesis
  proof (cases width)
    case Nil
    then show ?thesis using nd parse_precision_spec [OF pr, of r u] by (cases ?t) (simp_all add: parse_width_def)
  next
    case (Cons c ds)
    have tw: "takeWhile is_digit (width @ ?t) = width"
      using w(1) nd by (induction width) (auto simp: takeWhile_eq_Nil_iff)
    then have "fn_extract env (width @ ?t) = Some (spec_width width, length width)"
      unfolding spec_width_def using Cons w(2) by (intro extract_digits [OF ext tw]) simp_all
    then show ?thesis using Cons w(1) parse_precision_spec [OF pr] by (simp add: parse_width_def)
  qed
qed

lemma parse_counter_spec:
  assumes ext: "extract_ok env" and sp: "counter_spec filler width precision"
  shows "parse_counter_placeholder env (filler @ width @ precision @ CHR ''N'' # r) u =
    (Some r, if width = [] then u else spec_width width)"
proof -
  have w: "list_all is_digit width" "digits_value width < 2 ^ 32"
    and pr: "precision = [] \<or> (\<exists>ds. precision = CHR ''.'' # ds \<and> list_all is_digit ds)"
    and nf: "filler = [] \<longrightarrow> (\<forall>r. width \<noteq> CHR ''0'' # r)"
    using sp by (simp_all add: counter_spec_def)
  note pw = parse_width_spec [OF ext w pr, of r u]
  show ?thesis
  proof (cases "filler = []")
    case True
    let ?s = "width @ precision @ CHR ''N'' # r"
    have "?s \<noteq> [] \<and> hd ?s \<notin> set ''0 +-''"
      using w(1) pr nf True by (cases width) (auto simp: is_digit_def)
    then show ?thesis using True pw by (cases ?s) (simp_all add: parse_counter_placeholder_def)
  next
    case False
    then obtain c where "filler = [c]" "c \<in> set ''0 +-''" using sp by (auto simp: counter_spec_def)
    then show ?thesis using pw by (simp add: parse_counter_placeholder_def)
  qed
qed

section \<open>Matching\<close>

lemma match_literal:
  "CHR ''%'' \<notin> set pre \<Longrightarrow>
   match_loop env \<lparr>ms_file = pre @ f, ms_pattern = pre @ p, ms_placeholder = False, ms_counter = n, ms_parsed = b\<rparr> =
   match_loop env \<lparr>ms_file = f, ms_pattern = p, ms_placeholder = False, ms_counter = n, ms_parsed = b\<rparr>"
proof (induction pre)
  case (Cons c pre)
  then show ?case by (subst match_loop.simps) (auto simp: match_step_def)
qed simp

lemma scan_digits_take: "list_all is_digit ds \<Longrightarrow> n \<le> length ds \<Longrightarrow> scan_digits (ds @ f) n = Some (drop n ds @ f)"
  by (induction ds n rule: scan_digits.induct) auto

lemma dropWhile_digits: "list_all is_digit ds \<Longrightarrow> dropWhile is_digit (ds @ f) = dropWhile is_digit f"
  by (induction ds) auto

lemma takeWhile_digits: "list_all is_digit ds \<Longrightarrow> takeWhile is_digit ds = ds"
  by (induction ds) auto

lemma list_all_drop: "list_all P xs \<Longrightarrow> list_all P (drop n xs)"
  by (metis append_take_drop_id list_all_append)

lemma digit_not_placeholder: "is_digit c \<Longrightarrow> c \<notin> set ''%SMHdmyYf''"
  by (auto simp: is_digit_def)

lemma spec_first:
  assumes "counter_spec filler width precision"
  shows "\<exists>c s. filler @ width @ precision @ CHR ''N'' # r = c # s \<and> c \<notin> set ''%SMHdmyYf''"
proof -
  let ?s = "filler @ width @ precision @ CHR ''N'' # r"
  have "hd ?s \<notin> set ''%SMHdmyYf''"
  proof (cases "filler = []")
    case True
    show ?thesis
    proof (cases width)
      case Nil
      then show ?thesis using assms True by (auto simp: counter_spec_def)
    next
      case (Cons c ds)
      then have "is_digit c" using assms by (simp add: counter_spec_def)
      then show ?thesis using True Cons digit_not_placeholder by simp
    qed
  next
    case False
    then show ?thesis using assms by (auto simp: counter_spec_def)
  qed
  then show ?thesis by (cases ?s) auto
qed

lemma match_counter_placeholder:
  assumes ext: "extract_ok env" and sp: "counter_spec filler width precision"
    and ds: "list_all is_digit ds" "ds \<noteq> []" "digits_value ds < 2 ^ 32"
    and len: "width \<noteq> [] \<Longrightarrow> unat (spec_width width) \<le> length ds"
    and f: "f = [] \<or> \<not> is_digit (hd f)"
  shows "match_loop env \<lparr>ms_file = ds @ f, ms_pattern = CHR ''%'' # filler @ width @ precision @ CHR ''N'' # p,
      ms_placeholder = False, ms_counter = n, ms_parsed = b\<rparr> =
    match_loop env \<lparr>ms_file = f, ms_pattern = p, ms_placeholder = False, ms_counter = of_nat (digits_value ds),
      ms_parsed = True\<rparr>"
proof -
  let ?s = "filler @ width @ precision @ CHR ''N'' # p"
  let ?w = "if width = [] then 0 else spec_width width"
  let ?st = "\<lparr>ms_file = ds @ f, ms_pattern = ?s, ms_placeholder = True, ms_counter = n, ms_parsed = b\<rparr>"
  obtain c s where cs: "?s = c # s" "c \<notin> set ''%SMHdmyYf''" using spec_first [OF sp] by blast
  have pc: "parse_counter_placeholder env ?s 0 = (Some p, ?w)" by (rule parse_counter_spec [OF ext sp])
  have sc: "scan_digits (ds @ f) (unat ?w) = Some (drop (unat ?w) ds @ f)"
    using scan_digits_take [OF ds(1)] len by simp
  have dw: "dropWhile is_digit (drop (unat ?w) ds @ f) = f"
    unfolding dropWhile_digits [OF list_all_drop [OF ds(1)]] using f by (cases f) auto
  have ex: "fn_extract env ds = Some (of_nat (digits_value ds), length ds)"
    by (rule extract_digits [OF ext takeWhile_digits [OF ds(1)] ds(2,3)])
  have "match_step env ?st = match_counter env ?st" using cs by (simp add: match_step_def Let_def)
  also have "\<dots> = Inr (Some \<lparr>ms_file = f, ms_pattern = p, ms_placeholder = False,
      ms_counter = of_nat (digits_value ds), ms_parsed = True\<rparr>)"
    using pc sc dw ex by (simp add: match_counter_def)
  finally have st: "match_step env ?st = \<dots>" .
  have "match_loop env \<lparr>ms_file = ds @ f, ms_pattern = CHR ''%'' # ?s, ms_placeholder = False, ms_counter = n,
      ms_parsed = b\<rparr> = match_loop env ?st"
    using ds(2) by (subst match_loop.simps) (simp add: match_step_def Let_def)
  also have "\<dots> = match_loop env \<lparr>ms_file = f, ms_pattern = p, ms_placeholder = False,
      ms_counter = of_nat (digits_value ds), ms_parsed = True\<rparr>"
    using ds(2) cs st by (subst match_loop.simps) simp
  finally show ?thesis .
qed

lemma match_loop_end [simp]:
  "ms_file st = [] \<or> ms_pattern st = [] \<Longrightarrow> match_loop env st = Inr (Some st)"
  by (subst match_loop.simps) auto

lemma digits_value_concat: "digits_value (xs @ ys) = digits_value xs * 10 ^ length ys + digits_value ys"
proof (induction ys rule: rev_induct)
  case (snoc y ys)
  then show ?case by (simp add: digits_value_append algebra_simps flip: append_assoc)
qed (simp add: digits_value_def)

section \<open>Generated names\<close>

definition counter_text :: "u32 \<Rightarrow> u32 \<Rightarrow> string" where
  "counter_text width n = replicate (unat width - length (decimal (unat n))) CHR ''0'' @ decimal (unat n)"

lemma counter_text_ok:
  "list_all is_digit (counter_text width n)" "counter_text width n \<noteq> []" "digits_value (counter_text width n) = unat n"
  "unat width \<le> length (counter_text width n)"
proof -
  have z: "is_digit CHR ''0''" by (simp add: is_digit_def)
  show "list_all is_digit (counter_text width n)"
    using decimal_value [of "unat n"] z by (auto simp: counter_text_def list_all_iff)
  show "counter_text width n \<noteq> []" using decimal_value [of "unat n"] by (simp add: counter_text_def)
  show "digits_value (counter_text width n) = unat n"
    using decimal_value [of "unat n"] by (simp add: counter_text_def digits_value_zeros)
  show "unat width \<le> length (counter_text width n)" by (simp add: counter_text_def)
qed

lemma no_percent_scan:
  assumes "CHR ''%'' \<notin> set s"
  shows "takeWhile (\<lambda>c. c \<noteq> CHR ''%'') s = s" "dropWhile (\<lambda>c. c \<noteq> CHR ''%'') s = []"
    "takeWhile (\<lambda>c. c \<noteq> CHR ''%'') (s @ CHR ''%'' # r) = s"
    "dropWhile (\<lambda>c. c \<noteq> CHR ''%'') (s @ CHR ''%'' # r) = CHR ''%'' # r"
  using assms by (induction s) auto

lemma parse_counter_pattern:
  assumes ext: "extract_ok env" and sp: "counter_spec filler width precision"
    and np: "CHR ''%'' \<notin> set pre" "CHR ''%'' \<notin> set post"
  shows "parse_file_name_pattern env (pre @ CHR ''%'' # filler @ width @ precision @ CHR ''N'' # post) =
    Counter_Only (length pre) (if width = [] then 0 else spec_width width) (pre @ post)"
proof -
  let ?s = "filler @ width @ precision @ CHR ''N'' # post"
  let ?w = "if width = [] then 0 else spec_width width"
  let ?st = "\<lparr>sc_pre = [], sc_rest = pre @ CHR ''%'' # ?s, sc_count = 0, sc_width = 0, sc_pos = None\<rparr>"
  let ?st2 = "\<lparr>sc_pre = pre, sc_rest = post, sc_count = 0, sc_width = ?w, sc_pos = Some (length pre)\<rparr>"
  obtain c s where cs: "?s = c # s" "c \<noteq> CHR ''%''" using spec_first [OF sp] by fastforce
  have pc: "parse_counter_placeholder env ?s 0 = (Some post, ?w)" by (rule parse_counter_spec [OF ext sp])
  have "scan_placeholder env pre ?s ?st = ?st2" using pc by (simp add: scan_placeholder_def)
  then have "scan_pattern env ?st = scan_pattern env ?st2"
    using cs no_percent_scan(3,4) [OF np(1)] by (subst scan_pattern.simps) simp
  also have "\<dots> = ?st2" by (subst scan_pattern.simps) (simp add: no_percent_scan(2) [OF np(2)] Let_def)
  finally show ?thesis by (simp add: parse_file_name_pattern_def)
qed

lemma generate_counter_name:
  assumes "extract_ok env" "counter_spec filler width precision" "CHR ''%'' \<notin> set pre" "CHR ''%'' \<notin> set post"
  shows "generate_name env (parse_file_name_pattern env (pre @ CHR ''%'' # filler @ width @ precision @ CHR ''N'' # post)) n w =
    pre @ counter_text (if width = [] then 0 else spec_width width) n @ post"
  by (simp add: parse_counter_pattern [OF assms] file_counter_formatter_def counter_text_def Let_def)

lemma match_counter_name:
  assumes ext: "extract_ok env" and sp: "counter_spec filler width precision"
    and np: "CHR ''%'' \<notin> set pre" "CHR ''%'' \<notin> set post"
    and ds: "list_all is_digit ds" "ds \<noteq> []" "digits_value ds < 2 ^ 32"
      "width \<noteq> [] \<Longrightarrow> unat (spec_width width) \<le> length ds"
    and ex: "list_all is_digit extra" and post: "post = [] \<or> \<not> is_digit (hd post)" "post = [] \<Longrightarrow> extra = []"
  shows "match_pattern env (pre @ ds @ post @ extra) (pre @ CHR ''%'' # filler @ width @ precision @ CHR ''N'' # post) =
    Inr (True, of_nat (digits_value ds), True)"
proof -
  have f: "post @ extra = [] \<or> \<not> is_digit (hd (post @ extra))" using post by (cases post) auto
  have sc: "scan_digits extra (length extra) = Some []" using scan_digits_take [OF ex, of "length extra" "[]"] by simp
  show ?thesis
    using match_counter_placeholder [OF ext sp ds f, of post 0 False]
      match_literal [OF np(2), of env extra "[]" "of_nat (digits_value ds)" True]
    by (simp add: match_pattern_def match_literal [OF np(1)] sc)
qed

text \<open>
  C18. Round trip of file names: the name that is generated from a pattern with a counter placeholder, in any form
  of it, and no other percent sign, that is, no placeholders for the date and no escaped percent sign, matches the
  pattern and gives the counter back, also with the digits that are appended to the name when it clashes with an
  existing file. The text after the placeholder must not begin with a digit, and must not be empty for a name with
  appended digits. The counter is read by a function that reads the longest sequence of digits.
\<close>

theorem file_name_roundtrip:
  assumes "extract_ok env" "counter_spec filler width precision"
    and "CHR ''%'' \<notin> set pre" "CHR ''%'' \<notin> set post"
    and "list_all is_digit extra" "post = [] \<or> \<not> is_digit (hd post)" "post = [] \<Longrightarrow> extra = []"
    and "pattern = pre @ CHR ''%'' # filler @ width @ precision @ CHR ''N'' # post"
  shows "match_pattern env (generate_name env (parse_file_name_pattern env pattern) counter w @ extra) pattern =
    Inr (True, counter, True)"
proof -
  have l: "unat (spec_width width) \<le> length (counter_text (if width = [] then 0 else spec_width width) counter)"
    if "width \<noteq> []" using that counter_text_ok(4) [of "spec_width width" counter] by simp
  show ?thesis
    using match_counter_name [OF assms(1-4) counter_text_ok(1,2) _ l assms(5-7)]
    by (simp add: assms(8) generate_counter_name [OF assms(1-4)] counter_text_ok(3))
qed

text \<open>
  C19. When the pattern ends with the counter placeholder, the five digits that are appended to the name of a file
  that clashes with an existing one are read as part of the counter: the file with the counter \<open>n\<close> matches with
  the counter \<open>100000 n\<close> plus the number that was appended.
\<close>

theorem appended_digits_read_as_counter:
  assumes "extract_ok env" "counter_spec filler width precision" "CHR ''%'' \<notin> set pre"
    and "list_all is_digit extra" "length extra = 5" "unat counter * 100000 + digits_value extra < 2 ^ 32"
    and "pattern = pre @ CHR ''%'' # filler @ width @ precision @ ''N''"
  shows "match_pattern env (generate_name env (parse_file_name_pattern env pattern) counter w @ extra) pattern =
    Inr (True, counter * 100000 + of_nat (digits_value extra), True)"
proof -
  let ?ds = "counter_text (if width = [] then 0 else spec_width width) counter @ extra"
  have np: "CHR ''%'' \<notin> set []" by simp
  have v: "digits_value ?ds = unat counter * 100000 + digits_value extra"
    using assms(5) by (simp add: digits_value_concat counter_text_ok(3))
  have l: "unat (spec_width width) \<le> length ?ds" if "width \<noteq> []"
    using that counter_text_ok(4) [of "spec_width width" counter] by simp
  have d: "list_all is_digit ?ds" "?ds \<noteq> []" "digits_value ?ds < 2 ^ 32"
    using counter_text_ok(1,2) assms(4,6) v by simp_all
  show ?thesis
    using match_counter_name [OF assms(1-3) np d l, of "[]"]
    by (simp add: assms(7) generate_counter_name [OF assms(1-3) np] v)
qed

text \<open>
  In a pattern without other placeholders an escaped percent sign is not replaced: the file name keeps both
  percent signs, and such a name does not match the pattern it was generated from.
\<close>

theorem escaped_percent_not_replaced:
  assumes "CHR ''%'' \<notin> set pre" "CHR ''%'' \<notin> set post" and "pattern = pre @ ''%%'' @ post"
  shows "generate_name env (parse_file_name_pattern env pattern) counter w = pattern \<and>
    match_pattern env pattern pattern = Inr (False, 0, False)"
proof
  let ?st = "\<lparr>sc_pre = [], sc_rest = pre @ CHR ''%'' # CHR ''%'' # post, sc_count = 0, sc_width = 0, sc_pos = None\<rparr>"
  let ?st2 = "\<lparr>sc_pre = pre @ ''%%'', sc_rest = post, sc_count = 0, sc_width = 0, sc_pos = None\<rparr>"
  have "scan_pattern env ?st = scan_pattern env ?st2"
    by (subst scan_pattern.simps) (simp add: no_percent_scan(3,4) [OF assms(1)] Let_def)
  also have "\<dots> = ?st2" by (subst scan_pattern.simps) (simp add: no_percent_scan(2) [OF assms(2)] Let_def)
  finally show "generate_name env (parse_file_name_pattern env pattern) counter w = pattern"
    by (simp add: assms(3) parse_file_name_pattern_def)
  let ?m = "\<lambda>f p b. match_loop env \<lparr>ms_file = f, ms_pattern = p, ms_placeholder = b, ms_counter = 0, ms_parsed = False\<rparr>"
  have "?m pattern pattern False = ?m (CHR ''%'' # CHR ''%'' # post) (CHR ''%'' # CHR ''%'' # post) False"
    using match_literal [OF assms(1)] by (simp add: assms(3))
  also have "\<dots> = ?m (CHR ''%'' # CHR ''%'' # post) (CHR ''%'' # post) True"
    by (subst match_loop.simps) (simp add: match_step_def Let_def)
  also have "\<dots> = ?m (CHR ''%'' # post) post False"
    by (subst match_loop.simps) (simp add: match_step_def Let_def)
  finally have m: "?m pattern pattern False = ?m (CHR ''%'' # post) post False" .
  show "match_pattern env pattern pattern = Inr (False, 0, False)"
  proof (cases post)
    case Nil
    then show ?thesis using m by (simp add: match_pattern_def is_digit_def)
  next
    case (Cons c r)
    then have "?m (CHR ''%'' # post) post False = Inr None"
      using assms(2) by (subst match_loop.simps) (auto simp: match_step_def Let_def)
    then show ?thesis using m by (simp add: match_pattern_def)
  qed
qed

section \<open>Witnesses\<close>

definition demo_name_env :: "unit name_env" where
  "demo_name_env =
     \<lparr>fn_extract = (\<lambda>s. let ds = takeWhile is_digit s
        in if ds = [] \<or> digits_value ds \<ge> 2 ^ 32 then None else Some (of_nat (digits_value ds), length ds)),
      fn_frac_digits = 6, fn_date = (\<lambda>p w. None)\<rparr>"

lemma demo_extract_ok: "extract_ok demo_name_env"
  by (simp add: extract_ok_def demo_name_env_def)

lemma demo_digits: "list_all is_digit ''5''" "list_all is_digit ''2''" "list_all is_digit ''00001''"
  "digits_value ''5'' = 5" "digits_value ''00001'' = 1" "\<not> is_digit CHR ''.''"
  by (simp_all add: is_digit_def digits_value_def digit_value_def)

lemma demo_spec: "counter_spec ''0'' ''5'' ''.2''"
  using demo_digits by (simp add: counter_spec_def)

theorem file_name_roundtrip_witness:
  "generate_name demo_name_env (parse_file_name_pattern demo_name_env ''log_%05.2N.txt'') 42 () = ''log_00042.txt'' \<and>
   match_pattern demo_name_env (''log_00042.txt'' @ ''00001'') ''log_%05.2N.txt'' = Inr (True, 42, True)"
proof
  show g: "generate_name demo_name_env (parse_file_name_pattern demo_name_env ''log_%05.2N.txt'') 42 () = ''log_00042.txt''"
    using generate_counter_name [OF demo_extract_ok demo_spec, of "''log_''" "''.txt''" 42 "()"] demo_digits(4)
    by (simp add: counter_text_def spec_width_def decimal.simps [of 42] decimal.simps [of 4] numeral_3_eq_3)
  show "match_pattern demo_name_env (''log_00042.txt'' @ ''00001'') ''log_%05.2N.txt'' = Inr (True, 42, True)"
    using file_name_roundtrip [OF demo_extract_ok demo_spec, of "''log_''" "''.txt''" "''00001''" "''log_%05.2N.txt''" 42 "()"]
      demo_digits g by simp
qed

theorem appended_digits_read_as_counter_witness:
  "match_pattern demo_name_env (generate_name demo_name_env (parse_file_name_pattern demo_name_env ''log_%05.2N'') 42 () @ ''00001'')
     ''log_%05.2N'' = Inr (True, 4200001, True)"
  using appended_digits_read_as_counter [OF demo_extract_ok demo_spec, of "''log_''" "''00001''" 42 "''log_%05.2N''" "()"]
    demo_digits by simp

theorem escaped_percent_not_replaced_witness:
  "generate_name demo_name_env (parse_file_name_pattern demo_name_env ''100%%.log'') 7 () = ''100%%.log'' \<and>
   match_pattern demo_name_env ''100%%.log'' ''100%%.log'' = Inr (False, 0, False)"
  using escaped_percent_not_replaced [of "''100''" "''.log''" "''100%%.log''" demo_name_env 7 "()"] by simp

end
