(* ===== verification/File_Rotation.thy ===== *)
theory File_Rotation
  imports Prelude
begin

text \<open>
  Time-based file rotation (src/src/text_file_backend.cpp): the predicates that tell whether a moment of rotation
  has passed since the previous rotation. A time point is a number of seconds, a date a number of days, as in
  Boost.DateTime; the calendar functions of that library are those of \<open>calendar\<close>.
\<close>

section \<open>Data\<close>

record 'e calendar =
  cal_weekday :: "int \<Rightarrow> int"
  cal_ymd :: "int \<Rightarrow> int \<times> int \<times> int"
  cal_date :: "int \<Rightarrow> int \<Rightarrow> int \<Rightarrow> 'e + int"
  cal_add_months :: "int \<Rightarrow> int \<Rightarrow> int"

definition date_of :: "int \<Rightarrow> int" where
  "date_of t = t div 86400"

definition time_of_day :: "int \<Rightarrow> int" where
  "time_of_day t = t mod 86400"

definition time_point :: "int \<Rightarrow> int \<Rightarrow> int" where
  "time_point d s = d * 86400 + s"

datatype day_kind = Not_Specified | Weekday | Monthday

record rotation_point =
  ro_day :: int
  ro_kind :: day_kind
  ro_hour :: int
  ro_minute :: int
  ro_second :: int
  ro_previous :: "int option"

datatype range_error = Hours_Out_Of_Range | Minutes_Out_Of_Range | Seconds_Out_Of_Range

definition check_time_point_validity :: "int \<Rightarrow> int \<Rightarrow> int \<Rightarrow> range_error + unit" where
  "check_time_point_validity h m s =
     (if h \<ge> 24 then Inl Hours_Out_Of_Range
      else if m \<ge> 60 then Inl Minutes_Out_Of_Range
      else if s \<ge> 60 then Inl Seconds_Out_Of_Range
      else Inr ())"

definition new_rotation_point :: "day_kind \<Rightarrow> int \<Rightarrow> int \<Rightarrow> int \<Rightarrow> int \<Rightarrow> range_error + rotation_point" where
  "new_rotation_point kind day h m s =
     bind_res (check_time_point_validity h m s) (\<lambda>_.
       Inr \<lparr>ro_day = day, ro_kind = kind, ro_hour = h, ro_minute = m, ro_second = s, ro_previous = None\<rparr>)"

section \<open>Predicates\<close>

definition rotation_time :: "rotation_point \<Rightarrow> int" where
  "rotation_time r = ro_hour r * 3600 + ro_minute r * 60 + ro_second r"

text \<open>The next moment of rotation after the previous one.\<close>

definition next_rotation :: "'e calendar \<Rightarrow> rotation_point \<Rightarrow> int \<Rightarrow> 'e + int" where
  "next_rotation cal r previous =
     (let time_of_day_passed = rotation_time r \<le> time_of_day previous;
          previous_date = date_of previous
      in case ro_kind r of
           Not_Specified \<Rightarrow>
             Inr (time_point (if time_of_day_passed then previous_date + 1 else previous_date) (rotation_time r))
         | Weekday \<Rightarrow>
             (let wday = ro_day r; previous_weekday = cal_weekday cal previous_date;
                  next_date = previous_date + (wday - previous_weekday);
                  next_date = (if wday < previous_weekday \<or> wday = previous_weekday \<and> time_of_day_passed
                               then next_date + 7 else next_date)
              in Inr (time_point next_date (rotation_time r)))
         | Monthday \<Rightarrow>
             (case cal_ymd cal previous_date of
                (year, month, previous_monthday) \<Rightarrow>
                  bind_res (cal_date cal year month (ro_day r)) (\<lambda>next_date.
                    let next_date = (if ro_day r < previous_monthday \<or>
                                        ro_day r = previous_monthday \<and> time_of_day_passed
                                     then cal_add_months cal next_date 1 else next_date)
                    in Inr (time_point next_date (rotation_time r)))))"

definition rotation_at_time_point ::
  "'e calendar \<Rightarrow> int \<Rightarrow> rotation_point \<Rightarrow> ('e + bool) \<times> rotation_point"
where
  "rotation_at_time_point cal now r =
     (case ro_previous r of
        None \<Rightarrow> (Inr False, r\<lparr>ro_previous := Some now\<rparr>)
      | Some previous \<Rightarrow>
          (case next_rotation cal r previous of
             Inl e \<Rightarrow> (Inl e, r)
           | Inr next \<Rightarrow>
               (let result = now \<ge> next
                in (Inr result, if result then r\<lparr>ro_previous := Some now\<rparr> else r))))"

record rotation_interval =
  ri_interval :: int
  ri_previous :: "int option"

definition rotation_at_time_interval :: "int \<Rightarrow> rotation_interval \<Rightarrow> bool \<times> rotation_interval" where
  "rotation_at_time_interval now r =
     (case ri_previous r of
        None \<Rightarrow> (False, r\<lparr>ri_previous := Some now\<rparr>)
      | Some previous \<Rightarrow>
          (let result = now - previous \<ge> ri_interval r
           in (result, if result then r\<lparr>ri_previous := Some now\<rparr> else r)))"

section \<open>Moments of rotation\<close>

text \<open>The specification: the time points at which a file is to be rotated.\<close>

definition rotation_moment :: "'e calendar \<Rightarrow> rotation_point \<Rightarrow> int \<Rightarrow> bool" where
  "rotation_moment cal r t \<longleftrightarrow>
     time_of_day t = rotation_time r \<and>
     (case ro_kind r of
        Not_Specified \<Rightarrow> True
      | Weekday \<Rightarrow> cal_weekday cal (date_of t) = ro_day r
      | Monthday \<Rightarrow> snd (snd (cal_ymd cal (date_of t))) = ro_day r)"

definition weeks_ok :: "'e calendar \<Rightarrow> bool" where
  "weeks_ok cal \<longleftrightarrow> (\<forall>d n. cal_weekday cal (d + n) = (cal_weekday cal d + n) mod 7)"

lemma time_point_parts:
  assumes "0 \<le> s" "s < 86400"
  shows "date_of (time_point d s) = d" "time_of_day (time_point d s) = s"
  using assms by (simp_all add: date_of_def time_of_day_def time_point_def)

lemma time_point_collapse: "time_point (date_of t) (time_of_day t) = t"
  by (simp add: date_of_def time_of_day_def time_point_def)

lemma time_of_day_range: "0 \<le> time_of_day t" "time_of_day t < 86400"
  by (simp_all add: time_of_day_def)

lemma time_point_less:
  assumes "0 \<le> s" "s < 86400" "0 \<le> s'" "s' < 86400"
  shows "time_point d s < time_point d' s' \<longleftrightarrow> d < d' \<or> d = d' \<and> s < s'"
proof -
  have "time_point d s < time_point d' s'" if "d < d'"
  proof -
    have "d + 1 \<le> d'" using that by simp
    then have "(d + 1) * 86400 \<le> d' * 86400" by simp
    then show ?thesis using assms by (simp add: time_point_def)
  qed
  moreover have "\<not> time_point d s < time_point d' s'" if "d' < d"
  proof -
    have "d' + 1 \<le> d" using that by simp
    then have "(d' + 1) * 86400 \<le> d * 86400" by simp
    then show ?thesis using assms by (simp add: time_point_def)
  qed
  ultimately show ?thesis by (cases d d' rule: linorder_cases) (auto simp: time_point_def)
qed

definition next_moment :: "'e calendar \<Rightarrow> rotation_point \<Rightarrow> int \<Rightarrow> int \<Rightarrow> bool" where
  "next_moment cal r previous t \<longleftrightarrow> rotation_moment cal r t \<and> previous < t \<and>
     (\<forall>u. previous < u \<longrightarrow> rotation_moment cal r u \<longrightarrow> t \<le> u)"

text \<open>
  A moment on a date \<open>d\<close> is the next one when the date qualifies, it is after the previous rotation, and every
  date that qualifies is not before \<open>d\<close>.
\<close>

lemma next_momentI:
  assumes rt: "0 \<le> rotation_time r" "rotation_time r < 86400"
    and m: "rotation_moment cal r (time_point d (rotation_time r))"
    and after: "date_of previous < d \<or> date_of previous = d \<and> time_of_day previous < rotation_time r"
    and least: "\<And>d'. rotation_moment cal r (time_point d' (rotation_time r)) \<Longrightarrow>
      date_of previous < d' \<or> date_of previous = d' \<and> time_of_day previous < rotation_time r \<Longrightarrow> d \<le> d'"
  shows "next_moment cal r previous (time_point d (rotation_time r))"
  unfolding next_moment_def
proof (intro conjI allI impI)
  show "previous < time_point d (rotation_time r)"
    using after time_point_less [OF time_of_day_range rt, of "date_of previous" previous d] time_point_collapse by simp
  fix u assume u: "previous < u" "rotation_moment cal r u"
  then have t: "u = time_point (date_of u) (rotation_time r)"
    using time_point_collapse [of u] by (simp add: rotation_moment_def)
  have "d \<le> date_of u"
    using least [of "date_of u"] u t time_point_less [OF time_of_day_range rt, of "date_of previous" previous "date_of u"]
      time_point_collapse by metis
  then show "time_point d (rotation_time r) \<le> u" by (subst t) (simp add: time_point_def)
qed (rule m)

lemma weekday_distance:
  assumes "(a + k) mod 7 = (b :: int)" "0 \<le> a" "a < 7" "0 \<le> k"
  shows "k = b - a \<or> b - a + 7 \<le> k"
proof -
  define q where "q = (a + k) div 7"
  have "a + k = 7 * q + b" using assms(1) unfolding q_def by (metis mult_div_mod_eq)
  moreover have "0 \<le> q" using assms(2,4) unfolding q_def by simp
  ultimately show ?thesis using zero_less_imp_eq_int [of q] by (cases "q = 0") auto
qed

lemma next_rotation_next_moment:
  assumes rt: "0 \<le> rotation_time r" "rotation_time r < 86400"
    and wk: "weeks_ok cal" and kind: "ro_kind r \<noteq> Monthday" "ro_kind r = Weekday \<Longrightarrow> 0 \<le> ro_day r \<and> ro_day r < 7"
  shows "\<exists>t. next_rotation cal r previous = Inr t \<and> next_moment cal r previous t"
proof (cases "ro_kind r")
  case Not_Specified
  let ?d = "if rotation_time r \<le> time_of_day previous then date_of previous + 1 else date_of previous"
  have "next_moment cal r previous (time_point ?d (rotation_time r))"
    by (rule next_momentI [OF rt]) (use Not_Specified rt in \<open>auto simp: rotation_moment_def time_point_parts\<close>)
  then show ?thesis using Not_Specified by (auto simp: next_rotation_def Let_def)
next
  case Weekday
  let ?p = "date_of previous"
  define w where "w = cal_weekday cal ?p"
  have shift: "cal_weekday cal d = (w + (d - ?p)) mod 7" for d
    using wk [unfolded weeks_ok_def, rule_format, of ?p "d - ?p"] by (simp add: w_def)
  have w: "0 \<le> w" "w < 7" using shift [of ?p] by (simp_all add: w_def)
  have day: "0 \<le> ro_day r" "ro_day r < 7" using kind(2) Weekday by simp_all
  define d where "d = (if ro_day r < w \<or> ro_day r = w \<and> rotation_time r \<le> time_of_day previous
      then ?p + (ro_day r - w) + 7 else ?p + (ro_day r - w))"
  have "(w + (d - ?p)) mod 7 = ro_day r" using day by (auto simp: d_def)
  then have m: "rotation_moment cal r (time_point d (rotation_time r))"
    using Weekday shift rt by (simp add: rotation_moment_def time_point_parts)
  have "next_moment cal r previous (time_point d (rotation_time r))"
  proof (rule next_momentI [OF rt m])
    show "?p < d \<or> ?p = d \<and> time_of_day previous < rotation_time r" using w day by (auto simp: d_def)
    fix d' assume d': "rotation_moment cal r (time_point d' (rotation_time r))"
      "?p < d' \<or> ?p = d' \<and> time_of_day previous < rotation_time r"
    have "(w + (d' - ?p)) mod 7 = ro_day r"
      using d'(1) Weekday shift rt by (simp add: rotation_moment_def time_point_parts)
    from weekday_distance [OF this w] d'(2) show "d \<le> d'" by (auto simp: d_def)
  qed
  then show ?thesis using Weekday by (auto simp: next_rotation_def Let_def d_def w_def)
qed (use kind in simp)

section \<open>Properties\<close>

text \<open>
  C27. Rotation every day or on a day of the week takes place exactly when a moment of rotation, the specified time
  of such a day, has passed since the previous rotation, for all previous and current times.
\<close>

theorem rotation_exactly_at_moments:
  assumes "new_rotation_point kind day h m s = Inr r0" "0 \<le> h" "0 \<le> m" "0 \<le> s"
    and "kind \<noteq> Monthday" "kind = Weekday \<Longrightarrow> 0 \<le> day \<and> day < 7" "weeks_ok cal"
    and "r = r0\<lparr>ro_previous := Some previous\<rparr>"
  shows "fst (rotation_at_time_point cal now r) = Inr (\<exists>t. previous < t \<and> t \<le> now \<and> rotation_moment cal r t)"
proof -
  have r: "ro_kind r = kind" "ro_day r = day" "ro_previous r = Some previous" "rotation_time r = h * 3600 + m * 60 + s"
    and lim: "h < 24" "m < 60" "s < 60"
    using assms(1,8) by (auto simp: new_rotation_point_def check_time_point_validity_def rotation_time_def split: if_splits)
  have rt: "0 \<le> rotation_time r" "rotation_time r < 86400" using r(4) lim assms(2-4) by auto
  have k: "ro_kind r \<noteq> Monthday" "ro_kind r = Weekday \<Longrightarrow> 0 \<le> ro_day r \<and> ro_day r < 7" using assms(5,6) r by simp_all
  obtain t where t: "next_rotation cal r previous = Inr t" "next_moment cal r previous t"
    using next_rotation_next_moment [OF rt assms(7) k] by blast
  then have "t \<le> now \<longleftrightarrow> (\<exists>t. previous < t \<and> t \<le> now \<and> rotation_moment cal r t)"
    unfolding next_moment_def by (meson order_trans)
  then show ?thesis using t(1) r(3) by (simp add: rotation_at_time_point_def Let_def)
qed

fun run_rotation :: "'e calendar \<Rightarrow> int list \<Rightarrow> rotation_point \<Rightarrow> ('e + bool) list" where
  "run_rotation cal [] r = []"
| "run_rotation cal (now # nows) r =
     (let (x, r) = rotation_at_time_point cal now r in x # run_rotation cal nows r)"

text \<open>
  C28. Rotation on a day of the month: when the month of the previous rotation does not have the day, every later
  call of the predicate throws, at whatever time it is made, because the exception leaves the previous rotation
  as it is.
\<close>

theorem missing_monthday_throws_forever:
  assumes "ro_kind r = Monthday" "ro_previous r = Some previous" "cal_ymd cal (date_of previous) = (year, month, d)"
    and "cal_date cal year month (ro_day r) = Inl e"
  shows "run_rotation cal nows r = replicate (length nows) (Inl e)"
  by (induction nows) (simp_all add: rotation_at_time_point_def next_rotation_def assms Let_def)

definition demo_calendar :: "string calendar" where
  "demo_calendar =
     \<lparr>cal_weekday = (\<lambda>d. d mod 7), cal_ymd = (\<lambda>d. (2023, 2, d + 1)),
      cal_date = (\<lambda>y m d. if m = 2 \<and> d > 28 then Inl ''bad day of month'' else Inr (d - 1)),
      cal_add_months = (\<lambda>d n. d + 28 * n)\<rparr>"

definition demo_point :: rotation_point where
  "demo_point = \<lparr>ro_day = 3, ro_kind = Weekday, ro_hour = 12, ro_minute = 30, ro_second = 0, ro_previous = None\<rparr>"

theorem rotation_exactly_at_moments_witness:
  "fst (rotation_at_time_point demo_calendar 400000 (demo_point\<lparr>ro_previous := Some 100000\<rparr>)) =
     Inr (\<exists>t. 100000 < t \<and> t \<le> 400000 \<and> rotation_moment demo_calendar (demo_point\<lparr>ro_previous := Some 100000\<rparr>) t)"
proof -
  have w: "weeks_ok demo_calendar" by (simp add: weeks_ok_def demo_calendar_def mod_add_left_eq)
  have n: "new_rotation_point Weekday 3 12 30 0 = Inr demo_point"
    by (simp add: new_rotation_point_def check_time_point_validity_def demo_point_def)
  show ?thesis by (rule rotation_exactly_at_moments [OF n _ _ _ _ _ w refl]) simp_all
qed

theorem missing_monthday_throws_forever_witness:
  "run_rotation demo_calendar [100, 864000, 8640000] (demo_point\<lparr>ro_day := 31, ro_kind := Monthday, ro_previous := Some 50\<rparr>) =
     replicate 3 (Inl ''bad day of month'')"
  using missing_monthday_throws_forever [of "demo_point\<lparr>ro_day := 31, ro_kind := Monthday, ro_previous := Some 50\<rparr>" 50
      demo_calendar 2023 2 1 "''bad day of month''" "[100, 864000, 8640000]"]
  by (simp add: demo_calendar_def date_of_def numeral_3_eq_3)

end
