(* ===== verification/File_Collector.thy ===== *)
theory File_Collector
  imports File_Name_Pattern
begin

text \<open>
  The file collector of the text file sink (src/src/text_file_backend.cpp): it keeps the list of the stored log
  files, moves files into its directory and erases old ones when the limits on the total size, the free space and
  the number of files are exceeded, and scans a directory for files that were stored before. The file system is
  Boost.Filesystem: its functions are those of \<open>fs_env\<close>, on the state \<open>'w\<close> of the world, and fail with an \<open>'e\<close>
  where they would throw. Each function holds the mutex of the collector and is one step.
\<close>

type_synonym path = string

section \<open>Computations with exceptions\<close>

type_synonym ('s, 'e, 'a) comp = "'s \<Rightarrow> ('e + 'a) \<times> 's"

definition ret :: "'a \<Rightarrow> ('s, 'e, 'a) comp" where
  "ret a s = (Inr a, s)"

definition throw :: "'e \<Rightarrow> ('s, 'e, 'a) comp" where
  "throw e s = (Inl e, s)"

definition seq :: "('s, 'e, 'a) comp \<Rightarrow> ('a \<Rightarrow> ('s, 'e, 'b) comp) \<Rightarrow> ('s, 'e, 'b) comp" where
  "seq m f s = (case m s of (Inl e, s) \<Rightarrow> (Inl e, s) | (Inr a, s) \<Rightarrow> f a s)"

definition query :: "('s \<Rightarrow> 'e + 'a) \<Rightarrow> ('s, 'e, 'a) comp" where
  "query f s = (f s, s)"

lemma seq_Inr: "seq m f s = (Inr b, s') \<longleftrightarrow> (\<exists>a s1. m s = (Inr a, s1) \<and> f a s1 = (Inr b, s'))"
  by (auto simp: seq_def split: prod.splits sum.splits)

lemma seq_cases:
  assumes "seq m f s = (r, s')"
  obtains (fails) e where "m s = (Inl e, s')" "r = Inl e"
    | (steps) a s1 where "m s = (Inr a, s1)" "f a s1 = (r, s')"
  using assms by (auto simp: seq_def split: prod.splits sum.splits)

section \<open>The file system\<close>

datatype 'e store_error = Fs_Error 'e | No_Free_Name | Pattern_Error pattern_error | Collector_Not_Set

record ('w, 'e) fs_env =
  fs_names :: "'w name_env"
  fs_filename :: "path \<Rightarrow> path"
  fs_parent :: "path \<Rightarrow> path option"
  fs_join :: "path \<Rightarrow> path \<Rightarrow> path"
  fs_absolute :: "path \<Rightarrow> path \<Rightarrow> path"
  fs_complete :: "path \<Rightarrow> 'w \<Rightarrow> 'e + path"
  fs_equivalent :: "path \<Rightarrow> path \<Rightarrow> 'w \<Rightarrow> 'e + bool"
  fs_exists :: "path \<Rightarrow> 'w \<Rightarrow> 'e + bool"
  fs_regular :: "path \<Rightarrow> 'w \<Rightarrow> bool"
  fs_directory :: "path \<Rightarrow> 'w \<Rightarrow> bool"
  fs_list :: "path \<Rightarrow> 'w \<Rightarrow> 'e + path list"
  fs_time :: "path \<Rightarrow> 'w \<Rightarrow> 'e + int"
  fs_size :: "path \<Rightarrow> 'w \<Rightarrow> 'e + u64"
  fs_space :: "path \<Rightarrow> 'w \<Rightarrow> 'e + u64"
  fs_mkdirs :: "path \<Rightarrow> 'w \<Rightarrow> ('e + unit) \<times> 'w"
  fs_remove :: "path \<Rightarrow> 'w \<Rightarrow> ('e + unit) \<times> 'w"
  fs_rename :: "path \<Rightarrow> path \<Rightarrow> 'w \<Rightarrow> 'e option \<times> 'w"
  fs_copy :: "path \<Rightarrow> path \<Rightarrow> 'w \<Rightarrow> ('e + unit) \<times> 'w"
  fs_cross_device :: "'e \<Rightarrow> bool"

text \<open>Moving a file: copied and removed when it cannot be renamed to another device.\<close>

definition move_file :: "('w, 'e) fs_env \<Rightarrow> path \<Rightarrow> path \<Rightarrow> 'w \<Rightarrow> ('e + unit) \<times> 'w" where
  "move_file env src dst w =
     (case fs_rename env src dst w of
        (None, w) \<Rightarrow> (Inr (), w)
      | (Some ec, w) \<Rightarrow>
          if fs_cross_device env ec then seq (fs_copy env src dst) (\<lambda>_. fs_remove env src) w else (Inl ec, w))"

section \<open>The collector\<close>

record file_info =
  fi_size :: u64
  fi_time :: int
  fi_path :: path

record file_collector =
  fc_max_size :: u64
  fc_min_free :: u64
  fc_max_files :: u64
  fc_base :: path
  fc_dir :: path
  fc_files :: "file_info list"
  fc_total :: u64

definition new_collector ::
  "('w, 'e) fs_env \<Rightarrow> path \<Rightarrow> path \<Rightarrow> u64 \<Rightarrow> u64 \<Rightarrow> u64 \<Rightarrow> 'w \<Rightarrow> ('e + file_collector) \<times> 'w"
where
  "new_collector env current target_dir max_size min_free max_files =
     (let dir = fs_absolute env target_dir current
      in seq (fs_mkdirs env dir) (\<lambda>_. ret
           \<lparr>fc_max_size = max_size, fc_min_free = min_free, fc_max_files = max_files, fc_base = current,
            fc_dir = dir, fc_files = [], fc_total = 0\<rparr>))"

text \<open>The first free name among those with a five-digit number appended.\<close>

lemma unat_plus_one:
  assumes "n \<noteq> NOT 0"
  shows "unat (n + 1 :: u32) = unat n + 1"
proof -
  have "1 + n \<noteq> 0" using assms by (metis add.commute add_diff_cancel_left' bit.compl_zero diff_0)
  from unatSuc [OF this] show ?thesis by (simp add: add.commute)
qed

function find_free_name ::
  "('w, 'e) fs_env \<Rightarrow> path \<Rightarrow> path \<Rightarrow> u32 \<Rightarrow> 'w \<Rightarrow> 'e store_error + path"
where
  "find_free_name env dir name n w =
     (let p = fs_join env dir (file_counter_formatter (length name) 5 name n)
      in case fs_exists env p w of
           Inl e \<Rightarrow> Inl (Fs_Error e)
         | Inr False \<Rightarrow> Inr p
         | Inr True \<Rightarrow> if n = NOT 0 then Inl No_Free_Name else find_free_name env dir name (n + 1) w)"
  by pat_completeness auto
termination
proof (relation "measure (\<lambda>(env, dir, name, n, w). 2 ^ 32 - unat n)", goal_cases)
  case (2 env dir name n w)
  then have "unat (n + 1) = unat n + 1" by (intro unat_plus_one) simp
  then show ?case using unat_lt_2_32 [of n] unat_lt_2_32 [of "n + 1"] by simp
qed simp

declare find_free_name.simps [simp del]

definition lift_error :: "'e + 'a \<Rightarrow> 'e store_error + 'a" where
  "lift_error x = (case x of Inl e \<Rightarrow> Inl (Fs_Error e) | Inr a \<Rightarrow> Inr a)"

definition ask :: "('w \<Rightarrow> 'e + 'a) \<Rightarrow> (file_collector \<times> 'w, 'e store_error, 'a) comp" where
  "ask f cw = (lift_error (f (snd cw)), cw)"

definition call :: "('w \<Rightarrow> ('e + 'a) \<times> 'w) \<Rightarrow> (file_collector \<times> 'w, 'e store_error, 'a) comp" where
  "call f cw = (case f (snd cw) of (x, w) \<Rightarrow> (lift_error x, (fst cw, w)))"

text \<open>Whether the file is already in the directory of the collector, and the path to store it at.\<close>

definition find_target ::
  "('w, 'e) fs_env \<Rightarrow> path \<Rightarrow> file_collector \<Rightarrow> (file_collector \<times> 'w, 'e store_error, bool \<times> path) comp"
where
  "find_target env src c =
     (let name = fs_filename env src; p = fs_join env (fc_dir c) name
      in seq (ask (\<lambda>w. case fs_parent env src of Some d \<Rightarrow> fs_complete env d w | None \<Rightarrow> Inr (fc_base c))) (\<lambda>src_dir.
         seq (ask (fs_equivalent env src_dir (fc_dir c))) (\<lambda>is_in_target_dir.
           if is_in_target_dir then ret (True, p)
           else seq (seq (ask (fs_exists env p)) (\<lambda>ex.
                     if ex then query (\<lambda>cw. find_free_name env (fc_dir c) name 0 (snd cw)) else ret p)) (\<lambda>p.
                seq (call (fs_mkdirs env (fc_dir c))) (\<lambda>_. ret (False, p))))))"

definition store_target ::
  "('w, 'e) fs_env \<Rightarrow> path \<Rightarrow> (file_collector \<times> 'w, 'e store_error, bool \<times> path) comp"
where
  "store_target env src cw = find_target env src (fst cw) cw"

text \<open>The entry of the file itself, when it is written in the directory, is dropped from the list.\<close>

fun drop_equivalent :: "('w, 'e) fs_env \<Rightarrow> path \<Rightarrow> 'w \<Rightarrow> file_info list \<Rightarrow> u64 \<Rightarrow> file_info list \<times> u64" where
  "drop_equivalent env p w [] tot = ([], tot)"
| "drop_equivalent env p w (f # fs) tot =
     (if fs_equivalent env (fi_path f) p w = Inr True then (fs, tot - fi_size f)
      else (let (fs, tot) = drop_equivalent env p w fs tot in (f # fs, tot)))"

text \<open>
  Erasing old files: \<open>kept\<close> are the entries before the iterator, whose files could not be removed. The world is
  asked for the free space after every removal when there is a limit on it.
\<close>

definition over_limits :: "file_collector \<Rightarrow> u64 \<Rightarrow> u64 \<Rightarrow> nat \<Rightarrow> u64 \<Rightarrow> bool" where
  "over_limits c sz tot count free \<longleftrightarrow>
     tot + sz > fc_max_size c \<or> fc_min_free c \<noteq> 0 \<and> fc_min_free c > free \<or> unat (fc_max_files c) \<le> count"

fun erase_old ::
  "('w, 'e) fs_env \<Rightarrow> file_collector \<Rightarrow> u64 \<Rightarrow> file_info list \<Rightarrow> file_info list \<Rightarrow> u64 \<Rightarrow> u64 \<Rightarrow> 'w \<Rightarrow>
   (file_info list \<times> u64) \<times> 'w"
where
  "erase_old env c sz kept [] tot free w = ((kept, tot), w)"
| "erase_old env c sz kept (old # rest) tot free w =
     (if over_limits c sz tot (length kept + length (old # rest)) free
      then (if fs_regular env (fi_path old) w
            then (case fs_remove env (fi_path old) w of
                    (Inl _, w) \<Rightarrow> erase_old env c sz (kept @ [old]) rest tot free w
                  | (Inr _, w) \<Rightarrow>
                      if fc_min_free c \<noteq> 0
                      then (case fs_space env (fc_dir c) w of
                              Inl _ \<Rightarrow> erase_old env c sz (kept @ [old]) rest tot free w
                            | Inr free \<Rightarrow> erase_old env c sz kept rest (tot - fi_size old) free w)
                      else erase_old env c sz kept rest (tot - fi_size old) free w)
            else erase_old env c sz kept rest (tot - fi_size old) free w)
      else ((kept @ old # rest, tot), w))"

definition set_files :: "file_info list \<Rightarrow> u64 \<Rightarrow> (file_collector \<times> 'w, 'e store_error, unit) comp" where
  "set_files fs tot cw = (Inr (), ((fst cw)\<lparr>fc_files := fs, fc_total := tot\<rparr>, snd cw))"

definition drop_own_entry :: "('w, 'e) fs_env \<Rightarrow> path \<Rightarrow> (file_collector \<times> 'w, 'e store_error, unit) comp" where
  "drop_own_entry env p cw =
     (case drop_equivalent env p (snd cw) (fc_files (fst cw)) (fc_total (fst cw)) of
        (fs, tot) \<Rightarrow> set_files fs tot cw)"

definition make_room :: "('w, 'e) fs_env \<Rightarrow> u64 \<Rightarrow> (file_collector \<times> 'w, 'e store_error, unit) comp" where
  "make_room env sz =
     seq (\<lambda>cw. ask (\<lambda>w. if fc_min_free (fst cw) \<noteq> 0 then fs_space env (fc_dir (fst cw)) w else Inr 0) cw) (\<lambda>free cw.
       case erase_old env (fst cw) sz [] (fc_files (fst cw)) (fc_total (fst cw)) free (snd cw) of
         ((fs, tot), w) \<Rightarrow> set_files fs tot (fst cw, w))"

definition push_file :: "file_info \<Rightarrow> (file_collector \<times> 'w, 'e store_error, unit) comp" where
  "push_file info cw = set_files (fc_files (fst cw) @ [info]) (fc_total (fst cw) + fi_size info) cw"

definition store_file :: "('w, 'e) fs_env \<Rightarrow> path \<Rightarrow> (file_collector \<times> 'w, 'e store_error, unit) comp" where
  "store_file env src =
     seq (ask (fs_time env src)) (\<lambda>time.
     seq (ask (fs_size env src)) (\<lambda>sz.
     seq (store_target env src) (\<lambda>(is_in_target_dir, p).
     seq (if is_in_target_dir then drop_own_entry env p else ret ()) (\<lambda>_.
     seq (make_room env sz) (\<lambda>_.
     seq (if is_in_target_dir then ret () else call (move_file env src p)) (\<lambda>_.
     push_file \<lparr>fi_size = sz, fi_time = time, fi_path = p\<rparr>))))))"

definition is_in_storage :: "('w, 'e) fs_env \<Rightarrow> file_collector \<Rightarrow> path \<Rightarrow> 'w \<Rightarrow> bool" where
  "is_in_storage env c src w =
     (let name = fs_filename env src; trg_path = fs_join env (fc_dir c) name
      in case (case fs_parent env src of Some d \<Rightarrow> fs_complete env d w | None \<Rightarrow> Inr (fc_base c)) of
           Inl _ \<Rightarrow> False
         | Inr src_dir \<Rightarrow>
             fs_regular env trg_path w \<and> fs_equivalent env (fs_join env src_dir name) trg_path w = Inr True)"

section \<open>Scanning\<close>

datatype scan_method = No_Scan | Scan_Matching | Scan_All

record scan_result =
  sr_found :: u64
  sr_last :: "u32 option"

definition newer_counter :: "u32 \<Rightarrow> u32 option \<Rightarrow> bool" where
  "newer_counter n prev = (case prev of None \<Rightarrow> True | Some m \<Rightarrow> n - m < (NOT 0 XOR drop_bit 1 (NOT 0)))"

fun find_equivalent :: "('w, 'e) fs_env \<Rightarrow> path \<Rightarrow> 'w \<Rightarrow> file_info list \<Rightarrow> 'e + bool" where
  "find_equivalent env p w [] = Inr False"
| "find_equivalent env p w (f # fs) =
     (case fs_equivalent env (fi_path f) p w of
        Inl e \<Rightarrow> Inl e
      | Inr True \<Rightarrow> Inr True
      | Inr False \<Rightarrow> find_equivalent env p w fs)"

definition match_entry ::
  "('w, 'e) fs_env \<Rightarrow> scan_method \<Rightarrow> string \<Rightarrow> path \<Rightarrow> 'e store_error + bool \<times> u32 \<times> bool"
where
  "match_entry env method msk p =
     (if method \<noteq> Scan_Matching then Inr (True, 0, False)
      else case match_pattern (fs_names env) (fs_filename env p) msk of
             Inl e \<Rightarrow> Inl (Pattern_Error e)
           | Inr x \<Rightarrow> Inr x)"

definition add_entry ::
  "path \<Rightarrow> u64 \<Rightarrow> int \<Rightarrow> u32 \<Rightarrow> bool \<Rightarrow> file_info list \<times> u64 \<times> scan_result \<Rightarrow> file_info list \<times> u64 \<times> scan_result"
where
  "add_entry p sz time n parsed st =
     (case st of (files, tot, result) \<Rightarrow>
        (files @ [\<lparr>fi_size = sz, fi_time = time, fi_path = p\<rparr>], tot + sz,
         \<lparr>sr_found = sr_found result + 1,
          sr_last = (if parsed \<and> newer_counter n (sr_last result) then Some n else sr_last result)\<rparr>))"

definition scan_entry ::
  "('w, 'e) fs_env \<Rightarrow> file_collector \<Rightarrow> scan_method \<Rightarrow> string \<Rightarrow> 'w \<Rightarrow> path \<Rightarrow>
   file_info list \<times> u64 \<times> scan_result \<Rightarrow> 'e store_error + file_info list \<times> u64 \<times> scan_result"
where
  "scan_entry env c method msk w p st =
     (if \<not> fs_regular env p w then Inr st
      else bind_res (lift_error (find_equivalent env p w (fc_files c))) (\<lambda>dup.
        if dup then Inr st
        else bind_res (match_entry env method msk p) (\<lambda>(matches, n, parsed).
          if \<not> matches then Inr st
          else bind_res (lift_error (fs_size env p w)) (\<lambda>sz.
               bind_res (lift_error (fs_time env p w)) (\<lambda>time.
                 Inr (add_entry p sz time n parsed st))))))"

fun scan_entries ::
  "('w, 'e) fs_env \<Rightarrow> file_collector \<Rightarrow> scan_method \<Rightarrow> string \<Rightarrow> 'w \<Rightarrow> path list \<Rightarrow>
   file_info list \<times> u64 \<times> scan_result \<Rightarrow> 'e store_error + file_info list \<times> u64 \<times> scan_result"
where
  "scan_entries env c method msk w [] st = Inr st"
| "scan_entries env c method msk w (p # ps) st =
     bind_res (scan_entry env c method msk w p st) (scan_entries env c method msk w ps)"

definition scan_for_files ::
  "('w, 'e) fs_env \<Rightarrow> scan_method \<Rightarrow> path \<Rightarrow> (file_collector \<times> 'w, 'e store_error, scan_result) comp"
where
  "scan_for_files env method pattern cw =
     (let (c, w) = cw; result = \<lparr>sr_found = 0, sr_last = None\<rparr>
      in if method = No_Scan then (Inr result, cw)
         else
           let msk = (if method = Scan_Matching then fs_filename env pattern else []);
               dir = (if method = Scan_Matching
                      then (case fs_parent env pattern of
                              Some d \<Rightarrow> fs_absolute env d (fc_base c) | None \<Rightarrow> fc_dir c)
                      else fc_dir c)
           in if \<not> fs_directory env dir w then (Inr result, cw)
              else case bind_res (lift_error (fs_list env dir w)) (\<lambda>ps.
                          scan_entries env c method msk w ps ([], 0, result)) of
                     Inl e \<Rightarrow> (Inl e, cw)
                   | Inr (files, tot, result) \<Rightarrow>
                       (Inr result,
                        (c\<lparr>fc_files := sort_key fi_time (fc_files c @ files), fc_total := fc_total c + tot\<rparr>, w)))"

definition update_limits :: "u64 \<Rightarrow> u64 \<Rightarrow> u64 \<Rightarrow> file_collector \<Rightarrow> file_collector" where
  "update_limits max_size min_free max_files c =
     c\<lparr>fc_max_size := min (fc_max_size c) max_size, fc_min_free := max (fc_min_free c) min_free,
       fc_max_files := min (fc_max_files c) max_files\<rparr>"

section \<open>The repository of collectors\<close>

text \<open>
  At most one collector per directory is in use: a collector that governs the directory is updated and shared,
  unless it is being destroyed, which \<open>alive\<close> tells.
\<close>

fun find_governed :: "('w, 'e) fs_env \<Rightarrow> path \<Rightarrow> 'w \<Rightarrow> nat \<Rightarrow> file_collector list \<Rightarrow> 'e + nat option" where
  "find_governed env dir w i [] = Inr None"
| "find_governed env dir w i (c # cs) =
     bind_res (fs_equivalent env (fc_dir c) dir w) (\<lambda>b.
       if b then Inr (Some i) else find_governed env dir w (i + 1) cs)"

definition create_collector ::
  "('w, 'e) fs_env \<Rightarrow> path \<Rightarrow> path \<Rightarrow> u64 \<Rightarrow> u64 \<Rightarrow> u64 \<Rightarrow> (file_collector list \<times> 'w, 'e, nat) comp"
where
  "create_collector env current target_dir max_sz min_free max_files cw =
     (case cw of (cs, w) \<Rightarrow>
       (case new_collector env current target_dir max_sz min_free max_files w of
          (Inl e, w) \<Rightarrow> (Inl e, (cs, w))
        | (Inr c, w) \<Rightarrow> (Inr (length cs), (cs @ [c], w))))"

definition get_collector ::
  "('w, 'e) fs_env \<Rightarrow> (nat \<Rightarrow> bool) \<Rightarrow> path \<Rightarrow> path \<Rightarrow> u64 \<Rightarrow> u64 \<Rightarrow> u64 \<Rightarrow>
   (file_collector list \<times> 'w, 'e, nat) comp"
where
  "get_collector env alive current target_dir max_sz min_free max_files cw =
     (case cw of (cs, w) \<Rightarrow>
       (case find_governed env target_dir w 0 cs of
          Inl e \<Rightarrow> (Inl e, cw)
        | Inr found \<Rightarrow>
            (case found of
               Some i \<Rightarrow>
                 if alive i then (Inr i, (cs[i := update_limits max_sz min_free max_files (cs ! i)], w))
                 else create_collector env current target_dir max_sz min_free max_files cw
             | None \<Rightarrow> create_collector env current target_dir max_sz min_free max_files cw)))"

definition remove_collector :: "nat \<Rightarrow> file_collector list \<Rightarrow> file_collector list" where
  "remove_collector i cs = take i cs @ drop (i + 1) cs"

end
