(* ===== verification/File_Collector_Properties.thy ===== *)
theory File_Collector_Properties
  imports File_Collector "HOL-Library.Multiset"
begin

text \<open>
  Correctness of the file collector: the accounting of the total size, which files are erased to keep the limits,
  what a scan adds, and the search for a free name.
\<close>

section \<open>Invariants of computations\<close>

definition keeps :: "('s \<Rightarrow> bool) \<Rightarrow> ('s, 'e, 'a) comp \<Rightarrow> bool" where
  "keeps P m \<longleftrightarrow> (\<forall>s. P s \<longrightarrow> P (snd (m s)))"

named_theorems keeps_intros \<open>computations that keep an invariant\<close>

lemma keeps_seq [keeps_intros]: "keeps P m \<Longrightarrow> (\<And>a. keeps P (f a)) \<Longrightarrow> keeps P (seq m f)"
  unfolding keeps_def seq_def by (auto split: prod.splits sum.splits; metis snd_conv)

lemma keeps_ret [keeps_intros]: "keeps P (ret a)"
  by (simp add: keeps_def ret_def)

lemma keeps_query [keeps_intros]: "keeps P (query f)"
  by (simp add: keeps_def query_def)

lemma keeps_if [keeps_intros]: "keeps P a \<Longrightarrow> keeps P b \<Longrightarrow> keeps P (if x then a else b)"
  by simp

lemma keeps_with: "(\<And>c. keeps P (g c)) \<Longrightarrow> keeps P (\<lambda>cw. g (fst cw) cw)"
  by (simp add: keeps_def)

section \<open>The total size\<close>

abbreviation total_size :: "file_info list \<Rightarrow> u64" where
  "total_size fs \<equiv> sum_list (map fi_size fs)"

definition collector_ok :: "file_collector \<Rightarrow> bool" where
  "collector_ok c \<longleftrightarrow> fc_total c = total_size (fc_files c)"

lemma keeps_ask [keeps_intros]: "keeps P (ask f)"
  by (simp add: keeps_def ask_def)

lemma keeps_call [keeps_intros]: "keeps (\<lambda>cw. P (fst cw)) (call f)"
  by (simp add: keeps_def call_def split: prod.split)

lemma keeps_store_target [keeps_intros]: "keeps (\<lambda>cw. P (fst cw)) (store_target env src)"
  unfolding store_target_def [abs_def] find_target_def Let_def
  by (rule keeps_with) (intro keeps_intros)

lemma drop_equivalent_total:
  "drop_equivalent env p w fs tot = (fs', tot') \<Longrightarrow> tot = total_size fs + x \<Longrightarrow> tot' = total_size fs' + x"
  by (induction fs arbitrary: fs' tot' x) (auto split: if_splits prod.splits simp: algebra_simps)

lemma erase_old_Cons_cases:
  assumes "erase_old env c sz kept (old # rest) tot free w = x"
  obtains (stop) "\<not> over_limits c sz tot (length kept + length (old # rest)) free" "x = ((kept @ old # rest, tot), w)"
    | (keep) w1 where "over_limits c sz tot (length kept + length (old # rest)) free"
        "erase_old env c sz (kept @ [old]) rest tot free w1 = x"
        "\<exists>w2 e. fs_remove env (fi_path old) w = (Inl e, w2) \<or> fs_space env (fc_dir c) w2 = Inl e \<and> fc_min_free c \<noteq> 0"
    | (drop) free1 w1 where "over_limits c sz tot (length kept + length (old # rest)) free"
        "erase_old env c sz kept rest (tot - fi_size old) free1 w1 = x" "fc_min_free c = 0 \<Longrightarrow> free1 = free"
proof -
  obtain r w1 where r: "fs_remove env (fi_path old) w = (r, w1)" by (metis surj_pair)
  show ?thesis
  proof (cases "over_limits c sz tot (length kept + length (old # rest)) free \<and> fs_regular env (fi_path old) w")
    case False
    then show ?thesis using assms stop drop [of free w] by (auto split: if_splits)
  next
    case True
    show ?thesis
    proof (cases r)
      case (Inl e)
      then show ?thesis using assms True r keep [of w1] by auto
    next
      case (Inr u)
      show ?thesis
      proof (cases "fc_min_free c \<noteq> 0")
        case True
        then show ?thesis
          using assms \<open>over_limits c sz tot (length kept + length (old # rest)) free \<and> fs_regular env (fi_path old) w\<close>
            r Inr keep [of w1] drop by (cases "fs_space env (fc_dir c) w1") auto
      next
        case False
        then show ?thesis
          using assms \<open>over_limits c sz tot (length kept + length (old # rest)) free \<and> fs_regular env (fi_path old) w\<close>
            r Inr drop [of free w1] by auto
      qed
    qed
  qed
qed

lemma erase_old_total:
  "erase_old env c sz kept rest tot free w = ((fs, tot'), w') \<Longrightarrow> tot = total_size (kept @ rest) \<Longrightarrow> tot' = total_size fs"
proof (induction rest arbitrary: kept tot free w)
  case (Cons old rest)
  from Cons.prems(1) show ?case
  proof (cases rule: erase_old_Cons_cases)
    case stop
    then show ?thesis using Cons.prems(2) by simp
  next
    case (keep w1)
    then show ?thesis using Cons.IH [OF keep(2)] Cons.prems(2) by simp
  next
    case (drop free1 w1)
    then show ?thesis using Cons.IH [OF drop(2)] Cons.prems(2) by (simp add: algebra_simps)
  qed
qed simp

lemma drop_own_entry_keeps [keeps_intros]: "keeps (\<lambda>cw. collector_ok (fst cw)) (drop_own_entry env p)"
  using drop_equivalent_total [where x = 0]
  by (auto simp: keeps_def drop_own_entry_def set_files_def collector_ok_def split: prod.splits)

lemma make_room_keeps [keeps_intros]: "keeps (\<lambda>cw. collector_ok (fst cw)) (make_room env sz)"
  unfolding make_room_def
proof (rule keeps_seq)
  show "keeps (\<lambda>cw. collector_ok (fst cw))
      (\<lambda>cw. ask (\<lambda>w. if fc_min_free (fst cw) \<noteq> 0 then fs_space env (fc_dir (fst cw)) w else Inr 0) cw)"
    by (simp add: keeps_def ask_def)
  show "keeps (\<lambda>cw. collector_ok (fst cw)) (\<lambda>cw.
      case erase_old env (fst cw) sz [] (fc_files (fst cw)) (fc_total (fst cw)) free (snd cw) of
         ((fs, tot), w) \<Rightarrow> set_files fs tot (fst cw, w))" for free
    using erase_old_total [where kept = "[]"]
    by (auto simp: keeps_def set_files_def collector_ok_def split: prod.splits)
qed

lemma push_file_keeps [keeps_intros]: "keeps (\<lambda>cw. collector_ok (fst cw)) (push_file info)"
  by (simp add: keeps_def push_file_def set_files_def collector_ok_def)

lemma store_file_keeps: "keeps (\<lambda>cw. collector_ok (fst cw)) (store_file env src)"
  unfolding store_file_def by (intro keeps_intros) (auto intro!: keeps_intros split: prod.split)

section \<open>Scanning\<close>

definition counter_of :: "('w, 'e) fs_env \<Rightarrow> string \<Rightarrow> path \<Rightarrow> u32 option" where
  "counter_of env msk p =
     (case match_pattern (fs_names env) (fs_filename env p) msk of Inr (True, n, True) \<Rightarrow> Some n | _ \<Rightarrow> None)"

text \<open>\<open>last_of base ns l\<close>: \<open>l\<close> is the last of the counters \<open>ns\<close>, counted from \<open>base\<close> with wrap-around.\<close>

definition last_of :: "u32 \<Rightarrow> u32 list \<Rightarrow> u32 option \<Rightarrow> bool" where
  "last_of base ns l \<longleftrightarrow>
     (case l of None \<Rightarrow> ns = [] | Some m \<Rightarrow> m \<in> set ns \<and> (\<forall>n \<in> set ns. n - base \<le> m - base))"

lemma half_range: "(NOT 0 XOR drop_bit 1 (NOT 0) :: u32) = 0x80000000"
  by (simp add: drop_bit_eq_div)

lemma newer_counter_window:
  assumes "n - base < (0x80000000 :: u32)" "m - base < 0x80000000"
  shows "newer_counter n (Some m) \<longleftrightarrow> m - base \<le> n - base"
proof -
  define x y where "x = n - base" and "y = m - base"
  have "n - m = x - y" by (simp add: x_def y_def)
  moreover have "x - y < 0x80000000 \<longleftrightarrow> y \<le> x"
  proof -
    have b: "unat x < 2147483648" "unat y < 2147483648"
      using assms unfolding x_def [symmetric] y_def [symmetric] by (simp_all add: word_less_nat_alt)
    have "unat (x - y) = (if unat y \<le> unat x then unat x - unat y else unat x + 4294967296 - unat y)"
      using unat_sub_if_size [of x y] by (simp add: word_size)
    then have "unat (x - y) < 2147483648 \<longleftrightarrow> unat y \<le> unat x" using b by (simp split: if_splits)
    then show ?thesis by (simp add: word_less_nat_alt word_le_nat_alt)
  qed
  ultimately show ?thesis unfolding newer_counter_def half_range by (simp add: x_def y_def)
qed

lemma last_of_snoc:
  assumes "last_of base ns l" "\<forall>n \<in> set (ns @ [k]). n - base < 0x80000000"
  shows "last_of base (ns @ [k]) (if newer_counter k l then Some k else l)"
proof (cases l)
  case None
  then show ?thesis using assms(1) by (simp add: last_of_def newer_counter_def)
next
  case (Some m)
  then have m: "m \<in> set ns" "\<And>n. n \<in> set ns \<Longrightarrow> n - base \<le> m - base" using assms(1) by (simp_all add: last_of_def)
  have nc: "newer_counter k (Some m) \<longleftrightarrow> m - base \<le> k - base" 
    by (rule newer_counter_window) (use assms(2) m(1) in simp_all)
  show ?thesis
  proof (cases "m - base \<le> k - base")
    case True
    then have "n - base \<le> k - base" if "n \<in> set ns" for n using m(2) [OF that] by simp
    then show ?thesis using True nc Some by (simp add: last_of_def)
  next
    case False
    then have "k - base \<le> m - base" by simp
    then show ?thesis using False nc m Some by (simp add: last_of_def)
  qed
qed

definition counters :: "('w, 'e) fs_env \<Rightarrow> scan_method \<Rightarrow> string \<Rightarrow> file_info list \<Rightarrow> u32 list" where
  "counters env method msk fs =
     (if method = Scan_Matching then List.map_filter (\<lambda>f. counter_of env msk (fi_path f)) fs else [])"

definition scan_ok ::
  "('w, 'e) fs_env \<Rightarrow> scan_method \<Rightarrow> string \<Rightarrow> u32 \<Rightarrow> file_info list \<times> u64 \<times> scan_result \<Rightarrow> bool"
where
  "scan_ok env method msk base st \<longleftrightarrow>
     (case st of (files, tot, result) \<Rightarrow>
        tot = total_size files \<and> sr_found result = of_nat (length files) \<and>
        ((\<forall>n \<in> set (counters env method msk files). n - base < 0x80000000) \<longrightarrow>
         last_of base (counters env method msk files) (sr_last result)))"

lemma counters_snoc:
  "counters env method msk (fs @ [f]) = counters env method msk fs @
     (if method = Scan_Matching then (case counter_of env msk (fi_path f) of None \<Rightarrow> [] | Some n \<Rightarrow> [n]) else [])"
  by (simp add: counters_def map_filter_def split: option.split)

lemma match_entry_counter:
  "match_entry env method msk p = Inr (True, n, parsed) \<Longrightarrow>
   (if parsed then method = Scan_Matching \<and> counter_of env msk p = Some n
    else method = Scan_Matching \<longrightarrow> counter_of env msk p = None)"
  by (auto simp: match_entry_def counter_of_def split: if_splits sum.splits prod.splits bool.splits)

lemma scan_entry_ok:
  assumes "scan_entry env c method msk w p st = Inr st'" "scan_ok env method msk base st"
  shows "scan_ok env method msk base st'"
proof -
  obtain files tot result where st: "st = (files, tot, result)" by (metis prod_cases3)
  show ?thesis
  proof (cases "st' = st")
    case False
    then obtain n parsed sz time where m: "match_entry env method msk p = Inr (True, n, parsed)"
      and a: "st' = add_entry p sz time n parsed st"
      using assms(1) by (auto simp: scan_entry_def bind_res_Inr_iff split: if_splits prod.splits)
    then have st': "st' = (files @ [\<lparr>fi_size = sz, fi_time = time, fi_path = p\<rparr>], tot + sz,
        \<lparr>sr_found = sr_found result + 1,
         sr_last = (if parsed \<and> newer_counter n (sr_last result) then Some n else sr_last result)\<rparr>)"
      by (simp add: st add_entry_def)
    show ?thesis
    proof (cases parsed)
      case True
      then have "counters env method msk (files @ [\<lparr>fi_size = sz, fi_time = time, fi_path = p\<rparr>]) =
          counters env method msk files @ [n]"
        using match_entry_counter [OF m] by (simp add: counters_snoc)
      then show ?thesis using assms(2) True last_of_snoc [of base "counters env method msk files" "sr_last result" n]
        by (auto simp: scan_ok_def st st')
    next
      case False
      then have "counters env method msk (files @ [\<lparr>fi_size = sz, fi_time = time, fi_path = p\<rparr>]) =
          counters env method msk files"
        using match_entry_counter [OF m] by (simp add: counters_snoc)
      then show ?thesis using assms(2) False by (auto simp: scan_ok_def st st')
    qed
  qed (use assms(2) in simp)
qed

lemma scan_entries_ok:
  "scan_entries env c method msk w ps st = Inr st' \<Longrightarrow> scan_ok env method msk base st \<Longrightarrow> scan_ok env method msk base st'"
proof (induction ps arbitrary: st)
  case (Cons p ps)
  then obtain st1 where s: "scan_entry env c method msk w p st = Inr st1" "scan_entries env c method msk w ps st1 = Inr st'"
    by (auto simp: bind_res_Inr_iff)
  show ?case by (rule Cons.IH [OF s(2) scan_entry_ok [OF s(1) Cons.prems(2)]])
qed simp

lemma scan_for_files_cases:
  assumes "scan_for_files env method pattern (c, w) = (r, (c', w'))"
  obtains (unchanged) "c' = c" "\<And>x. r = Inr x \<Longrightarrow> x = \<lparr>sr_found = 0, sr_last = None\<rparr>"
    | (scanned) msk files tot result where
        "\<And>base. scan_ok env method msk base (files, tot, result)" "r = Inr result"
        "c' = c\<lparr>fc_files := sort_key fi_time (fc_files c @ files), fc_total := fc_total c + tot\<rparr>"
        "method = Scan_Matching \<Longrightarrow> msk = fs_filename env pattern"
proof -
  have s0: "scan_ok env method msk base ([], 0, \<lparr>sr_found = 0, sr_last = None\<rparr>)" for msk base
    by (simp add: scan_ok_def counters_def last_of_def map_filter_def)
  let ?mask = "if method = Scan_Matching then fs_filename env pattern else []"
  let ?dir = "if method = Scan_Matching
      then (case fs_parent env pattern of Some d \<Rightarrow> fs_absolute env d (fc_base c) | None \<Rightarrow> fc_dir c) else fc_dir c"
  let ?run = "bind_res (lift_error (fs_list env ?dir w)) (\<lambda>ps.
      scan_entries env c method ?mask w ps ([], 0, \<lparr>sr_found = 0, sr_last = None\<rparr>))"
  show ?thesis
  proof (cases "method = No_Scan \<or> \<not> fs_directory env ?dir w \<or> (\<exists>e. ?run = Inl e)")
    case True
    then show ?thesis using assms unchanged by (auto simp: scan_for_files_def Let_def split: if_splits)
  next
    case False
    then obtain files tot result where r: "?run = Inr (files, tot, result)" by (metis prod_cases3 sum.exhaust)
    then have "scan_ok env method ?mask base (files, tot, result)" for base
      using scan_entries_ok [OF _ s0] by (auto simp: bind_res_Inr_iff)
    moreover have "r = Inr result" "c' = c\<lparr>fc_files := sort_key fi_time (fc_files c @ files), fc_total := fc_total c + tot\<rparr>"
      using assms False r by (simp_all add: scan_for_files_def Let_def)
    ultimately show ?thesis using scanned [of ?mask files tot result] by simp
  qed
qed

section \<open>Properties\<close>

text \<open>
  What a program does with a collector, with changes that others make to the file system in between.
\<close>

datatype 'w collector_op = Store path | Scan scan_method path | Update u64 u64 u64 | Others "'w \<Rightarrow> 'w"

fun collector_step :: "('w, 'e) fs_env \<Rightarrow> 'w collector_op \<Rightarrow> file_collector \<times> 'w \<Rightarrow> file_collector \<times> 'w" where
  "collector_step env (Store src) cw = snd (store_file env src cw)"
| "collector_step env (Scan method pattern) cw = snd (scan_for_files env method pattern cw)"
| "collector_step env (Update max_sz min_free max_files) cw =
     (update_limits max_sz min_free max_files (fst cw), snd cw)"
| "collector_step env (Others f) cw = (fst cw, f (snd cw))"

lemma collector_step_ok: "collector_ok (fst cw) \<Longrightarrow> collector_ok (fst (collector_step env x cw))"
proof (cases x)
  case (Store src)
  then show "collector_ok (fst cw) \<Longrightarrow> ?thesis" using store_file_keeps [of env src, unfolded keeps_def, THEN spec, of cw] by simp
next
  case (Scan meth pat)
  assume ok: "collector_ok (fst cw)"
  obtain r c' w' where s: "scan_for_files env meth pat (fst cw, snd cw) = (r, (c', w'))" by (metis prod_cases3)
  then have "collector_ok c'"
  proof (cases rule: scan_for_files_cases)
    case unchanged
    then show ?thesis using ok by simp
  next
    case (scanned msk files tot result)
    have "total_size (sort_key fi_time fs) = total_size fs" for fs
      by (metis mset_map mset_sort sum_mset_sum_list)
    then show ?thesis using scanned(1,3) ok by (simp add: collector_ok_def scan_ok_def)
  qed
  then show ?thesis using s Scan by simp
qed (simp_all add: collector_ok_def update_limits_def)

text \<open>
  C20. The total size that the collector compares with its limit is the sum of the sizes of the files in its list,
  after any sequence of stored files, scans and updates, whatever the file system does and whichever of the calls
  throw.
\<close>

theorem collector_total_size:
  assumes "fc_files c = []" "fc_total c = 0"
    and "fold (collector_step env) ops (c, w) = (c', w')"
  shows "fc_total c' = sum_list (map fi_size (fc_files c'))"
proof -
  have "collector_ok (fst (fold (collector_step env) ops cw))" if "collector_ok (fst cw)" for cw
    using that by (induction ops arbitrary: cw) (simp_all add: collector_step_ok)
  from this [of "(c, w)"] show ?thesis using assms by (simp add: collector_ok_def)
qed

text \<open>
  C22. Scanning a directory: the files that are found are added to the list, which is then in the order of the
  times of the files, and their number is returned. The counter that is returned is the last of the counters in
  the names of these files when all of them lie in a window of half the range of the counter, which may wrap
  around at its end.
\<close>

theorem scan_for_files_correct:
  assumes "scan_for_files env method pattern (c, w) = (Inr r, (c', w'))"
    and "sorted (map fi_time (fc_files c))"
  shows "\<exists>files. mset (fc_files c') = mset (fc_files c @ files) \<and> sorted (map fi_time (fc_files c')) \<and>
    sr_found r = of_nat (length files) \<and>
    (\<forall>base. (\<forall>n \<in> set (counters env method (fs_filename env pattern) files). n - base < 0x80000000) \<longrightarrow>
       last_of base (counters env method (fs_filename env pattern) files) (sr_last r))"
  using assms(1)
proof (cases rule: scan_for_files_cases)
  case unchanged
  then show ?thesis
    using assms(2) by (intro exI [of _ "[]"]) (simp add: counters_def last_of_def map_filter_def)
next
  case (scanned msk files tot result)
  have "counters env method (fs_filename env pattern) files = counters env method msk files"
    using scanned(4) by (simp add: counters_def)
  then show ?thesis using scanned(1-3) by (intro exI [of _ files]) (simp add: scan_ok_def)
qed

definition fallback_name :: "('w, 'e) fs_env \<Rightarrow> path \<Rightarrow> path \<Rightarrow> u32 \<Rightarrow> path" where
  "fallback_name env dir name n = fs_join env dir (file_counter_formatter (length name) 5 name n)"

definition free_name_found :: "('w, 'e) fs_env \<Rightarrow> path \<Rightarrow> path \<Rightarrow> u32 \<Rightarrow> 'w \<Rightarrow> 'e store_error + path \<Rightarrow> bool" where
  "free_name_found env dir name n w x \<longleftrightarrow>
     (case x of
        Inr p \<Rightarrow> \<exists>m \<ge> n. p = fallback_name env dir name m \<and> fs_exists env p w = Inr False \<and>
          (\<forall>k. n \<le> k \<and> k < m \<longrightarrow> fs_exists env (fallback_name env dir name k) w = Inr True)
      | Inl (Fs_Error e) \<Rightarrow> \<exists>m \<ge> n. fs_exists env (fallback_name env dir name m) w = Inl e
      | Inl No_Free_Name \<Rightarrow> \<forall>m \<ge> n. fs_exists env (fallback_name env dir name m) w = Inr True
      | Inl (Pattern_Error _) \<Rightarrow> False
      | Inl Collector_Not_Set \<Rightarrow> False)"

lemma word_step:
  assumes "n \<noteq> (NOT 0 :: u32)"
  shows "n \<le> k \<longleftrightarrow> k = n \<or> n + 1 \<le> k"
  using unat_plus_one [OF assms] by (auto simp: word_le_nat_alt word_unat_eq_iff)

lemma free_name_found_step:
  assumes "n \<noteq> (NOT 0 :: u32)" "fs_exists env (fallback_name env dir name n) w = Inr True"
    and "free_name_found env dir name (n + 1) w x"
  shows "free_name_found env dir name n w x"
proof -
  have s: "n \<le> k \<longleftrightarrow> k = n \<or> n + 1 \<le> k" for k by (rule word_step [OF assms(1)])
  have l: "n + 1 \<le> m \<Longrightarrow> n \<le> m" for m using s by blast
  show ?thesis
  proof (cases x)
    case (Inl e)
    then show ?thesis using assms(2,3) s l by (cases e) (auto simp: free_name_found_def)
  next
    case (Inr p)
    then obtain m where m: "n + 1 \<le> m" "p = fallback_name env dir name m" "fs_exists env p w = Inr False"
      "\<And>k. n + 1 \<le> k \<Longrightarrow> k < m \<Longrightarrow> fs_exists env (fallback_name env dir name k) w = Inr True"
      using assms(3) by (auto simp: free_name_found_def)
    have "fs_exists env (fallback_name env dir name k) w = Inr True" if "n \<le> k" "k < m" for k
      using that s [of k] m(4) assms(2) by blast
    then show ?thesis using m l Inr by (auto simp: free_name_found_def)
  qed
qed

text \<open>
  C23. The search for a free name always ends, although it may try every value of the counter: it gives the first
  name that is not taken, and fails only when all names are taken or the file system fails.
\<close>

theorem find_free_name_ends:
  "free_name_found env dir name n w (find_free_name env dir name n w)"
proof (induction env dir name n w rule: find_free_name.induct)
  case (1 env dir name n w)
  let ?p = "fallback_name env dir name n"
  consider (fail) e where "fs_exists env ?p w = Inl e" | (free) "fs_exists env ?p w = Inr False"
    | (taken) "fs_exists env ?p w = Inr True" by (cases "fs_exists env ?p w") auto
  then show ?case
  proof cases
    case fail
    then have "find_free_name env dir name n w = Inl (Fs_Error e)"
      by (subst find_free_name.simps) (simp add: fallback_name_def Let_def)
    then show ?thesis using fail by (auto simp: free_name_found_def)
  next
    case free
    then have "find_free_name env dir name n w = Inr ?p"
      by (subst find_free_name.simps) (simp add: fallback_name_def Let_def)
    then show ?thesis using free by (auto simp: free_name_found_def intro!: exI [of _ n])
  next
    case taken
    show ?thesis
    proof (cases "n = NOT 0")
      case True
      then have "find_free_name env dir name n w = Inl No_Free_Name"
        using taken by (subst find_free_name.simps) (simp add: fallback_name_def Let_def)
      moreover have "m = n" if "n \<le> m" for m using that True by (simp add: word_order.extremum_unique)
      ultimately show ?thesis using taken by (auto simp: free_name_found_def)
    next
      case False
      then have "find_free_name env dir name n w = find_free_name env dir name (n + 1) w"
        using taken by (subst find_free_name.simps) (simp add: fallback_name_def Let_def)
      moreover have "free_name_found env dir name (n + 1) w (find_free_name env dir name (n + 1) w)"
        using "1.IH" [OF refl _ refl False] taken by (simp add: fallback_name_def)
      ultimately show ?thesis using free_name_found_step [OF False taken] by simp
    qed
  qed
qed

section \<open>Storing a file\<close>

text \<open>
  An attempt to erase one old file, whatever the limits are: the entries that stay because their file could not
  be removed, the free space that is known afterwards, and the world. \<open>attempts j\<close> is the state after the first \<open>j\<close>
  entries, \<open>exceeded\<close> whether a limit is exceeded in it.
\<close>

definition try_erase ::
  "('w, 'e) fs_env \<Rightarrow> file_collector \<Rightarrow> file_info \<Rightarrow> file_info list \<times> u64 \<times> 'w \<Rightarrow> file_info list \<times> u64 \<times> 'w"
where
  "try_erase env c old st =
     (case st of (kept, free, w) \<Rightarrow>
       if \<not> fs_regular env (fi_path old) w then (kept, free, w)
       else (case fs_remove env (fi_path old) w of
               (Inl _, w) \<Rightarrow> (kept @ [old], free, w)
             | (Inr _, w) \<Rightarrow>
                 if fc_min_free c = 0 then (kept, free, w)
                 else (case fs_space env (fc_dir c) w of
                         Inl _ \<Rightarrow> (kept @ [old], free, w)
                       | Inr free \<Rightarrow> (kept, free, w))))"

definition attempts ::
  "('w, 'e) fs_env \<Rightarrow> file_collector \<Rightarrow> file_info list \<Rightarrow> nat \<Rightarrow> file_info list \<times> u64 \<times> 'w \<Rightarrow> file_info list \<times> u64 \<times> 'w"
where
  "attempts env c files j st = (case fold (try_erase env c) (take j files) st of (kept, free, w) \<Rightarrow> (kept @ drop j files, free, w))"

definition exceeded :: "file_collector \<Rightarrow> u64 \<Rightarrow> file_info list \<times> u64 \<times> 'w \<Rightarrow> bool" where
  "exceeded c sz st =
     (case st of (files, free, _) \<Rightarrow>
        fc_max_size c < total_size files + sz \<or> fc_min_free c \<noteq> 0 \<and> free < fc_min_free c \<or>
        unat (fc_max_files c) \<le> length files)"

lemma attempts_0 [simp]: "attempts env c files 0 (kept, free, w) = (kept @ files, free, w)"
  by (simp add: attempts_def)

lemma attempts_Suc [simp]: "attempts env c (old # rest) (Suc j) st = attempts env c rest j (try_erase env c old st)"
  by (simp add: attempts_def)

lemma erase_old_step:
  assumes "exceeded c sz (kept @ old # rest, free, w)" "try_erase env c old (kept, free, w) = (kept1, free1, w1)"
  shows "erase_old env c sz kept (old # rest) (total_size (kept @ old # rest)) free w =
    erase_old env c sz kept1 rest (total_size (kept1 @ rest)) free1 w1"
proof -
  have "over_limits c sz (total_size (kept @ old # rest)) (length kept + length (old # rest)) free"
    using assms(1) by (simp add: exceeded_def over_limits_def)
  then show ?thesis
    using assms(2) unfolding try_erase_def
    by (auto simp: algebra_simps split: if_splits prod.splits sum.splits)
qed

lemma erase_old_attempts:
  assumes "erase_old env c sz kept rest (total_size (kept @ rest)) free w = ((fs, tot), w')"
  shows "\<exists>k free'. k \<le> length rest \<and> (\<forall>j < k. exceeded c sz (attempts env c rest j (kept, free, w))) \<and>
    (k < length rest \<longrightarrow> \<not> exceeded c sz (attempts env c rest k (kept, free, w))) \<and>
    attempts env c rest k (kept, free, w) = (fs, free', w')"
  using assms
proof (induction rest arbitrary: kept free w)
  case (Cons old rest)
  show ?case
  proof (cases "exceeded c sz (kept @ old # rest, free, w)")
    case False
    then have "fs = kept @ old # rest" "w' = w" using Cons.prems by (auto simp: exceeded_def over_limits_def split: if_splits)
    then show ?thesis using False by (intro exI [of _ 0] exI [of _ free]) simp
  next
    case True
    obtain kept1 free1 w1 where s: "try_erase env c old (kept, free, w) = (kept1, free1, w1)" by (metis prod_cases3)
    obtain k free' where k: "k \<le> length rest" "\<forall>j < k. exceeded c sz (attempts env c rest j (kept1, free1, w1))"
      "k < length rest \<longrightarrow> \<not> exceeded c sz (attempts env c rest k (kept1, free1, w1))"
      "attempts env c rest k (kept1, free1, w1) = (fs, free', w')"
      using Cons.IH [OF Cons.prems [unfolded erase_old_step [OF True s]]] by blast
    have "exceeded c sz (attempts env c (old # rest) j (kept, free, w))" if "j < Suc k" for j
      using that k(2) True s by (cases j) simp_all
    then show ?thesis using k s by (intro exI [of _ "Suc k"] exI [of _ free']) simp
  qed
qed simp

lemma store_target_collector: "store_target env src (c, w) = (x, (c1, w1)) \<Longrightarrow> c1 = c"
  using keeps_store_target [of "\<lambda>c'. c' = c" env src, unfolded keeps_def, THEN spec, of "(c, w)"] by simp

lemma call_Inr: "call f (c, w) = (Inr a, cw) \<longleftrightarrow> (\<exists>w1. f w = (Inr a, w1) \<and> cw = (c, w1))"
  by (auto simp: call_def lift_error_def split: prod.splits sum.splits)

definition without_first :: "('a \<Rightarrow> bool) \<Rightarrow> 'a list \<Rightarrow> 'a list" where
  "without_first P xs = takeWhile (\<lambda>x. \<not> P x) xs @ tl (dropWhile (\<lambda>x. \<not> P x) xs)"

lemma drop_equivalent_first:
  "fst (drop_equivalent env p w fs tot) = without_first (\<lambda>f. fs_equivalent env (fi_path f) p w = Inr True) fs"
proof (induction fs arbitrary: tot)
  case (Cons f fs)
  show ?case using Cons.IH [of tot] by (auto simp: without_first_def split: prod.splits)
qed (simp add: without_first_def)

lemma own_entry_dropped:
  assumes "fc_total c = total_size (fc_files c)"
    and "(if in_dir then drop_own_entry env p else ret ()) (c, w) = (Inr () :: 'e store_error + unit, cw)"
    and "files = (if in_dir then without_first (\<lambda>f. fs_equivalent env (fi_path f) p w = Inr True) (fc_files c) else fc_files c)"
  shows "cw = (c\<lparr>fc_files := files, fc_total := total_size files\<rparr>, w)"
proof (cases in_dir)
  case True
  obtain fs tot where d: "drop_equivalent env p w (fc_files c) (fc_total c) = (fs, tot)" by (metis surj_pair)
  then have "tot = total_size fs" using drop_equivalent_total [OF d, of 0] assms(1) by simp
  moreover have "fs = files" using drop_equivalent_first [of env p w "fc_files c" "fc_total c"] d assms(3) True by simp
  ultimately show ?thesis using assms(2) True d by (auto simp: drop_own_entry_def set_files_def)
next
  case False
  then show ?thesis using assms by (auto simp: ret_def)
qed

lemma make_room_attempts:
  assumes "make_room env sz (c, w) = (Inr () :: 'e store_error + unit, (c1, w1))" "fc_total c = total_size (fc_files c)"
  shows "\<exists>k free free'. (if fc_min_free c = 0 then free = 0 else fs_space env (fc_dir c) w = Inr free) \<and>
    k \<le> length (fc_files c) \<and> (\<forall>j < k. exceeded c sz (attempts env c (fc_files c) j ([], free, w))) \<and>
    (k < length (fc_files c) \<longrightarrow> \<not> exceeded c sz (attempts env c (fc_files c) k ([], free, w))) \<and>
    attempts env c (fc_files c) k ([], free, w) = (fc_files c1, free', w1) \<and>
    fc_total c1 = total_size (fc_files c1)"
proof -
  obtain free where free: "if fc_min_free c = 0 then free = 0 else fs_space env (fc_dir c) w = Inr free"
    and e: "(case erase_old env c sz [] (fc_files c) (fc_total c) free w of
         ((fs, tot), w) \<Rightarrow> set_files fs tot (c, w)) = (Inr () :: 'e store_error + unit, (c1, w1))"
    using assms(1) by (auto simp: make_room_def seq_Inr ask_def lift_error_def split: if_splits sum.splits)
  obtain fs tot w2 where er: "erase_old env c sz [] (fc_files c) (total_size ([] @ fc_files c)) free w = ((fs, tot), w2)"
    by (metis surj_pair)
  have c1: "c1 = c\<lparr>fc_files := fs, fc_total := tot\<rparr>" "w1 = w2"
    using e er assms(2) by (simp_all add: set_files_def)
  have fs: "fc_files c1 = fs" "fc_total c1 = total_size fs"
    using c1 erase_old_total [OF er] by simp_all
  show ?thesis using erase_old_attempts [OF er] free unfolding fs c1(2) by blast
qed

text \<open>
  C21. Storing a file: the entry of the file itself, when it was written in the directory of the collector, is taken
  off the list without removing the file. Then, for the oldest entries one after the other, as long as a limit on
  the total size, the free space or the number of files is exceeded and no further, the file is removed, and the
  entry is taken off the list unless the removal, or asking for the free space after it, failed. Then the file is
  moved to its target unless it is there, and added at the end. Afterwards the limits hold, with the new file,
  unless all entries were tried.
\<close>

theorem store_file_erases_oldest:
  fixes env :: "('w, 'e) fs_env"
  assumes "store_file env src (c, w) = (Inr (), (c', w'))" "fc_total c = sum_list (map fi_size (fc_files c))"
  shows "\<exists>in_dir p w1 sz time files free k left free' w2.
    store_target env src (c, w) = (Inr (in_dir, p), (c, w1)) \<and> fs_size env src w = Inr sz \<and> fs_time env src w = Inr time \<and>
    files = (if in_dir then without_first (\<lambda>f. fs_equivalent env (fi_path f) p w1 = Inr True) (fc_files c) else fc_files c) \<and>
    (if fc_min_free c = 0 then free = 0 else fs_space env (fc_dir c) w1 = Inr free) \<and>
    k \<le> length files \<and> (\<forall>j < k. exceeded c sz (attempts env c files j ([], free, w1))) \<and>
    attempts env c files k ([], free, w1) = (left, free', w2) \<and>
    (if in_dir then w' = w2 else move_file env src p w2 = (Inr (), w')) \<and>
    fc_files c' = left @ [\<lparr>fi_size = sz, fi_time = time, fi_path = p\<rparr>] \<and>
    (k < length files \<longrightarrow> fc_total c' \<le> fc_max_size c \<and> length (fc_files c') \<le> unat (fc_max_files c) \<and>
       fc_min_free c \<le> (if fc_min_free c = 0 then 0 else free'))"
proof -
  obtain time sz in_dir p cw1 cw2 cw3 cw4 where t: "fs_time env src w = Inr time" "fs_size env src w = Inr sz"
    and st: "store_target env src (c, w) = (Inr (in_dir, p), cw1)"
    and ow: "(if in_dir then drop_own_entry env p else ret ()) cw1 = (Inr () :: 'e store_error + unit, cw2)"
    and mr: "make_room env sz cw2 = (Inr () :: 'e store_error + unit, cw3)"
    and mv: "(if in_dir then ret () else call (move_file env src p)) cw3 = (Inr (), cw4)"
    and pf: "push_file \<lparr>fi_size = sz, fi_time = time, fi_path = p\<rparr> cw4 = (Inr () :: 'e store_error + unit, (c', w'))"
    using assms(1) by (auto simp: store_file_def seq_Inr ask_def lift_error_def split: sum.splits)
  obtain w1 where cw1: "cw1 = (c, w1)" using store_target_collector st by (metis surj_pair)
  obtain files where files: "files = (if in_dir then without_first (\<lambda>f. fs_equivalent env (fi_path f) p w1 = Inr True) (fc_files c)
      else fc_files c)" by blast
  let ?c = "c\<lparr>fc_files := files, fc_total := total_size files\<rparr>"
  have cw2: "cw2 = (?c, w1)" using own_entry_dropped [OF assms(2) _ files] ow cw1 by blast
  obtain c3 w2 where cw3: "cw3 = (c3, w2)" by (metis surj_pair)
  have te: "try_erase env ?c = try_erase env c"
    by (auto simp: try_erase_def fun_eq_iff split: prod.splits sum.splits)
  have same: "attempts env ?c = attempts env c" "exceeded ?c = exceeded c"
    by (intro ext, simp only: attempts_def te) (simp add: exceeded_def fun_eq_iff)
  have sel: "fc_files ?c = files" "fc_total ?c = total_size files" "fc_dir ?c = fc_dir c" "fc_min_free ?c = fc_min_free c"
    by simp_all
  obtain k free free' where k: "if fc_min_free c = 0 then free = 0 else fs_space env (fc_dir c) w1 = Inr free"
    "k \<le> length files" "\<forall>j < k. exceeded c sz (attempts env c files j ([], free, w1))"
    "k < length files \<longrightarrow> \<not> exceeded c sz (attempts env c files k ([], free, w1))"
    "attempts env c files k ([], free, w1) = (fc_files c3, free', w2)" "fc_total c3 = total_size (fc_files c3)"
    using make_room_attempts [OF mr [unfolded cw2 cw3]] unfolding same sel by blast
  have cw4: "fst cw4 = c3" "if in_dir then snd cw4 = w2 else move_file env src p w2 = (Inr (), snd cw4)"
    using mv cw3 by (auto simp: ret_def call_Inr split: if_splits)
  have c': "fc_files c' = fc_files c3 @ [\<lparr>fi_size = sz, fi_time = time, fi_path = p\<rparr>]" "fc_total c' = total_size (fc_files c3) + sz"
    "w' = snd cw4" using pf cw4(1) k(6) by (auto simp: push_file_def set_files_def)
  have "k < length files \<longrightarrow> fc_total c' \<le> fc_max_size c \<and> length (fc_files c') \<le> unat (fc_max_files c) \<and>
       fc_min_free c \<le> (if fc_min_free c = 0 then 0 else free')"
    using k(4,5) c' by (auto simp: exceeded_def not_less not_le)
  then show ?thesis using t st cw1 files k(1-3,5) c'(1,3) cw4(2) by blast
qed

section \<open>Witnesses\<close>

text \<open>A file system whose state is the list of the existing paths; every file has the size 10.\<close>

definition demo_fs :: "(string list, string) fs_env" where
  "demo_fs =
     \<lparr>fs_names = \<lparr>fn_extract = (\<lambda>s. if s = ''7'' then Some (7, 1) else if s = ''8'' then Some (8, 1) else None), fn_frac_digits = 6, fn_date = (\<lambda>p w. None)\<rparr>,
      fs_filename = (\<lambda>p. rev (takeWhile (\<lambda>c. c \<noteq> CHR ''/'') (rev p))),
      fs_parent = (\<lambda>p. if CHR ''/'' \<in> set p then Some (rev (tl (dropWhile (\<lambda>c. c \<noteq> CHR ''/'') (rev p)))) else None),
      fs_join = (\<lambda>d n. d @ ''/'' @ n), fs_absolute = (\<lambda>p base. p), fs_complete = (\<lambda>p w. Inr p),
      fs_equivalent = (\<lambda>p q w. Inr (p = q)), fs_exists = (\<lambda>p w. Inr (p \<in> set w)), fs_regular = (\<lambda>p w. p \<in> set w),
      fs_directory = (\<lambda>p w. True), fs_list = (\<lambda>p w. Inr w), fs_time = (\<lambda>p w. Inr (int (length p))),
      fs_size = (\<lambda>p w. Inr 10), fs_space = (\<lambda>p w. Inr 0), fs_mkdirs = (\<lambda>p w. (Inr (), w)),
      fs_remove = (\<lambda>p w. (Inr (), removeAll p w)), fs_rename = (\<lambda>p q w. (None, q # removeAll p w)),
      fs_copy = (\<lambda>p q w. (Inr (), q # w)), fs_cross_device = (\<lambda>e. False)\<rparr>"

definition demo_collector :: "file_info list \<Rightarrow> file_collector" where
  "demo_collector fs =
     \<lparr>fc_max_size = 25, fc_min_free = 0, fc_max_files = 4, fc_base = ''b'', fc_dir = ''d'', fc_files = fs,
      fc_total = sum_list (map fi_size fs)\<rparr>"

definition demo_files :: "file_info list" where
  "demo_files = map (\<lambda>p. \<lparr>fi_size = 10, fi_time = 1, fi_path = p\<rparr>) [''d/1'', ''d/2'', ''d/3'']"

definition demo_paths :: "string list" where
  "demo_paths = [''d/1'', ''d/2'', ''d/3'', ''t/1'']"

definition demo_store :: "(string store_error + unit) \<times> file_collector \<times> string list" where
  "demo_store = store_file demo_fs ''t/1'' (demo_collector demo_files, demo_paths)"

lemma demo_store_run:
  "fst demo_store = Inr ()" "map fi_path (fc_files (fst (snd demo_store))) = [''d/3'', ''d/100000'']"
  "snd (snd demo_store) = [''d/100000'', ''d/3'']"
  "fst (store_target demo_fs ''t/1'' (demo_collector demo_files, demo_paths)) = Inr (False, ''d/100000'')"
  by code_simp+

lemma demo_store_split: "store_file demo_fs ''t/1'' (demo_collector demo_files, demo_paths) =
    (Inr (), (fst (snd demo_store), snd (snd demo_store)))"
  using demo_store_run(1) by (metis demo_store_def prod.collapse)

theorem store_file_erases_oldest_witness:
  "map fi_path (fc_files (fst (snd demo_store))) = [''d/3'', ''d/100000''] \<and>
   snd (snd demo_store) = [''d/100000'', ''d/3''] \<and>
   (\<exists>k left free w2. attempts demo_fs (demo_collector demo_files) demo_files k ([], 0, demo_paths) = (left, free, w2) \<and>
     fc_files (fst (snd demo_store)) = left @ [\<lparr>fi_size = 10, fi_time = 3, fi_path = ''d/100000''\<rparr>] \<and>
     move_file demo_fs ''t/1'' ''d/100000'' w2 = (Inr (), snd (snd demo_store)))"
proof -
  have c: "fc_total (demo_collector demo_files) = sum_list (map fi_size (fc_files (demo_collector demo_files)))"
    "fc_min_free (demo_collector demo_files) = 0" "fc_files (demo_collector demo_files) = demo_files"
    by (simp_all add: demo_collector_def)
  have s: "store_target demo_fs ''t/1'' (demo_collector demo_files, demo_paths) =
      (Inr (False, ''d/100000''), (demo_collector demo_files, demo_paths))" by code_simp
  have f: "fs_size demo_fs ''t/1'' demo_paths = Inr 10" "fs_time demo_fs ''t/1'' demo_paths = Inr 3"
    by (simp_all add: demo_fs_def)
  from store_file_erases_oldest [OF demo_store_split c(1)] obtain in_dir p w1 sz time files free k left free' w2 where
    o: "store_target demo_fs ''t/1'' (demo_collector demo_files, demo_paths) = (Inr (in_dir, p), (demo_collector demo_files, w1))"
    "fs_size demo_fs ''t/1'' demo_paths = Inr sz" "fs_time demo_fs ''t/1'' demo_paths = Inr time"
    "files = (if in_dir then without_first (\<lambda>f. fs_equivalent demo_fs (fi_path f) p w1 = Inr True) demo_files else demo_files)"
    "free = 0" "attempts demo_fs (demo_collector demo_files) files k ([], free, w1) = (left, free', w2)"
    "if in_dir then snd (snd demo_store) = w2 else move_file demo_fs ''t/1'' p w2 = (Inr (), snd (snd demo_store))"
    "fc_files (fst (snd demo_store)) = left @ [\<lparr>fi_size = sz, fi_time = time, fi_path = p\<rparr>]"
    unfolding c(2,3) if_P [OF refl] by blast
  have e: "in_dir = False" "p = ''d/100000''" "w1 = demo_paths" "sz = 10" "time = 3" using o(1-3) s f by simp_all
  have "attempts demo_fs (demo_collector demo_files) demo_files k ([], 0, demo_paths) = (left, free', w2)"
    using o(4-6) unfolding e by simp
  moreover have "move_file demo_fs ''t/1'' ''d/100000'' w2 = (Inr (), snd (snd demo_store))" using o(7) unfolding e by simp
  moreover note o(8) [unfolded e]
  ultimately show ?thesis using demo_store_run(2,3) by blast
qed

definition demo_ops :: "string list collector_op list" where
  "demo_ops = [Scan Scan_All ''d/f%N'', Others (\<lambda>w. ''t/1'' # w), Store ''t/1'', Update 5 0 9]"

theorem collector_total_size_witness:
  "fc_total (fst (fold (collector_step demo_fs) demo_ops (demo_collector [], [''d/f7'', ''d/f8'']))) =
     sum_list (map fi_size (fc_files (fst (fold (collector_step demo_fs) demo_ops (demo_collector [], [''d/f7'', ''d/f8''])))))"
  by (rule collector_total_size [OF _ _ prod.collapse [symmetric]]) (simp_all add: demo_collector_def)

definition demo_scan :: "(string store_error + scan_result) \<times> file_collector \<times> string list" where
  "demo_scan = scan_for_files demo_fs Scan_Matching ''d/f%N'' (demo_collector [], [''d/f8'', ''d/x'', ''d/f7''])"

lemma demo_scan_run: "fst demo_scan = Inr \<lparr>sr_found = 2, sr_last = Some 8\<rparr>"
  by code_simp

lemma demo_scan_split: "scan_for_files demo_fs Scan_Matching ''d/f%N'' (demo_collector [], [''d/f8'', ''d/x'', ''d/f7'']) =
    (Inr \<lparr>sr_found = 2, sr_last = Some 8\<rparr>, (fst (snd demo_scan), snd (snd demo_scan)))"
  using demo_scan_run by (metis demo_scan_def prod.collapse)

theorem scan_for_files_correct_witness:
  "\<exists>files. mset (fc_files (fst (snd demo_scan))) = mset files \<and> sorted (map fi_time (fc_files (fst (snd demo_scan)))) \<and>
     of_nat (length files) = (2 :: u64)"
  using scan_for_files_correct [OF demo_scan_split] by (auto simp: demo_collector_def)

end
