(* ===== verification/Text_File_Backend.thy ===== *)
theory Text_File_Backend
  imports File_Collector
begin

text \<open>
  The text file sink backend (src/src/text_file_backend.cpp): writing records to a file, rotating it when it would
  exceed its size or the time predicate says so, and handing rotated files to the file collector. The output
  stream is modelled by whether it is open and good; what it writes is in the world. Handlers and the time
  predicate are functions of the user.
\<close>

section \<open>State and environment\<close>

text \<open>The stream operations: opening gives whether it succeeded, writing and handlers whether the stream is good.\<close>

record ('w, 'e) file_env = "('w, 'e) fs_env" +
  st_open :: "path \<Rightarrow> bool \<Rightarrow> 'w \<Rightarrow> bool \<times> 'w"
  st_tellp :: "'w \<Rightarrow> u64"
  st_write :: "string \<Rightarrow> 'w \<Rightarrow> bool \<times> 'w"
  st_flush :: "'w \<Rightarrow> bool \<times> 'w"
  st_close :: "'w \<Rightarrow> 'w"
  h_open :: "('w \<Rightarrow> ('e + bool) \<times> 'w) option"
  h_close :: "('w \<Rightarrow> ('e + bool) \<times> 'w) option"
  h_time_rotation :: "('w \<Rightarrow> ('e + bool) \<times> 'w) option"

datatype auto_newline_mode = Disabled_Auto_Newline | Always_Insert | Insert_If_Missing

record openmode =
  om_app :: bool
  om_ate :: bool
  om_binary :: bool
  om_in :: bool
  om_out :: bool
  om_trunc :: bool

record backend =
  tb_generator :: name_generator
  tb_storage_dir :: path
  tb_target :: "(path \<times> name_generator) option"
  tb_counter :: u32
  tb_mode :: openmode
  tb_file_name :: path
  tb_open :: bool
  tb_good :: bool
  tb_written :: u64
  tb_collector :: "file_collector option"
  tb_rotation_size :: u64
  tb_newline :: auto_newline_mode
  tb_auto_flush :: bool
  tb_final_rotation :: bool
  tb_last_used :: bool
  tb_first :: bool

type_synonym ('w, 'e, 'a) bcomp = "(backend \<times> 'w, 'e store_error, 'a) comp"

definition set_open_mode :: "openmode \<Rightarrow> backend \<Rightarrow> backend" where
  "set_open_mode mode b =
     (let mode = mode\<lparr>om_out := True\<rparr>\<lparr>om_in := False\<rparr>
      in b\<lparr>tb_mode := (if om_app mode then mode\<lparr>om_ate := True\<rparr> else mode\<lparr>om_trunc := True\<rparr>)\<rparr>)"

definition set_file_name_pattern :: "('w, 'e) file_env \<Rightarrow> path \<Rightarrow> path \<Rightarrow> backend \<Rightarrow> backend" where
  "set_file_name_pattern env dir pattern b =
     b\<lparr>tb_storage_dir := dir,
       tb_generator := parse_file_name_pattern (fs_names env) (if pattern \<noteq> [] then pattern else ''%5N.log'')\<rparr>"

definition set_target_file_name_pattern :: "('w, 'e) file_env \<Rightarrow> path \<Rightarrow> path \<Rightarrow> backend \<Rightarrow> backend" where
  "set_target_file_name_pattern env dir pattern b =
     b\<lparr>tb_target := (if pattern \<noteq> [] then Some (dir, parse_file_name_pattern (fs_names env) pattern) else None)\<rparr>"

definition new_backend :: "u64 \<Rightarrow> auto_newline_mode \<Rightarrow> bool \<Rightarrow> bool \<Rightarrow> backend" where
  "new_backend rotation_size newline auto_flush final_rotation =
     \<lparr>tb_generator = No_Placeholders [], tb_storage_dir = [], tb_target = None, tb_counter = 0,
      tb_mode = \<lparr>om_app = False, om_ate = False, om_binary = False, om_in = False, om_out = True, om_trunc = True\<rparr>,
      tb_file_name = [], tb_open = False, tb_good = True, tb_written = 0, tb_collector = None,
      tb_rotation_size = rotation_size, tb_newline = newline, tb_auto_flush = auto_flush,
      tb_final_rotation = final_rotation, tb_last_used = False, tb_first = True\<rparr>"

section \<open>Closing and rotating\<close>

definition modify :: "(backend \<Rightarrow> backend) \<Rightarrow> ('w, 'e, unit) bcomp" where
  "modify f s = (Inr (), (f (fst s), snd s))"

definition world :: "('w \<Rightarrow> ('e + 'a) \<times> 'w) \<Rightarrow> ('w, 'e, 'a) bcomp" where
  "world f s = (case f (snd s) of (x, w) \<Rightarrow> (lift_error x, (fst s, w)))"

definition stream :: "('w \<Rightarrow> bool \<times> 'w) \<Rightarrow> ('w, 'e, unit) bcomp" where
  "stream f s = (case f (snd s) of (ok, w) \<Rightarrow> (Inr (), ((fst s)\<lparr>tb_good := tb_good (fst s) \<and> ok\<rparr>, w)))"

definition run_handler :: "('w \<Rightarrow> ('e + bool) \<times> 'w) option \<Rightarrow> ('w, 'e, unit) bcomp" where
  "run_handler h =
     (case h of None \<Rightarrow> ret () | Some h \<Rightarrow> seq (world h) (\<lambda>ok. modify (\<lambda>b. b\<lparr>tb_good := ok\<rparr>)))"

definition close_file :: "('w, 'e) file_env \<Rightarrow> bool \<Rightarrow> ('w, 'e, unit) bcomp" where
  "close_file env with_handler =
     seq (\<lambda>s. if tb_open (fst s)
              then seq (if with_handler \<and> h_close env \<noteq> None
                        then seq (modify (\<lambda>b. b\<lparr>tb_good := True\<rparr>)) (\<lambda>_. run_handler (h_close env)) else ret ())
                     (\<lambda>_ s. (Inr (), ((fst s)\<lparr>tb_open := False\<rparr>, st_close env (snd s)))) s
              else ret () s)
       (\<lambda>_. modify (\<lambda>b. b\<lparr>tb_good := True, tb_written := 0, tb_file_name := []\<rparr>))"

definition collect_file :: "('w, 'e) file_env \<Rightarrow> path \<Rightarrow> ('w, 'e, unit) bcomp" where
  "collect_file env p s =
     (case tb_collector (fst s) of
        None \<Rightarrow> (Inr (), s)
      | Some c \<Rightarrow>
          (case store_file (fs_env.truncate env) p (c, snd s) of
             (x, (c, w)) \<Rightarrow> (x, ((fst s)\<lparr>tb_collector := Some c\<rparr>, w))))"

definition move_to_target :: "('w, 'e) file_env \<Rightarrow> path \<Rightarrow> ('w, 'e, path) bcomp" where
  "move_to_target env prev s =
     (case tb_target (fst s) of
        None \<Rightarrow> (Inr prev, s)
      | Some (dir, g) \<Rightarrow>
          (let new = fs_join env dir (generate_name (fs_names env) g (tb_counter (fst s)) (snd s))
           in if new = prev then (Inr prev, s)
              else seq (world (fs_mkdirs env (case fs_parent env new of Some d \<Rightarrow> d | None \<Rightarrow> []))) (\<lambda>_.
                   seq (world (move_file (fs_env.truncate env) prev new)) (\<lambda>_. ret new)) s))"

definition rotate_file :: "('w, 'e) file_env \<Rightarrow> bool \<Rightarrow> ('w, 'e, unit) bcomp" where
  "rotate_file env with_handler s =
     (let prev = tb_file_name (fst s)
      in seq (close_file env with_handler) (\<lambda>_ s.
           if fs_regular env prev (snd s) then seq (move_to_target env prev) (collect_file env) s
           else (Inr (), s)) s)"

section \<open>Writing records\<close>

text \<open>
  Before the record is written, a stream that failed is closed, and a file that is full or due for rotation is
  rotated. The result is the name of an empty file that is to be used again.
\<close>

definition close_failed :: "('w, 'e) file_env \<Rightarrow> ('w, 'e, path option) bcomp" where
  "close_failed env s =
     (let prev = tb_file_name (fst s)
      in seq (close_file env True) (\<lambda>_ s.
           case fs_size env prev (snd s) of
             Inl _ \<Rightarrow> (Inr (Some prev), s)
           | Inr sz \<Rightarrow> if sz = 0 then (Inr (Some prev), s) else seq (collect_file env prev) (\<lambda>_. ret None) s) s)"

definition rotation_due :: "('w, 'e) file_env \<Rightarrow> u64 \<Rightarrow> ('w, 'e, bool) bcomp" where
  "rotation_due env len s =
     (if \<not> tb_open (fst s) then (Inr False, s)
      else if tb_written (fst s) + len \<ge> tb_rotation_size (fst s) then (Inr True, s)
      else case h_time_rotation env of None \<Rightarrow> (Inr False, s) | Some due \<Rightarrow> world due s)"

definition prepare_file :: "('w, 'e) file_env \<Rightarrow> u64 \<Rightarrow> ('w, 'e, path option) bcomp" where
  "prepare_file env len s =
     (if \<not> tb_good (fst s) then close_failed env s
      else seq (rotation_due env len) (\<lambda>due.
             if due then seq (rotate_file env True) (\<lambda>_. ret None) else ret None) s)"

text \<open>The name of the next file. The counter is not advanced for the first file and for a file that is appended to.\<close>

definition append_to_last :: "('w, 'e) file_env \<Rightarrow> backend \<Rightarrow> 'w \<Rightarrow> bool" where
  "append_to_last env b w =
     (tb_first b \<and> om_app (tb_mode b) \<and>
      (let p = fs_join env (tb_storage_dir b) (generate_name (fs_names env) (tb_generator b) (tb_counter b) w)
       in case tb_collector b of
            Some c \<Rightarrow> is_in_storage (fs_env.truncate env) c p w
          | None \<Rightarrow> fs_regular env p w))"

definition next_file_name :: "('w, 'e) file_env \<Rightarrow> ('w, 'e, path) bcomp" where
  "next_file_name env s =
     (let (b, w) = s;
          b = (if tb_last_used b
               then (if append_to_last env b w then b else b\<lparr>tb_counter := tb_counter b + 1\<rparr>)
               else b\<lparr>tb_last_used := True\<rparr>)
      in (Inr (fs_join env (tb_storage_dir b) (generate_name (fs_names env) (tb_generator b) (tb_counter b) w)), (b, w)))"

definition open_stream :: "('w, 'e) file_env \<Rightarrow> 'e \<Rightarrow> path \<Rightarrow> ('w, 'e, unit) bcomp" where
  "open_stream env open_error p =
     seq (world (fs_mkdirs env (case fs_parent env p of Some d \<Rightarrow> d | None \<Rightarrow> []))) (\<lambda>_ s.
       case st_open env p (om_app (tb_mode (fst s))) (snd s) of
         (False, w) \<Rightarrow> (Inl (Fs_Error open_error), ((fst s)\<lparr>tb_good := False\<rparr>, w))
       | (True, w) \<Rightarrow>
           (Inr (), ((fst s)\<lparr>tb_open := True, tb_file_name := p, tb_good := True, tb_first := False, tb_written := st_tellp env w\<rparr>, w)))"

text \<open>
  One round of the loop that opens a file: \<open>True\<close> when the file that was opened is full already and was rotated, so
  that another one has to be opened. The loop stops before the counter gets to \<open>last_counter\<close>, when all its values
  were used.
\<close>

definition open_step ::
  "('w, 'e) file_env \<Rightarrow> 'e \<Rightarrow> u64 \<Rightarrow> u32 \<Rightarrow> path option \<Rightarrow> ('w, 'e, bool) bcomp"
where
  "open_step env open_error len last_counter reuse =
     seq (case reuse of None \<Rightarrow> next_file_name env | Some p \<Rightarrow> ret p) (\<lambda>p.
     seq (open_stream env open_error p) (\<lambda>_ s.
       if tb_written (fst s) > 0 \<and> tb_written (fst s) + len \<ge> tb_rotation_size (fst s) \<and> tb_counter (fst s) \<noteq> last_counter
       then seq (rotate_file env False) (\<lambda>_. ret True) s
       else if h_open env \<noteq> None
       then seq (run_handler (h_open env)) (\<lambda>_ s. (Inr False, ((fst s)\<lparr>tb_written := st_tellp env (snd s)\<rparr>, snd s))) s
       else (Inr False, s)))"

partial_function (option) open_loop ::
  "('w, 'e) file_env \<Rightarrow> 'e \<Rightarrow> u64 \<Rightarrow> u32 \<Rightarrow> path option \<Rightarrow> backend \<times> 'w \<Rightarrow> (('e store_error + unit) \<times> backend \<times> 'w) option"
where
  "open_loop env open_error len last_counter reuse s =
     (if tb_open (fst s) then Some (Inr (), s)
      else if fst (open_step env open_error len last_counter reuse s) = Inr True
      then open_loop env open_error len last_counter None (snd (open_step env open_error len last_counter reuse s))
      else Some (case open_step env open_error len last_counter reuse s of (Inl e, s) \<Rightarrow> (Inl e, s) | (Inr _, s) \<Rightarrow> (Inr (), s)))"

definition write_record :: "('w, 'e) file_env \<Rightarrow> string \<Rightarrow> ('w, 'e, unit) bcomp" where
  "write_record env msg =
     seq (stream (st_write env msg)) (\<lambda>_.
     seq (modify (\<lambda>b. b\<lparr>tb_written := tb_written b + of_nat (length msg)\<rparr>)) (\<lambda>_.
     seq (\<lambda>s. if tb_newline (fst s) \<noteq> Disabled_Auto_Newline \<and>
                (tb_newline (fst s) = Always_Insert \<or> msg = [] \<or> last msg \<noteq> CHR 0x0A)
             then seq (stream (st_write env [CHR 0x0A])) (\<lambda>_. modify (\<lambda>b. b\<lparr>tb_written := tb_written b + 1\<rparr>)) s
             else ret () s) (\<lambda>_ s.
       if tb_auto_flush (fst s) then stream (st_flush env) s else ret () s)))"

definition consume ::
  "('w, 'e) file_env \<Rightarrow> 'e \<Rightarrow> string \<Rightarrow> backend \<times> 'w \<Rightarrow> (('e store_error + unit) \<times> backend \<times> 'w) option"
where
  "consume env open_error msg s =
     (case prepare_file env (of_nat (length msg)) s of
        (Inl e, s) \<Rightarrow> Some (Inl e, s)
      | (Inr reuse, s) \<Rightarrow>
          (case open_loop env open_error (of_nat (length msg)) (tb_counter (fst s) - 1) reuse s of
             None \<Rightarrow> None
           | Some (Inl e, s) \<Rightarrow> Some (Inl e, s)
           | Some (Inr _, s) \<Rightarrow> Some (write_record env msg s)))"

definition flush_file :: "('w, 'e) file_env \<Rightarrow> ('w, 'e, unit) bcomp" where
  "flush_file env s = (if tb_open (fst s) then stream (st_flush env) s else (Inr (), s))"

text \<open>The destructor rotates the last file; exceptions are dropped.\<close>

definition destroy :: "('w, 'e) file_env \<Rightarrow> backend \<times> 'w \<Rightarrow> backend \<times> 'w" where
  "destroy env s =
     (if tb_final_rotation (fst s) \<and> tb_open (fst s) \<and> tb_written (fst s) > 0
      then snd (rotate_file env True s) else s)"

definition scan_backend ::
  "('w, 'e) file_env \<Rightarrow> scan_method \<Rightarrow> path \<Rightarrow> bool \<Rightarrow> ('w, 'e, u64) bcomp"
where
  "scan_backend env method pattern update_counter s =
     (case tb_collector (fst s) of
        None \<Rightarrow> (Inl Collector_Not_Set, s)
      | Some c \<Rightarrow>
          (case scan_for_files (fs_env.truncate env) method pattern (c, snd s) of
             (Inl e, (c, w)) \<Rightarrow> (Inl e, ((fst s)\<lparr>tb_collector := Some c\<rparr>, w))
           | (Inr r, (c, w)) \<Rightarrow>
               (let b = (fst s)\<lparr>tb_collector := Some c\<rparr>
                in (Inr (sr_found r),
                    (case sr_last r of
                       Some n \<Rightarrow>
                         if update_counter \<and> (\<not> tb_last_used b \<or> newer_counter n (Some (tb_counter b)))
                         then b\<lparr>tb_counter := n, tb_last_used := True\<rparr> else b
                     | None \<Rightarrow> b, w)))))"

end
