(* ===== verification/Text_File_Properties.thy ===== *)
theory Text_File_Properties
  imports File_Collector_Properties Text_File_Backend
begin

text \<open>
  Correctness of the text file backend: writing a record returns, rotation advances the file counter, and files
  stay within the rotation size.
\<close>

section \<open>What rotation leaves alone\<close>

lemma keepsD: "keeps P m \<Longrightarrow> P s \<Longrightarrow> m s = (r, s') \<Longrightarrow> P s'"
  unfolding keeps_def by (metis snd_conv)

lemma keeps_ifS [keeps_intros]:
  "keeps P m \<Longrightarrow> keeps P n \<Longrightarrow> keeps P (\<lambda>s. if b s then m s else n s)"
  by (simp add: keeps_def)

lemma keeps_state: "(\<And>x. keeps P (m x)) \<Longrightarrow> keeps P (\<lambda>s. m (f s) s)"
  by (simp add: keeps_def)

definition frame :: "backend \<Rightarrow> u32 \<times> bool \<times> bool" where
  "frame b = (tb_counter b, tb_last_used b, tb_first b)"

lemma frame_update [simp]:
  "frame (b\<lparr>tb_good := x\<rparr>) = frame b" "frame (b\<lparr>tb_open := x\<rparr>) = frame b" "frame (b\<lparr>tb_written := n\<rparr>) = frame b"
  "frame (b\<lparr>tb_file_name := p\<rparr>) = frame b" "frame (b\<lparr>tb_collector := c\<rparr>) = frame b"
  by (simp_all add: frame_def)

lemma modify_frame [keeps_intros]: "(\<And>b. P (f b) = P b) \<Longrightarrow> keeps (\<lambda>s. P (fst s)) (modify f)"
  by (simp add: keeps_def modify_def)

lemma world_frame [keeps_intros]: "keeps (\<lambda>s. P (fst s)) (world f)"
  by (simp add: keeps_def world_def split: prod.split)

lemma run_handler_frame [keeps_intros]:
  "(\<And>b x. P (b\<lparr>tb_good := x\<rparr>) = P b) \<Longrightarrow> keeps (\<lambda>s. P (fst s)) (run_handler h)"
  unfolding run_handler_def by (cases h) (simp_all add: keeps_ret keeps_seq world_frame modify_frame)

lemma close_file_frame [keeps_intros]: "keeps (\<lambda>s. P (frame (fst s))) (close_file env h)"
  unfolding close_file_def
  by (intro keeps_intros) (auto simp: keeps_def)

lemma move_to_target_frame [keeps_intros]: "keeps (\<lambda>s. P (fst s)) (move_to_target env prev)"
proof -
  have "keeps (\<lambda>s. P (fst s)) (seq (world (fs_mkdirs env d)) (\<lambda>_. seq (world (move_file env2 prev new)) (\<lambda>_. ret new)))"
    for d env2 new by (intro keeps_intros)
  then show ?thesis
    unfolding keeps_def move_to_target_def Let_def by (auto split: option.splits prod.splits)
qed

lemma collect_file_frame [keeps_intros]:
  "(\<And>b c. P (b\<lparr>tb_collector := c\<rparr>) = P b) \<Longrightarrow> keeps (\<lambda>s. P (fst s)) (collect_file env p)"
  by (auto simp: keeps_def collect_file_def split: option.splits prod.splits)

lemma rotate_file_frame [keeps_intros]: "keeps (\<lambda>s. P (frame (fst s))) (rotate_file env h)"
proof -
  have "keeps (\<lambda>s. P (frame (fst s))) (seq (close_file env h) (\<lambda>_ s.
      if fs_regular env prev (snd s) then seq (move_to_target env prev) (collect_file env) s else (Inr (), s)))" for prev
    by (intro keeps_intros) (auto simp: keeps_def)
  then show ?thesis unfolding rotate_file_def [abs_def] Let_def by (rule keeps_state)
qed

lemma rotate_file_closes:
  assumes "rotate_file env h s = (Inr (), s')"
  shows "\<not> tb_open (fst s')"
proof -
  obtain s1 where c: "close_file env h s = (Inr (), s1)"
    and r: "(if fs_regular env (tb_file_name (fst s)) (snd s1)
       then seq (move_to_target env (tb_file_name (fst s))) (collect_file env) s1 else (Inr (), s1)) = (Inr (), s')"
    using assms by (auto simp: rotate_file_def seq_Inr Let_def)
  have s1: "\<not> tb_open (fst s1)"
    using c by (auto simp: close_file_def seq_Inr modify_def ret_def split: if_splits)
  have k: "keeps (\<lambda>s. \<not> tb_open (fst s)) (seq (move_to_target env prev) (collect_file env))" for prev
    by (intro keeps_intros) simp
  show ?thesis
  proof (cases "fs_regular env (tb_file_name (fst s)) (snd s1)")
    case True
    then show ?thesis using keepsD [OF k s1] r by simp
  next
    case False
    then show ?thesis using r s1 by simp
  qed
qed

section \<open>The loop that opens a file\<close>

definition rounds :: "u32 \<Rightarrow> path option \<Rightarrow> backend \<Rightarrow> nat" where
  "rounds last_counter reuse b =
     unat (last_counter - tb_counter b) + (if reuse = None then 0 else 1) + (if tb_last_used b then 0 else 1) +
     (if tb_first b then 1 else 0)"

lemma open_stream_frame:
  assumes "open_stream env oe p s = (Inr (), s')"
  shows "frame (fst s') = (tb_counter (fst s), tb_last_used (fst s), False)" "tb_open (fst s')"
proof -
  obtain s1 where m: "world (fs_mkdirs env (case fs_parent env p of Some d \<Rightarrow> d | None \<Rightarrow> [])) s = (Inr (), s1)"
    and o: "(case st_open env p (om_app (tb_mode (fst s1))) (snd s1) of
         (False, w) \<Rightarrow> (Inl (Fs_Error oe), ((fst s1)\<lparr>tb_good := False\<rparr>, w))
       | (True, w) \<Rightarrow> (Inr (), ((fst s1)\<lparr>tb_open := True, tb_file_name := p, tb_good := True, tb_first := False,
           tb_written := st_tellp env w\<rparr>, w))) = (Inr (), s')"
    using assms by (auto simp: open_stream_def seq_Inr)
  have "fst s1 = fst s" using m by (auto simp: world_def split: prod.splits)
  then show "frame (fst s') = (tb_counter (fst s), tb_last_used (fst s), False)" "tb_open (fst s')"
    using o by (auto simp: frame_def split: prod.splits bool.splits)
qed

lemma open_step_again:
  assumes "open_step env oe len last_counter reuse s = (Inr True, s')"
  obtains p s1 where "(case reuse of None \<Rightarrow> next_file_name env | Some p \<Rightarrow> ret p) s = (Inr p, s1)"
    "frame (fst s') = (tb_counter (fst s1), tb_last_used (fst s1), False)" "tb_counter (fst s1) \<noteq> last_counter"
    "\<not> tb_open (fst s')"
proof -
  obtain p s1 s2 where n: "(case reuse of None \<Rightarrow> next_file_name env | Some p \<Rightarrow> ret p) s = (Inr p, s1)"
    and o: "open_stream env oe p s1 = (Inr (), s2)"
    and r: "rotate_file env False s2 = (Inr (), s')" "tb_counter (fst s2) \<noteq> last_counter"
    using assms by (auto simp: open_step_def seq_Inr ret_def split: if_splits)
  have "frame (fst s') = frame (fst s2)"
    using rotate_file_frame [of "\<lambda>f. f = frame (fst s2)" env False, unfolded keeps_def, THEN spec, of s2] r(1) by simp
  then show ?thesis
    using that [OF n] open_stream_frame(1) [OF o] r(2) rotate_file_closes [OF r(1)] by (simp add: frame_def)
qed

lemma open_step_rounds:
  assumes "open_step env oe len last_counter reuse s = (Inr True, s')" "tb_counter (fst s) \<noteq> last_counter"
  shows "rounds last_counter None (fst s') < rounds last_counter reuse (fst s)" "tb_counter (fst s') \<noteq> last_counter"
proof -
  obtain p s1 where n: "(case reuse of None \<Rightarrow> next_file_name env | Some p \<Rightarrow> ret p) s = (Inr p, s1)"
    and f: "frame (fst s') = (tb_counter (fst s1), tb_last_used (fst s1), False)" "tb_counter (fst s1) \<noteq> last_counter"
    by (rule open_step_again [OF assms(1)])
  have c: "tb_counter (fst s') = tb_counter (fst s1)" "tb_last_used (fst s') = tb_last_used (fst s1)" "\<not> tb_first (fst s')"
    using f(1) by (simp_all add: frame_def)
  show "tb_counter (fst s') \<noteq> last_counter" using c f(2) by simp
  have m: "unat (last_counter - (tb_counter (fst s) + 1)) < unat (last_counter - tb_counter (fst s))"
    using measure_unat [of "last_counter - tb_counter (fst s)"] assms(2) by (simp add: diff_diff_eq)
  show "rounds last_counter None (fst s') < rounds last_counter reuse (fst s)"
  proof (cases reuse)
    case (Some q)
    then show ?thesis using n c by (auto simp: ret_def rounds_def)
  next
    case None
    then show ?thesis
      using n c m by (auto simp: next_file_name_def append_to_last_def rounds_def Let_def split: prod.splits if_splits)
  qed
qed

lemma open_loop_returns:
  assumes "tb_counter (fst s) \<noteq> last_counter"
  shows "open_loop env oe len last_counter reuse s \<noteq> None"
  using assms
proof (induction "rounds last_counter reuse (fst s)" arbitrary: reuse s rule: less_induct)
  case less
  obtain x s' where st: "open_step env oe len last_counter reuse s = (x, s')" by (metis surj_pair)
  show ?case
  proof (cases "x = Inr True")
    case True
    note o = open_step_rounds [OF st [unfolded True] less.prems]
    show ?thesis using less.hyps [OF o] st True by (subst open_loop.simps) simp
  next
    case False
    then show ?thesis using st by (subst open_loop.simps) (cases x, simp_all)
  qed
qed

lemma open_step_done:
  assumes "open_step env oe len last_counter None s = (Inr False, s')" "tb_last_used (fst s)" "\<not> tb_first (fst s)"
  shows "tb_counter (fst s') = tb_counter (fst s) + 1" "tb_open (fst s')"
proof -
  obtain p s1 s2 where n: "next_file_name env s = (Inr p, s1)" and o: "open_stream env oe p s1 = (Inr (), s2)"
    and r: "(if h_open env \<noteq> None
       then seq (run_handler (h_open env)) (\<lambda>_ s. (Inr False, ((fst s)\<lparr>tb_written := st_tellp env (snd s)\<rparr>, snd s))) s2
       else (Inr False, s2)) = (Inr False, s')"
    using assms(1) by (auto simp: open_step_def seq_Inr ret_def split: if_splits)
  have c: "tb_counter (fst s1) = tb_counter (fst s) + 1"
    using n assms(2,3) by (auto simp: next_file_name_def append_to_last_def Let_def split: prod.splits)
  have f: "keeps (\<lambda>s. P (frame (fst s)) (tb_open (fst s)))
      (seq (run_handler h) (\<lambda>_ s. (Inr False, ((fst s)\<lparr>tb_written := st_tellp env (snd s)\<rparr>, snd s))))" for P h
  proof (rule keeps_seq)
    show "keeps (\<lambda>s. P (frame (fst s)) (tb_open (fst s))) (run_handler h)"
      by (rule run_handler_frame) simp
    show "keeps (\<lambda>s. P (frame (fst s)) (tb_open (fst s)))
        (\<lambda>s. (Inr False, ((fst s)\<lparr>tb_written := st_tellp env (snd s)\<rparr>, snd s)))"
      by (simp add: keeps_def)
  qed
  have "frame (fst s') = frame (fst s2) \<and> tb_open (fst s')"
  proof (cases "h_open env = None")
    case True
    then show ?thesis using r open_stream_frame(2) [OF o] by simp
  next
    case False
    then show ?thesis
      using r keepsD [OF f [of "\<lambda>x y. x = frame (fst s2) \<and> y"], of s2 "h_open env" "Inr False" s'] open_stream_frame(2) [OF o]
      by simp
  qed
  then show "tb_counter (fst s') = tb_counter (fst s) + 1" "tb_open (fst s')"
    using open_stream_frame(1) [OF o] c by (simp_all add: frame_def)
qed

lemma open_loop_new_counter:
  assumes "open_loop env oe len last_counter None s = Some (Inr (), s')" "\<not> tb_open (fst s)"
    "tb_last_used (fst s)" "\<not> tb_first (fst s)" "tb_counter (fst s) \<noteq> last_counter"
  shows "tb_counter (fst s') \<noteq> last_counter + 1 \<and> tb_open (fst s')"
  using assms
proof (induction "rounds last_counter None (fst s)" arbitrary: s rule: less_induct)
  case less
  obtain x s1 where st: "open_step env oe len last_counter None s = (x, s1)" by (metis surj_pair)
  have run: "(if x = Inr True then open_loop env oe len last_counter None s1
      else Some (case x of Inl e \<Rightarrow> (Inl e, s1) | Inr _ \<Rightarrow> (Inr (), s1))) = Some (Inr (), s')"
    using less.prems(1,2) st by (subst (asm) open_loop.simps) (simp cong: if_cong)
  show ?case
  proof (cases "x = Inr True")
    case True
    note o = open_step_rounds [OF st [unfolded True] less.prems(5)]
    have "\<not> tb_open (fst s1) \<and> tb_last_used (fst s1) \<and> \<not> tb_first (fst s1)"
    proof (rule open_step_again [OF st [unfolded True]])
      fix p s2 assume a: "(case None of None \<Rightarrow> next_file_name env | Some p \<Rightarrow> ret p) s = (Inr p, s2)"
        "frame (fst s1) = (tb_counter (fst s2), tb_last_used (fst s2), False)" "\<not> tb_open (fst s1)"
      have "tb_last_used (fst s2)" using a(1) by (auto simp: next_file_name_def Let_def split: prod.splits)
      then show ?thesis using a(2,3) by (simp add: frame_def)
    qed
    then show ?thesis using less.hyps [OF o(1) _ _ _ _ o(2)] run True by simp
  next
    case False
    then have "x = Inr False" "s' = s1" using run by (auto split: sum.splits)
    then show ?thesis using open_step_done [OF st [unfolded \<open>x = Inr False\<close>] less.prems(3,4)] less.prems(5) by simp
  qed
qed

section \<open>Properties\<close>

text \<open>
  C24. Writing a record always returns, normally or with an exception: the loop that opens new files as long as
  the file it opened is full already ends for every behaviour of the file system and every state of the backend,
  because it stops when all values of the file counter were tried.
\<close>

theorem consume_returns: "consume env open_error msg s \<noteq> None"
proof -
  obtain r s1 where p: "prepare_file env (of_nat (length msg)) s = (r, s1)" by (metis surj_pair)
  show ?thesis
  proof (cases r)
    case (Inl e)
    then show ?thesis using p by (simp add: consume_def)
  next
    case (Inr reuse)
    obtain x s2 where "open_loop env open_error (of_nat (length msg)) (tb_counter (fst s1) - 1) reuse s1 = Some (x, s2)"
      using open_loop_returns [of s1 "tb_counter (fst s1) - 1"] by fastforce
    then show ?thesis using p Inr by (cases x) (simp_all add: consume_def)
  qed
qed

lemma stream_frame [keeps_intros]: "(\<And>b x. P (b\<lparr>tb_good := x\<rparr>) = P b) \<Longrightarrow> keeps (\<lambda>s. P (fst s)) (stream f)"
  by (simp add: keeps_def stream_def split: prod.split)

lemma write_record_frame:
  "(\<And>b x. P (b\<lparr>tb_good := x\<rparr>) = P b) \<Longrightarrow> (\<And>b f. P (b\<lparr>tb_written := f\<rparr>) = P b) \<Longrightarrow>
   keeps (\<lambda>s. P (fst s)) (write_record env msg)"
  unfolding write_record_def by (intro keeps_intros) simp_all

text \<open>
  C25. When a full file is rotated and the record is written, the file it is written to was opened with another value
  of the file counter, even if the search for a file with room went around all values of the counter.
\<close>

theorem rotation_uses_new_counter:
  assumes "consume env open_error msg s = Some (Inr (), s')"
    and "tb_good (fst s)" "tb_open (fst s)" "tb_last_used (fst s)" "\<not> tb_first (fst s)"
    and "tb_written (fst s) + of_nat (length msg) \<ge> tb_rotation_size (fst s)"
  shows "tb_counter (fst s') \<noteq> tb_counter (fst s) \<and> tb_open (fst s')"
proof -
  obtain reuse s1 s2 where p: "prepare_file env (of_nat (length msg)) s = (Inr reuse, s1)"
    and l: "open_loop env open_error (of_nat (length msg)) (tb_counter (fst s1) - 1) reuse s1 = Some (Inr (), s2)"
    and w: "write_record env msg s2 = (Inr (), s')"
    using assms(1) by (auto simp: consume_def split: prod.splits sum.splits option.splits)
  have r: "rotate_file env True s = (Inr (), s1)" "reuse = None"
    using p assms(2,3,6) by (auto simp: prepare_file_def seq_Inr rotation_due_def ret_def)
  have f: "frame (fst s1) = frame (fst s)"
    using keepsD [OF rotate_file_frame [of "\<lambda>f. f = frame (fst s)" env True], of s "Inr ()" s1] r(1) by simp
  have "tb_counter (fst s2) \<noteq> tb_counter (fst s) \<and> tb_open (fst s2)"
    using open_loop_new_counter [OF l [unfolded r(2)] rotate_file_closes [OF r(1)]] f assms(4,5)
    by (simp add: frame_def)
  then show ?thesis
    using keepsD [OF write_record_frame [of "\<lambda>b. tb_counter b \<noteq> tb_counter (fst s) \<and> tb_open b" env msg], of s2 "Inr ()" s'] w
    by simp
qed

section \<open>Files within the rotation size\<close>

abbreviation rotation_is :: "u64 \<Rightarrow> backend \<times> 'w \<Rightarrow> bool" where
  "rotation_is R s \<equiv> tb_rotation_size (fst s) = R"

lemma close_file_size [keeps_intros]: "keeps (rotation_is R) (close_file env h)"
  unfolding close_file_def by (intro keeps_intros) (auto simp: keeps_def)

lemma rotate_file_size [keeps_intros]: "keeps (rotation_is R) (rotate_file env h)"
proof -
  have "keeps (rotation_is R) (seq (close_file env h) (\<lambda>_ s.
      if fs_regular env prev (snd s) then seq (move_to_target env prev) (collect_file env) s else (Inr (), s)))" for prev
    by (intro keeps_intros) (auto simp: keeps_def)
  then show ?thesis unfolding rotate_file_def [abs_def] Let_def by (rule keeps_state)
qed

lemma next_file_name_size [keeps_intros]:
  "keeps (rotation_is R) (case reuse of None \<Rightarrow> next_file_name env | Some p \<Rightarrow> ret p)"
  by (cases reuse) (auto simp: keeps_def next_file_name_def ret_def Let_def split: prod.splits)

lemma open_stream_size [keeps_intros]: "keeps (rotation_is R) (open_stream env oe p)"
  unfolding open_stream_def by (intro keeps_intros) (auto simp: keeps_def split: prod.splits bool.splits)

text \<open>The file that is open has room for a record of the given length, or is empty, or all counters were tried.\<close>

definition room :: "u64 \<Rightarrow> u64 \<Rightarrow> u32 \<Rightarrow> backend \<Rightarrow> bool" where
  "room R len last_counter b \<longleftrightarrow>
     tb_written b = 0 \<or> tb_written b + len < R \<or> tb_counter b = last_counter"

lemma open_step_room:
  assumes "open_step env oe len last_counter reuse s = (Inr again, s')" "h_open env = None"
    and R: "rotation_is R s"
  shows "rotation_is R s' \<and> (\<not> again \<longrightarrow> room R len last_counter (fst s'))"
proof -
  obtain p s1 s2 where n: "(case reuse of None \<Rightarrow> next_file_name env | Some p \<Rightarrow> ret p) s = (Inr p, s1)"
    and o: "open_stream env oe p s1 = (Inr (), s2)"
    and r: "(if tb_written (fst s2) > 0 \<and> tb_written (fst s2) + len \<ge> tb_rotation_size (fst s2) \<and> tb_counter (fst s2) \<noteq> last_counter
       then seq (rotate_file env False) (\<lambda>_. ret True) s2 else (Inr False, s2)) = (Inr again, s')"
    using assms(1,2) by (auto simp: open_step_def seq_Inr cong: if_cong)
  have R2: "rotation_is R s2" using keepsD [OF open_stream_size keepsD [OF next_file_name_size R n] o] .
  have "keeps (rotation_is R) (seq (rotate_file env False) (\<lambda>_. ret True))" by (intro keeps_intros)
  from keepsD [OF this R2] r R2 show ?thesis
    by (auto simp: room_def seq_Inr ret_def not_le word_neq_0_conv split: if_splits)
qed

lemma open_loop_room:
  assumes "open_loop env oe len last_counter reuse s = Some (Inr (), s')" "\<not> tb_open (fst s)"
    "tb_counter (fst s) \<noteq> last_counter" "h_open env = None" "rotation_is R s"
  shows "rotation_is R s' \<and> room R len last_counter (fst s')"
  using assms
proof (induction "rounds last_counter reuse (fst s)" arbitrary: reuse s rule: less_induct)
  case less
  obtain x s1 where st: "open_step env oe len last_counter reuse s = (x, s1)" by (metis surj_pair)
  have run: "(if x = Inr True then open_loop env oe len last_counter None s1
      else Some (case x of Inl e \<Rightarrow> (Inl e, s1) | Inr _ \<Rightarrow> (Inr (), s1))) = Some (Inr (), s')"
    using less.prems(1,2) st by (subst (asm) open_loop.simps) (simp cong: if_cong)
  show ?case
  proof (cases "x = Inr True")
    case True
    note o = open_step_rounds [OF st [unfolded True] less.prems(3)]
    have "\<not> tb_open (fst s1)" by (rule open_step_again [OF st [unfolded True]])
    moreover have "rotation_is R s1" using open_step_room [OF st [unfolded True] less.prems(4,5)] by simp
    ultimately show ?thesis using less.hyps [OF o(1) _ _ o(2) less.prems(4)] run True by simp
  next
    case False
    then have "x = Inr False" "s' = s1" using run by (auto split: sum.splits)
    then show ?thesis using open_step_room [OF st [unfolded \<open>x = Inr False\<close>] less.prems(4,5)] by simp
  qed
qed

lemma close_failed_closes:
  assumes "close_failed env s = (Inr reuse, s')"
  shows "\<not> tb_open (fst s')" "rotation_is (tb_rotation_size (fst s)) s'" "frame (fst s') = frame (fst s)"
proof -
  let ?p = "tb_file_name (fst s)"
  obtain s1 where c: "close_file env True s = (Inr (), s1)"
    and e: "(case fs_size env ?p (snd s1) of Inl _ \<Rightarrow> (Inr (Some ?p), s1)
      | Inr sz \<Rightarrow> if sz = 0 then (Inr (Some ?p), s1) else seq (collect_file env ?p) (\<lambda>_. ret None) s1) = (Inr reuse, s')"
    using assms by (auto simp: close_failed_def seq_Inr Let_def)
  have r: "s' = s1 \<or> (\<exists>x. collect_file env ?p s1 = (x, s'))"
    using e by (cases "fs_size env ?p (snd s1)") (auto simp: seq_Inr ret_def split: if_splits)
  let ?Q = "\<lambda>b. \<not> tb_open b \<and> tb_rotation_size b = tb_rotation_size (fst s) \<and> frame b = frame (fst s)"
  have q: "?Q (fst s1)"
    using c keepsD [OF close_file_size _ c] keepsD [OF close_file_frame [of "\<lambda>f. f = frame (fst s)"] _ c]
    by (auto simp: close_file_def seq_Inr modify_def ret_def split: if_splits)
  have k: "keeps (\<lambda>s. ?Q (fst s)) (collect_file env ?p)" by (rule collect_file_frame) simp
  have "?Q (fst s')" using r
  proof
    assume "s' = s1"
    then show ?thesis using q by simp
  next
    assume "\<exists>x. collect_file env ?p s1 = (x, s')"
    then obtain x where x: "collect_file env ?p s1 = (x, s')" by blast
    show ?thesis by (rule keepsD [OF k q x])
  qed
  then show "\<not> tb_open (fst s')" "rotation_is (tb_rotation_size (fst s)) s'" "frame (fst s') = frame (fst s)" by blast+
qed

lemma prepare_file_room:
  assumes "prepare_file env len s = (Inr reuse, s')"
  shows "rotation_is (tb_rotation_size (fst s)) s' \<and> tb_counter (fst s') = tb_counter (fst s) \<and>
    (tb_open (fst s') \<longrightarrow> tb_written (fst s') + len < tb_rotation_size (fst s))"
proof (cases "tb_good (fst s)")
  case False
  then show ?thesis using close_failed_closes [of env s reuse s'] assms by (simp add: prepare_file_def frame_def)
next
  case True
  then obtain due s1 where d: "rotation_due env len s = (Inr due, s1)"
    and r: "(if due then seq (rotate_file env True) (\<lambda>_. ret None) else ret None) s1 = (Inr reuse, s')"
    using assms by (auto simp: prepare_file_def seq_Inr)
  have s1: "fst s1 = fst s" "\<not> due \<Longrightarrow> tb_open (fst s) \<Longrightarrow> tb_written (fst s) + len < tb_rotation_size (fst s)"
    using d by (auto simp: rotation_due_def world_def not_le split: if_splits option.splits prod.splits)
  show ?thesis
  proof (cases due)
    case True
    then have ro: "rotate_file env True s1 = (Inr (), s')" using r by (auto simp: seq_Inr ret_def)
    have "frame (fst s') = frame (fst s1)"
      using keepsD [OF rotate_file_frame [of "\<lambda>f. f = frame (fst s1)"] _ ro] by simp
    then show ?thesis using keepsD [OF rotate_file_size _ ro] rotate_file_closes [OF ro] s1(1) by (simp add: frame_def)
  next
    case False
    then show ?thesis using r s1 by (simp add: ret_def)
  qed
qed

lemma write_record_count:
  assumes "write_record env msg s = (Inr (), s')"
  shows "tb_written (fst s') \<in> {tb_written (fst s) + of_nat (length msg), tb_written (fst s) + of_nat (length msg) + 1}"
    and "tb_counter (fst s') = tb_counter (fst s)"
  using assms by (auto simp: write_record_def seq_Inr stream_def modify_def ret_def split: prod.splits if_splits)

text \<open>
  C26. When there is no open handler, a record that is written successfully, whatever file it ends up in, does not
  make the file exceed the rotation size, the trailing newline included, by the count of characters that the
  backend keeps: unless the record is alone in its file, or the search for a file with room went around all values
  of the file counter.
\<close>

theorem written_file_within_rotation_size:
  assumes "consume env open_error msg s = Some (Inr (), s')" "h_open env = None"
  shows "tb_written (fst s') \<le> tb_rotation_size (fst s) \<or>
    tb_written (fst s') \<in> {of_nat (length msg), of_nat (length msg) + 1} \<or> tb_counter (fst s') = tb_counter (fst s) - 1"
proof -
  let ?R = "tb_rotation_size (fst s)" and ?len = "of_nat (length msg)"
  obtain reuse s1 s2 where p: "prepare_file env ?len s = (Inr reuse, s1)"
    and l: "open_loop env open_error ?len (tb_counter (fst s1) - 1) reuse s1 = Some (Inr (), s2)"
    and w: "write_record env msg s2 = (Inr (), s')"
    using assms(1) by (auto simp: consume_def split: prod.splits sum.splits option.splits)
  note pr = prepare_file_room [OF p]
  have "room ?R ?len (tb_counter (fst s) - 1) (fst s2)"
  proof (cases "tb_open (fst s1)")
    case True
    then have "s2 = s1" using l by (subst (asm) open_loop.simps) simp
    then show ?thesis using pr True by (simp add: room_def)
  next
    case False
    then show ?thesis using open_loop_room [OF l False _ assms(2), of ?R] pr by simp
  qed
  moreover have "tb_written (fst s2) + ?len + 1 \<le> ?R" if "tb_written (fst s2) + ?len < ?R" using that by (rule inc_le)
  ultimately show ?thesis using write_record_count [OF w] by (auto simp: room_def)
qed

section \<open>Witnesses\<close>

text \<open>
  A file system whose state is a list of the files with their contents; the stream writes to the first of them.
\<close>

definition demo_file_env :: "((string \<times> string) list, string) file_env" where
  "demo_file_env =
     \<lparr>fs_names = \<lparr>fn_extract = (\<lambda>s. None), fn_frac_digits = 6, fn_date = (\<lambda>p w. None)\<rparr>,
      fs_filename = (\<lambda>p. p), fs_parent = (\<lambda>p. None), fs_join = (\<lambda>d n. d @ ''/'' @ n), fs_absolute = (\<lambda>p base. p),
      fs_complete = (\<lambda>p w. Inr p), fs_equivalent = (\<lambda>p q w. Inr (p = q)), fs_exists = (\<lambda>p w. Inr (p \<in> fst ` set w)),
      fs_regular = (\<lambda>p w. p \<in> fst ` set w), fs_directory = (\<lambda>p w. True), fs_list = (\<lambda>p w. Inr (map fst w)),
      fs_time = (\<lambda>p w. Inr 0), fs_size = (\<lambda>p w. Inr 10), fs_space = (\<lambda>p w. Inr 0), fs_mkdirs = (\<lambda>p w. (Inr (), w)),
      fs_remove = (\<lambda>p w. (Inr (), filter (\<lambda>f. fst f \<noteq> p) w)), fs_rename = (\<lambda>p q w. (None, w)),
      fs_copy = (\<lambda>p q w. (Inr (), w)), fs_cross_device = (\<lambda>e. False),
      st_open = (\<lambda>p app w. (True, (p, if app then concat (map snd (filter (\<lambda>f. fst f = p) w)) else []) #
        filter (\<lambda>f. fst f \<noteq> p) w)),
      st_tellp = (\<lambda>w. of_nat (length (snd (hd w)))), st_write = (\<lambda>s w. (True, (fst (hd w), snd (hd w) @ s) # tl w)),
      st_flush = (\<lambda>w. (True, w)), st_close = (\<lambda>w. w), h_open = None, h_close = None, h_time_rotation = None\<rparr>"

definition demo_backend :: backend where
  "demo_backend = (new_backend 10 Always_Insert True False)
     \<lparr>tb_generator := Counter_Only 0 2 ''.log'', tb_storage_dir := ''d'', tb_file_name := ''d/00.log'', tb_open := True,
      tb_written := 6, tb_last_used := True, tb_first := False, tb_mode := tb_mode (new_backend 0 Always_Insert True True)\<lparr>om_app := True\<rparr>\<rparr>"

definition demo_world :: "(string \<times> string) list" where
  "demo_world = [(''d/00.log'', ''hello.''), (''d/01.log'', ''full-file'')]"

definition demo_rotated :: "backend \<times> (string \<times> string) list" where
  "demo_rotated = snd (prepare_file demo_file_env 5 (demo_backend, demo_world))"

definition demo_full_file :: "backend \<times> (string \<times> string) list" where
  "demo_full_file = snd (open_step demo_file_env ''open'' 5 (- 1) None demo_rotated)"

definition demo_next_file :: "backend \<times> (string \<times> string) list" where
  "demo_next_file = snd (open_step demo_file_env ''open'' 5 (- 1) None demo_full_file)"

definition demo_outcome :: "backend \<times> (string \<times> string) list" where
  "demo_outcome = snd (write_record demo_file_env ''world'' demo_next_file)"

lemma demo_rounds:
  "fst (prepare_file demo_file_env 5 (demo_backend, demo_world)) = Inr None"
  "tb_open (fst demo_rotated) = False" "tb_counter (fst demo_rotated) = 0"
  "fst (open_step demo_file_env ''open'' 5 (- 1) None demo_rotated) = Inr True"
  "tb_open (fst demo_full_file) = False"
  "fst (open_step demo_file_env ''open'' 5 (- 1) None demo_full_file) = Inr False"
  "fst (write_record demo_file_env ''world'' demo_next_file) = Inr ()"
  "tb_counter (fst demo_outcome) = 2" "hd (snd demo_outcome) = (''d/02.log'', ''world'' @ [CHR 0x0A])"
  by code_simp+

lemma demo_outcome_split: "consume demo_file_env ''open'' ''world'' (demo_backend, demo_world) = Some (Inr (), demo_outcome)"
proof -
  have s: "prepare_file demo_file_env 5 (demo_backend, demo_world) = (Inr None, demo_rotated)"
    "open_step demo_file_env ''open'' 5 (- 1) None demo_rotated = (Inr True, demo_full_file)"
    "open_step demo_file_env ''open'' 5 (- 1) None demo_full_file = (Inr False, demo_next_file)"
    "write_record demo_file_env ''world'' demo_next_file = (Inr (), demo_outcome)"
    using demo_rounds by (simp_all add: prod_eq_iff demo_rotated_def demo_full_file_def demo_next_file_def demo_outcome_def)
  have "open_loop demo_file_env ''open'' 5 (- 1) None demo_full_file = Some (Inr (), demo_next_file)"
    using demo_rounds(5) s(3) by (subst open_loop.simps) simp
  then have "open_loop demo_file_env ''open'' 5 (- 1) None demo_rotated = Some (Inr (), demo_next_file)"
    using demo_rounds(2) s(2) by (subst open_loop.simps) simp
  then show ?thesis using s(1,4) demo_rounds(3) by (simp add: consume_def)
qed

theorem rotation_uses_new_counter_witness:
  "tb_counter (fst demo_outcome) = 2 \<and> tb_counter (fst demo_outcome) \<noteq> tb_counter demo_backend \<and> tb_open (fst demo_outcome)"
  using rotation_uses_new_counter [OF demo_outcome_split] demo_rounds(8)
  by (simp add: demo_backend_def new_backend_def)

definition demo_small :: "backend \<times> (string \<times> string) list" where
  "demo_small = snd (write_record demo_file_env ''abc'' (demo_backend, demo_world))"

lemma demo_small_run:
  "fst (write_record demo_file_env ''abc'' (demo_backend, demo_world)) = Inr ()" "tb_written (fst demo_small) = 10"
  "prepare_file demo_file_env 3 (demo_backend, demo_world) = (Inr None, (demo_backend, demo_world))"
  "tb_open demo_backend = True"
  by code_simp+

lemma demo_small_split: "consume demo_file_env ''open'' ''abc'' (demo_backend, demo_world) = Some (Inr (), demo_small)"
proof -
  have "open_loop demo_file_env ''open'' 3 n None (demo_backend, demo_world) = Some (Inr (), (demo_backend, demo_world))" for n
    using demo_small_run(4) by (subst open_loop.simps) simp
  moreover have "write_record demo_file_env ''abc'' (demo_backend, demo_world) = (Inr (), demo_small)"
    using demo_small_run(1) by (simp add: prod_eq_iff demo_small_def)
  ultimately show ?thesis using demo_small_run(3) by (simp add: consume_def)
qed

theorem written_file_within_rotation_size_witness:
  "consume demo_file_env ''open'' ''abc'' (demo_backend, demo_world) = Some (Inr (), demo_small) \<and>
   tb_written (fst demo_small) = 10 \<and> tb_written (fst demo_small) \<le> tb_rotation_size demo_backend"
proof -
  have "tb_counter (fst demo_small) = tb_counter demo_backend"
    using write_record_count(2) [of demo_file_env "''abc''" "(demo_backend, demo_world)" demo_small] demo_small_run(1)
    by (simp add: prod_eq_iff demo_small_def)
  then have c: "tb_counter (fst demo_small) \<noteq> tb_counter (fst (demo_backend, demo_world)) - 1" by simp
  have h: "h_open demo_file_env = None" by (simp add: demo_file_env_def)
  have n: "tb_written (fst demo_small) \<notin> {of_nat (length ''abc''), of_nat (length ''abc'') + 1}"
    unfolding demo_small_run(2) by simp
  have "tb_written (fst demo_small) \<le> tb_rotation_size (fst (demo_backend, demo_world))"
    using written_file_within_rotation_size [OF demo_small_split h] c n by blast
  then show ?thesis using demo_small_split demo_small_run(2) unfolding fst_conv by blast
qed

end
