(* ===== verification/Dump.thy ===== *)
theory Dump
  imports Prelude "HOL-Library.Monad_Syntax"
begin

text \<open>
  The hexadecimal dump of binary data: the portable routine, the routines for the SSSE3 and AVX2 instruction sets
  with the vector instructions that they use, and the choice of a routine for the processor. A routine reads the
  data and writes to a buffer on the stack; both are regions of memory with an address. An access outside of a region
  or to a misaligned address has undefined behaviour, which is \<open>None\<close>.
\<close>

section \<open>Memory\<close>

type_synonym region = "u64 \<times> u8 list"

definition accessible :: "nat \<Rightarrow> nat \<Rightarrow> region \<Rightarrow> nat \<Rightarrow> bool" where
  "accessible al n r i \<longleftrightarrow> i + n \<le> length (snd r) \<and> al dvd unat (fst r + of_nat i)"

definition mm_load :: "nat \<Rightarrow> nat \<Rightarrow> region \<Rightarrow> nat \<Rightarrow> u8 list option" where
  "mm_load al n r i = (if accessible al n r i then Some (mem_read (snd r) i n) else None)"

definition mm_store :: "nat \<Rightarrow> u8 list \<Rightarrow> region \<Rightarrow> nat \<Rightarrow> region option" where
  "mm_store al bs r i = (if accessible al (length bs) r i then Some (fst r, memcpy_to (snd r) i bs) else None)"

text \<open>An array on the stack, at the address \<open>base\<close> and not initialised: \<open>junk\<close> is what the memory happens to hold.\<close>

definition stack_array :: "u64 \<Rightarrow> (nat \<Rightarrow> u8) \<Rightarrow> nat \<Rightarrow> region" where
  "stack_array base junk n = (base, map junk [0..<n])"

text \<open>The character types, by their size; \<open>wchar_t\<close> is one of the larger two. Characters are little-endian in memory.\<close>

datatype char_type = Char_8 | Char_16 | Char_32

fun sizeof_char :: "char_type \<Rightarrow> nat" where
  "sizeof_char Char_8 = 1"
| "sizeof_char Char_16 = 2"
| "sizeof_char Char_32 = 4"

definition char_bytes :: "char_type \<Rightarrow> u8 \<Rightarrow> u8 list" where
  "char_bytes ct c = c # replicate (sizeof_char ct - 1) 0"

fun char_values :: "char_type \<Rightarrow> u8 list \<Rightarrow> u32 list" where
  "char_values Char_8 (a # bs) = ucast a # char_values Char_8 bs"
| "char_values Char_16 (a # b # bs) = u32_of_bytes [a, b, 0, 0] # char_values Char_16 bs"
| "char_values Char_32 (a # b # c # d # bs) = u32_of_bytes [a, b, c, d] # char_values Char_32 bs"
| "char_values _ _ = []"

text \<open>\<open>strm.write(buf + i, n)\<close>: the characters that are given to the stream.\<close>

definition write_chars :: "char_type \<Rightarrow> region \<Rightarrow> nat \<Rightarrow> nat \<Rightarrow> u32 list option" where
  "write_chars ct buf i n = map_option (char_values ct) (mm_load 1 (n * sizeof_char ct) buf i)"

section \<open>The portable routine\<close>

definition g_hex_char_table :: "bool \<Rightarrow> u8 list" where
  "g_hex_char_table uppercase = map of_char (if uppercase then ''0123456789ABCDEF'' else ''0123456789abcdef'')"

text \<open>One byte of the data: a space and two digits, and the loop over \<open>n\<close> bytes.\<close>

definition dump_byte :: "char_type \<Rightarrow> u8 list \<Rightarrow> region \<Rightarrow> nat \<Rightarrow> nat \<Rightarrow> region \<Rightarrow> region option" where
  "dump_byte ct char_table data p b buf = do {
     bs \<leftarrow> mm_load 1 1 data p;
     let n = hd bs;
     buf \<leftarrow> mm_store 1 (char_bytes ct 0x20) buf b;
     buf \<leftarrow> mm_store 1 (char_bytes ct (char_table ! unat (drop_bit 4 n))) buf (b + sizeof_char ct);
     mm_store 1 (char_bytes ct (char_table ! unat (n AND 0x0F))) buf (b + 2 * sizeof_char ct)
   }"

fun dump_bytes ::
  "char_type \<Rightarrow> u8 list \<Rightarrow> region \<Rightarrow> nat \<Rightarrow> nat \<Rightarrow> nat \<Rightarrow> region \<Rightarrow> (nat \<times> nat \<times> region) option"
where
  "dump_bytes ct char_table data 0 p b buf = Some (p, b, buf)"
| "dump_bytes ct char_table data (Suc n) p b buf = do {
     buf \<leftarrow> dump_byte ct char_table data p b buf;
     dump_bytes ct char_table data n (p + 1) (b + 3 * sizeof_char ct) buf
   }"

text \<open>
  The state between two writes to the stream: the position in the data, the number of characters to skip at the
  beginning of the buffer, the buffer and what was written.
\<close>

type_synonym dump_state = "nat \<times> nat \<times> region \<times> u32 list"

text \<open>
  The loop over the strides: \<open>fill\<close> fills the buffer, \<open>buf_off\<close> and \<open>len\<close> are its offset and its size in characters.
\<close>

fun dump_strides ::
  "char_type \<Rightarrow> (nat \<Rightarrow> region \<Rightarrow> (nat \<times> nat \<times> region) option) \<Rightarrow> nat \<Rightarrow> nat \<Rightarrow> nat \<Rightarrow> dump_state \<Rightarrow> dump_state option"
where
  "dump_strides ct fill buf_off len 0 st = Some st"
| "dump_strides ct fill buf_off len (Suc n) (p, skip, buf, strm) = do {
     (p, _, buf) \<leftarrow> fill p buf;
     out \<leftarrow> write_chars ct buf (buf_off + skip * sizeof_char ct) (len - skip);
     dump_strides ct fill buf_off len n (p, 0, buf, strm @ out)
   }"

text \<open>The last write: from \<open>buf_begin\<close> to the position behind the last character.\<close>

definition write_tail :: "char_type \<Rightarrow> nat \<Rightarrow> nat \<Rightarrow> nat \<times> nat \<times> region \<Rightarrow> u32 list option" where
  "write_tail ct buf_off skip st =
     (case st of (p, b, buf) \<Rightarrow>
        write_chars ct buf (buf_off + skip * sizeof_char ct) ((b - buf_off) div sizeof_char ct - skip))"

definition dump_data_generic ::
  "char_type \<Rightarrow> bool \<Rightarrow> u64 \<Rightarrow> (nat \<Rightarrow> u8) \<Rightarrow> region \<Rightarrow> nat \<Rightarrow> u32 list option"
where
  "dump_data_generic ct uppercase base junk data sz = do {
     let stride = 256;
     let buf = stack_array base junk (stride * 3 * sizeof_char ct);
     let char_table = g_hex_char_table uppercase;
     let tail_size = sz mod stride;
     (p, skip, buf, strm) \<leftarrow>
       dump_strides ct (\<lambda>p. dump_bytes ct char_table data stride p 0) 0 (stride * 3) (sz div stride) (0, 1, buf, []);
     if tail_size > 0 then do {
       st \<leftarrow> dump_bytes ct char_table data tail_size p 0 buf;
       out \<leftarrow> write_tail ct 0 skip st;
       Some (strm @ out)
     } else Some strm
   }"

section \<open>Vector instructions\<close>

text \<open>A register is a list of 16 bytes, the lowest first; a 256-bit register has two such lanes.\<close>

type_synonym m128 = "u8 list"

fun mm_srli_epi16 :: "m128 \<Rightarrow> nat \<Rightarrow> m128" where
  "mm_srli_epi16 (lo # hi # r) n =
     (let w = drop_bit n (ucast lo OR push_bit 8 (ucast hi) :: 16 word) in ucast w # ucast (drop_bit 8 w) # mm_srli_epi16 r n)"
| "mm_srli_epi16 r n = []"

definition mm_and :: "m128 \<Rightarrow> m128 \<Rightarrow> m128" where
  "mm_and = map2 (AND)"

definition mm_add_epi8 :: "m128 \<Rightarrow> m128 \<Rightarrow> m128" where
  "mm_add_epi8 = map2 (+)"

definition mm_max_epu8 :: "m128 \<Rightarrow> m128 \<Rightarrow> m128" where
  "mm_max_epu8 = map2 max"

definition mm_cmpgt_epi8 :: "m128 \<Rightarrow> m128 \<Rightarrow> m128" where
  "mm_cmpgt_epi8 = map2 (\<lambda>a b. if sint b < sint a then 0xFF else 0)"

definition mm_shuffle_epi8 :: "m128 \<Rightarrow> m128 \<Rightarrow> m128" where
  "mm_shuffle_epi8 a sel = map (\<lambda>i. if bit i 7 then 0 else a ! unat (i AND 0x0F)) sel"

definition interleave :: "'a list \<Rightarrow> 'a list \<Rightarrow> 'a list" where
  "interleave xs ys = concat (map2 (\<lambda>x y. [x, y]) xs ys)"

fun pairs :: "m128 \<Rightarrow> u8 list list" where
  "pairs (a # b # r) = [a, b] # pairs r"
| "pairs _ = []"

definition mm_unpacklo_epi8 :: "m128 \<Rightarrow> m128 \<Rightarrow> m128" where
  "mm_unpacklo_epi8 a b = interleave (take 8 a) (take 8 b)"

definition mm_unpackhi_epi8 :: "m128 \<Rightarrow> m128 \<Rightarrow> m128" where
  "mm_unpackhi_epi8 a b = interleave (drop 8 a) (drop 8 b)"

definition mm_unpacklo_epi16 :: "m128 \<Rightarrow> m128 \<Rightarrow> m128" where
  "mm_unpacklo_epi16 a b = concat (interleave (take 4 (pairs a)) (take 4 (pairs b)))"

definition mm_unpackhi_epi16 :: "m128 \<Rightarrow> m128 \<Rightarrow> m128" where
  "mm_unpackhi_epi16 a b = concat (interleave (drop 4 (pairs a)) (drop 4 (pairs b)))"

definition mm_unpackhi_epi64 :: "m128 \<Rightarrow> m128 \<Rightarrow> m128" where
  "mm_unpackhi_epi64 a b = drop 8 a @ drop 8 b"

definition mm_alignr_epi8 :: "m128 \<Rightarrow> m128 \<Rightarrow> nat \<Rightarrow> m128" where
  "mm_alignr_epi8 a b n = take 16 (drop n (b @ a))"

definition mm_set1_epi32 :: "u32 \<Rightarrow> m128" where
  "mm_set1_epi32 w = concat (replicate 4 (u32_bytes w))"

text \<open>Most 256-bit instructions do in each lane what the 128-bit instruction does.\<close>

definition lanes :: "(m128 \<Rightarrow> m128) \<Rightarrow> u8 list \<Rightarrow> u8 list" where
  "lanes f a = f (take 16 a) @ f (drop 16 a)"

definition lanes2 :: "(m128 \<Rightarrow> m128 \<Rightarrow> m128) \<Rightarrow> u8 list \<Rightarrow> u8 list \<Rightarrow> u8 list" where
  "lanes2 f a b = f (take 16 a) (take 16 b) @ f (drop 16 a) (drop 16 b)"

definition mm256_castsi256_si128 :: "u8 list \<Rightarrow> m128" where
  "mm256_castsi256_si128 a = take 16 a"

definition mm256_extracti128_1 :: "u8 list \<Rightarrow> m128" where
  "mm256_extracti128_1 a = drop 16 a"

definition mm256_cvtepu8_epi16 :: "m128 \<Rightarrow> u8 list" where
  "mm256_cvtepu8_epi16 a = concat (map (\<lambda>c. [c, 0]) a)"

definition mm256_cvtepu8_epi32 :: "m128 \<Rightarrow> u8 list" where
  "mm256_cvtepu8_epi32 a = concat (map (\<lambda>c. [c, 0, 0, 0]) (take 8 a))"

section \<open>The routines for SSSE3\<close>

definition store_characters_ssse3 :: "char_type \<Rightarrow> m128 \<Rightarrow> region \<Rightarrow> nat \<Rightarrow> region option" where
  "store_characters_ssse3 ct mm_chars buf b =
     (case ct of
        Char_8 \<Rightarrow> mm_store 16 mm_chars buf b
      | Char_16 \<Rightarrow> do {
          let mm_0 = mm_set1_epi32 0;
          buf \<leftarrow> mm_store 16 (mm_unpacklo_epi8 mm_chars mm_0) buf b;
          mm_store 16 (mm_unpackhi_epi8 mm_chars mm_0) buf (b + 16)
        }
      | Char_32 \<Rightarrow> do {
          let mm_0 = mm_set1_epi32 0;
          let mm = mm_unpacklo_epi8 mm_chars mm_0;
          buf \<leftarrow> mm_store 16 (mm_unpacklo_epi16 mm mm_0) buf b;
          buf \<leftarrow> mm_store 16 (mm_unpackhi_epi16 mm mm_0) buf (b + 16);
          let mm = mm_unpackhi_epi8 mm_chars mm_0;
          buf \<leftarrow> mm_store 16 (mm_unpacklo_epi16 mm mm_0) buf (b + 32);
          mm_store 16 (mm_unpackhi_epi16 mm mm_0) buf (b + 48)
        })"

definition mm_shuffle_pattern1 :: m128 where
  "mm_shuffle_pattern1 = [0x80, 0, 1, 0x80, 2, 3, 0x80, 4, 5, 0x80, 6, 7, 0x80, 8, 9, 0x80]"

definition mm_shuffle_pattern2 :: m128 where
  "mm_shuffle_pattern2 = [0, 1, 0x80, 2, 3, 0x80, 4, 5, 0x80, 6, 7, 0x80, 8, 9, 0x80, 10]"

definition mm_shuffle_pattern3 :: m128 where
  "mm_shuffle_pattern3 = [5, 0x80, 6, 7, 0x80, 8, 9, 0x80, 10, 11, 0x80, 12, 13, 0x80, 14, 15]"

text \<open>The last part of \<open>dump_pack\<close>: the digits of 16 bytes are joined and spaces put between them.\<close>

definition join_digits :: "m128 \<Rightarrow> m128 \<Rightarrow> m128 \<times> m128 \<times> m128" where
  "join_digits mm_input_hi mm_input_lo =
     (let mm_char_space = mm_set1_epi32 0x20202020;
          mm_1 = mm_unpacklo_epi8 mm_input_hi mm_input_lo;
          mm_2 = mm_unpackhi_epi8 mm_input_hi mm_input_lo;
          mm_output1 = mm_shuffle_epi8 mm_1 mm_shuffle_pattern1;
          mm_output2 = mm_shuffle_epi8 (mm_alignr_epi8 mm_2 mm_1 10) mm_shuffle_pattern2;
          mm_output3 = mm_shuffle_epi8 mm_2 mm_shuffle_pattern3
      in (mm_max_epu8 mm_output1 mm_char_space, mm_max_epu8 mm_output2 mm_char_space,
          mm_max_epu8 mm_output3 mm_char_space))"

definition dump_pack :: "m128 \<Rightarrow> m128 \<Rightarrow> m128 \<times> m128 \<times> m128" where
  "dump_pack mm_char_table mm_input =
     (let mm_15 = mm_set1_epi32 0x0F0F0F0F;
          mm_input_hi = mm_and (mm_srli_epi16 mm_input 4) mm_15;
          mm_input_lo = mm_and mm_input mm_15
      in join_digits (mm_shuffle_epi8 mm_char_table mm_input_hi) (mm_shuffle_epi8 mm_char_table mm_input_lo))"

definition dump_pack_slow_pshufb :: "m128 \<Rightarrow> m128 \<Rightarrow> m128 \<times> m128 \<times> m128" where
  "dump_pack_slow_pshufb mm_char_10_to_a mm_input =
     (let mm_15 = mm_set1_epi32 0x0F0F0F0F;
          mm_9 = mm_set1_epi32 0x09090909;
          mm_char_0 = mm_set1_epi32 0x30303030;
          mm_input_hi = mm_and (mm_srli_epi16 mm_input 4) mm_15;
          mm_input_lo = mm_and mm_input mm_15;
          mm_addend_hi = mm_and mm_char_10_to_a (mm_cmpgt_epi8 mm_input_hi mm_9);
          mm_addend_lo = mm_and mm_char_10_to_a (mm_cmpgt_epi8 mm_input_lo mm_9);
          mm_input_hi = mm_add_epi8 mm_input_hi mm_char_0;
          mm_input_lo = mm_add_epi8 mm_input_lo mm_char_0
      in join_digits (mm_add_epi8 mm_input_hi mm_addend_hi) (mm_add_epi8 mm_input_lo mm_addend_lo))"

text \<open>
  A pack of 16 bytes is loaded, dumped and stored. \<open>store\<close> is the \<open>store_characters\<close> of the instruction set,
  \<open>pack\<close> one of the \<open>dump_pack\<close>, \<open>al\<close> the alignment that the load needs.
\<close>

type_synonym store_chars = "m128 \<Rightarrow> region \<Rightarrow> nat \<Rightarrow> region option"

definition store_pack ::
  "char_type \<Rightarrow> store_chars \<Rightarrow> (m128 \<Rightarrow> m128 \<times> m128 \<times> m128) \<Rightarrow> nat \<Rightarrow> region \<Rightarrow> nat \<Rightarrow> nat \<Rightarrow> region \<Rightarrow> region option"
where
  "store_pack ct store pack al data p b buf = do {
     mm_input \<leftarrow> mm_load al 16 data p;
     let (mm_output1, mm_output2, mm_output3) = pack mm_input;
     buf \<leftarrow> store mm_output1 buf b;
     buf \<leftarrow> store mm_output2 buf (b + 16 * sizeof_char ct);
     store mm_output3 buf (b + 32 * sizeof_char ct)
   }"

text \<open>The loops over the packs of a stride; a pack has \<open>w\<close> bytes.\<close>

fun dump_packs ::
  "char_type \<Rightarrow> nat \<Rightarrow> (nat \<Rightarrow> nat \<Rightarrow> region \<Rightarrow> region option) \<Rightarrow> nat \<Rightarrow> nat \<Rightarrow> nat \<Rightarrow> region \<Rightarrow> (nat \<times> nat \<times> region) option"
where
  "dump_packs ct w step 0 p b buf = Some (p, b, buf)"
| "dump_packs ct w step (Suc n) p b buf = do {
     buf \<leftarrow> step p b buf;
     dump_packs ct w step n (p + w) (b + 3 * w * sizeof_char ct) buf
   }"

text \<open>The tail of the data: packs of 16 bytes as long as there are 16 bytes, then byte for byte.\<close>

fun dump_tail ::
  "char_type \<Rightarrow> u8 list \<Rightarrow> region \<Rightarrow> (nat \<Rightarrow> nat \<Rightarrow> region \<Rightarrow> region option) \<Rightarrow> nat \<Rightarrow> nat \<Rightarrow> nat \<Rightarrow> region \<Rightarrow>
   (nat \<times> nat \<times> region) option"
where
  "dump_tail ct char_table data step tail_size p b buf =
     (if tail_size \<ge> 16
      then do {
        buf \<leftarrow> step p b buf;
        dump_tail ct char_table data step (tail_size - 16) (p + 16) (b + 3 * 16 * sizeof_char ct) buf
      }
      else dump_bytes ct char_table data tail_size p b buf)"

declare dump_tail.simps [simp del]

text \<open>
  The parts that the vector routines have in common: the bytes up to an aligned address (\<open>first\<close> dumps a pack that
  need not be aligned), the strides and the tail. \<open>w\<close> is the size of a pack.
\<close>

definition dump_aligned ::
  "char_type \<Rightarrow> u8 list \<Rightarrow> nat \<Rightarrow> (nat \<Rightarrow> nat \<Rightarrow> region \<Rightarrow> region option) \<Rightarrow> (nat \<Rightarrow> nat \<Rightarrow> region \<Rightarrow> region option) \<Rightarrow>
   (nat \<Rightarrow> nat \<Rightarrow> region \<Rightarrow> region option) \<Rightarrow> nat \<Rightarrow> region \<Rightarrow> nat \<Rightarrow> nat \<Rightarrow> region \<Rightarrow> u32 list option"
where
  "dump_aligned ct char_table w first step step16 prealign_size data sz buf_off buf = do {
     let stride = 32 * w;
     (p, skip, buf, strm) \<leftarrow>
       (if prealign_size > 0 then do {
          buf \<leftarrow> first 0 buf_off buf;
          out \<leftarrow> write_chars ct buf (buf_off + sizeof_char ct) (prealign_size * 3 - 1);
          Some (prealign_size, 0, buf, out)
        } else Some (0, 1, buf, []));
     let sz = sz - prealign_size;
     let tail_size = sz mod stride;
     (p, skip, buf, strm) \<leftarrow>
       dump_strides ct (\<lambda>p. dump_packs ct w step 32 p buf_off) buf_off (stride * 3) (sz div stride) (p, skip, buf, strm);
     if tail_size > 0 then do {
       st \<leftarrow> dump_tail ct char_table data step16 tail_size p buf_off buf;
       out \<leftarrow> write_tail ct buf_off skip st;
       Some (strm @ out)
     } else Some strm
   }"

definition dump_data_ssse3 ::
  "char_type \<Rightarrow> bool \<Rightarrow> u64 \<Rightarrow> (nat \<Rightarrow> u8) \<Rightarrow> region \<Rightarrow> nat \<Rightarrow> u32 list option"
where
  "dump_data_ssse3 ct uppercase base junk data sz =
     (let buf_storage = stack_array base junk ((32 * 16 * 3 + 16) * sizeof_char ct);
          buf_off = unat (16 - (base AND 15));
          char_table = g_hex_char_table uppercase;
          mm_char_table = char_table;
          step = (\<lambda>al. store_pack ct (store_characters_ssse3 ct) (dump_pack mm_char_table) al data);
          prealign_size = unat ((16 - (fst data AND 15)) AND 15)
      in dump_aligned ct char_table 16 (step 1) (step 16) (step 16) prealign_size data sz buf_off buf_storage)"

definition dump_data_ssse3_slow_pshufb ::
  "char_type \<Rightarrow> bool \<Rightarrow> u64 \<Rightarrow> (nat \<Rightarrow> u8) \<Rightarrow> region \<Rightarrow> nat \<Rightarrow> u32 list option"
where
  "dump_data_ssse3_slow_pshufb ct uppercase base junk data sz =
     (let buf_storage = stack_array base junk ((32 * 16 * 3 + 16) * sizeof_char ct);
          buf_off = unat (16 - (base AND 15));
          char_table = g_hex_char_table uppercase;
          mm_char_10_to_a = (if uppercase then mm_set1_epi32 0x07070707 else mm_set1_epi32 0x27272727);
          step = (\<lambda>al. store_pack ct (store_characters_ssse3 ct) (dump_pack_slow_pshufb mm_char_10_to_a) al data);
          prealign_size = unat ((16 - (fst data AND 15)) AND 15)
      in dump_aligned ct char_table 16 (step 1) (step 16) (step 16) prealign_size data sz buf_off buf_storage)"

section \<open>The routine for AVX2\<close>

definition store_characters_avx2 :: "char_type \<Rightarrow> m128 \<Rightarrow> region \<Rightarrow> nat \<Rightarrow> region option" where
  "store_characters_avx2 ct mm_chars buf b =
     (case ct of
        Char_8 \<Rightarrow> mm_store 16 mm_chars buf b
      | Char_16 \<Rightarrow> mm_store 32 (mm256_cvtepu8_epi16 mm_chars) buf b
      | Char_32 \<Rightarrow> do {
          let mm = mm_unpackhi_epi64 mm_chars mm_chars;
          buf \<leftarrow> mm_store 32 (mm256_cvtepu8_epi32 mm_chars) buf b;
          mm_store 32 (mm256_cvtepu8_epi32 mm) buf (b + 32)
        })"

definition store_characters_x3 ::
  "char_type \<Rightarrow> u8 list \<Rightarrow> u8 list \<Rightarrow> u8 list \<Rightarrow> region \<Rightarrow> nat \<Rightarrow> region option"
where
  "store_characters_x3 ct mm_chars1 mm_chars2 mm_chars3 buf b = do {
     buf \<leftarrow> store_characters_avx2 ct (mm256_castsi256_si128 mm_chars1) buf b;
     buf \<leftarrow> store_characters_avx2 ct (mm256_castsi256_si128 mm_chars2) buf (b + 16 * sizeof_char ct);
     buf \<leftarrow> store_characters_avx2 ct (mm256_castsi256_si128 mm_chars3) buf (b + 32 * sizeof_char ct);
     buf \<leftarrow> store_characters_avx2 ct (mm256_extracti128_1 mm_chars1) buf (b + 48 * sizeof_char ct);
     buf \<leftarrow> store_characters_avx2 ct (mm256_extracti128_1 mm_chars2) buf (b + 64 * sizeof_char ct);
     store_characters_avx2 ct (mm256_extracti128_1 mm_chars3) buf (b + 80 * sizeof_char ct)
   }"

definition dump_pack256 :: "u8 list \<Rightarrow> u8 list \<Rightarrow> u8 list \<times> u8 list \<times> u8 list" where
  "dump_pack256 mm_char_table mm_input =
     (let mm_15 = mm_set1_epi32 0x0F0F0F0F @ mm_set1_epi32 0x0F0F0F0F;
          mm_char_space = mm_set1_epi32 0x20202020 @ mm_set1_epi32 0x20202020;
          mm_input_hi = lanes2 mm_and (lanes (\<lambda>a. mm_srli_epi16 a 4) mm_input) mm_15;
          mm_input_lo = lanes2 mm_and mm_input mm_15;
          mm_input_hi = lanes2 mm_shuffle_epi8 mm_char_table mm_input_hi;
          mm_input_lo = lanes2 mm_shuffle_epi8 mm_char_table mm_input_lo;
          mm_1 = lanes2 mm_unpacklo_epi8 mm_input_hi mm_input_lo;
          mm_2 = lanes2 mm_unpackhi_epi8 mm_input_hi mm_input_lo;
          mm_out1 = lanes2 mm_shuffle_epi8 mm_1 (mm_shuffle_pattern1 @ mm_shuffle_pattern1);
          mm_out3 = lanes2 mm_shuffle_epi8 mm_2 (mm_shuffle_pattern3 @ mm_shuffle_pattern3);
          mm_out2 = lanes2 mm_shuffle_epi8 (lanes2 (\<lambda>a b. mm_alignr_epi8 a b 10) mm_2 mm_1)
            (mm_shuffle_pattern2 @ mm_shuffle_pattern2)
      in (lanes2 mm_max_epu8 mm_out1 mm_char_space, lanes2 mm_max_epu8 mm_out2 mm_char_space,
          lanes2 mm_max_epu8 mm_out3 mm_char_space))"

definition store_pack256 ::
  "char_type \<Rightarrow> u8 list \<Rightarrow> nat \<Rightarrow> region \<Rightarrow> nat \<Rightarrow> nat \<Rightarrow> region \<Rightarrow> region option"
where
  "store_pack256 ct mm_char_table al data p b buf = do {
     mm_input \<leftarrow> mm_load al 32 data p;
     let (mm_output1, mm_output2, mm_output3) = dump_pack256 mm_char_table mm_input;
     store_characters_x3 ct mm_output1 mm_output2 mm_output3 buf b
   }"

definition dump_data_avx2 ::
  "char_type \<Rightarrow> bool \<Rightarrow> u64 \<Rightarrow> (nat \<Rightarrow> u8) \<Rightarrow> region \<Rightarrow> nat \<Rightarrow> u32 list option"
where
  "dump_data_avx2 ct uppercase base junk data sz =
     (let buf_storage = stack_array base junk ((32 * 32 * 3 + 32) * sizeof_char ct);
          buf_off = unat (32 - (base AND 31));
          char_table = g_hex_char_table uppercase;
          mm_char_table = char_table @ char_table;
          step = (\<lambda>al. store_pack256 ct mm_char_table al data);
          step16 = store_pack ct (store_characters_avx2 ct) (dump_pack (mm256_castsi256_si128 mm_char_table)) 16 data;
          prealign_size = (if sz = 32 then 32 else unat ((32 - (fst data AND 31)) AND 31))
      in dump_aligned ct char_table 32 (step 1) (step 32) step16 prealign_size data sz buf_off buf_storage)"

section \<open>The choice of a routine\<close>

text \<open>
  The instruction \<open>cpuid\<close> gives the registers \<open>eax\<close>, \<open>ebx\<close>, \<open>ecx\<close> and \<open>edx\<close> for the function in \<open>eax\<close>, with 0 in the
  other registers; \<open>xgetbv\<close> gives the features that the operating system enabled.
\<close>

record processor =
  cpuid :: "u32 \<Rightarrow> u32 \<times> u32 \<times> u32 \<times> u32"
  xgetbv :: u32

datatype dump_routine = Dump_Generic | Dump_Ssse3 | Dump_Ssse3_Slow_Pshufb | Dump_Avx2

definition slow_pshufb :: "u32 \<times> u32 \<times> u32 \<Rightarrow> u32 \<Rightarrow> bool" where
  "slow_pshufb cpu_vendor eax =
     (let family = (drop_bit 8 eax AND 0x0000000F) + (drop_bit 20 eax AND 0x000000FF);
          model = (drop_bit 4 eax AND 0x0000000F) OR (drop_bit 12 eax AND 0x000000F0)
      in cpu_vendor = (0x756e6547, 0x49656e69, 0x6c65746e) \<and> family = 6 \<and> model \<in> {28, 38, 39, 53, 54})"

definition function_pointer_initializer :: "processor \<Rightarrow> dump_routine" where
  "function_pointer_initializer cpu =
     (case cpuid cpu 0 of (max_cpuid_function, ebx, ecx, edx) \<Rightarrow>
        let cpu_vendor = (ebx, edx, ecx)
        in if max_cpuid_function \<ge> 1
           then (case cpuid cpu 1 of (eax, ebx, ecx, edx) \<Rightarrow>
                   let routine = (if bit ecx 9
                                  then (if slow_pshufb cpu_vendor eax then Dump_Ssse3_Slow_Pshufb else Dump_Ssse3)
                                  else Dump_Generic)
                   in if max_cpuid_function \<ge> 7 \<and> bit ecx 27 \<and> xgetbv cpu AND 6 = 6 \<and> bit (fst (snd (cpuid cpu 7))) 5
                      then Dump_Avx2 else routine)
           else Dump_Generic)"

text \<open>
  The functions that the pointers are set to, one for each character type: the vector routines are used when there is
  a whole pack of data. The parameters \<open>base\<close> and \<open>junk\<close> say where the buffer is on the stack and what is in it.
\<close>

definition dump_data_char_ssse3 ::
  "char_type \<Rightarrow> bool \<Rightarrow> u64 \<Rightarrow> (nat \<Rightarrow> u8) \<Rightarrow> region \<Rightarrow> nat \<Rightarrow> u32 list option"
where
  "dump_data_char_ssse3 ct uppercase base junk data sz =
     (if sz \<ge> 16 then dump_data_ssse3 ct uppercase base junk data sz
      else dump_data_generic ct uppercase base junk data sz)"

definition dump_data_char_ssse3_slow_pshufb ::
  "char_type \<Rightarrow> bool \<Rightarrow> u64 \<Rightarrow> (nat \<Rightarrow> u8) \<Rightarrow> region \<Rightarrow> nat \<Rightarrow> u32 list option"
where
  "dump_data_char_ssse3_slow_pshufb ct uppercase base junk data sz =
     (if sz \<ge> 16 then dump_data_ssse3_slow_pshufb ct uppercase base junk data sz
      else dump_data_generic ct uppercase base junk data sz)"

definition dump_data_char_avx2 ::
  "char_type \<Rightarrow> bool \<Rightarrow> u64 \<Rightarrow> (nat \<Rightarrow> u8) \<Rightarrow> region \<Rightarrow> nat \<Rightarrow> u32 list option"
where
  "dump_data_char_avx2 ct uppercase base junk data sz =
     (if sz \<ge> 32 then dump_data_avx2 ct uppercase base junk data sz
      else dump_data_generic ct uppercase base junk data sz)"

definition dump_data ::
  "processor \<Rightarrow> char_type \<Rightarrow> bool \<Rightarrow> u64 \<Rightarrow> (nat \<Rightarrow> u8) \<Rightarrow> region \<Rightarrow> nat \<Rightarrow> u32 list option"
where
  "dump_data cpu =
     (case function_pointer_initializer cpu of
        Dump_Generic \<Rightarrow> dump_data_generic
      | Dump_Ssse3 \<Rightarrow> dump_data_char_ssse3
      | Dump_Ssse3_Slow_Pshufb \<Rightarrow> dump_data_char_ssse3_slow_pshufb
      | Dump_Avx2 \<Rightarrow> dump_data_char_avx2)"

text \<open>
  The stream operators, which do nothing for a stream that is not \<open>good\<close>; \<open>number\<close> is how the stream prints an
  unsigned integer (its flags and its locale decide on that).
\<close>

definition dump_manip ::
  "processor \<Rightarrow> char_type \<Rightarrow> bool \<Rightarrow> bool \<Rightarrow> u64 \<Rightarrow> (nat \<Rightarrow> u8) \<Rightarrow> region \<Rightarrow> nat \<Rightarrow> u32 list option"
where
  "dump_manip cpu ct good uppercase base junk data sz =
     (if good then dump_data cpu ct uppercase base junk data sz else Some [])"

definition bounded_dump_manip ::
  "processor \<Rightarrow> char_type \<Rightarrow> bool \<Rightarrow> bool \<Rightarrow> (nat \<Rightarrow> u32 list) \<Rightarrow> u64 \<Rightarrow> (nat \<Rightarrow> u8) \<Rightarrow> region \<Rightarrow> nat \<Rightarrow> nat \<Rightarrow>
   u32 list option"
where
  "bounded_dump_manip cpu ct good uppercase number base junk data sz max_size =
     (if \<not> good then Some []
      else if max_size \<ge> sz then dump_data cpu ct uppercase base junk data sz
      else do {
        out \<leftarrow> dump_data cpu ct uppercase base junk data max_size;
        Some (out @ map of_char '' and '' @ number (sz - max_size) @ map of_char '' bytes more'')
      })"

end
