(* ===== verification/Dump_Packs.thy ===== *)
theory Dump_Packs
  imports Dump
begin

text \<open>
  What the vector instructions of the dump compute: a pack of bytes becomes the characters that the portable routine
  writes for them, and these are stored in the buffer for every character type.
\<close>

section \<open>What the routines write\<close>

text \<open>The characters of one byte and of a sequence of bytes, and their representation in memory.\<close>

definition hex_chars :: "u8 list \<Rightarrow> u8 \<Rightarrow> u8 list" where
  "hex_chars tbl n = [0x20, tbl ! unat (drop_bit 4 n), tbl ! unat (n AND 0x0F)]"

definition hexs :: "u8 list \<Rightarrow> u8 list \<Rightarrow> u8 list" where
  "hexs tbl ds = concat (map (hex_chars tbl) ds)"

definition enc :: "char_type \<Rightarrow> u8 list \<Rightarrow> u8 list" where
  "enc ct cs = concat (map (char_bytes ct) cs)"

lemma hexs_simps [simp]:
  "hexs tbl [] = []" "hexs tbl (d # ds) = hex_chars tbl d @ hexs tbl ds" "hexs tbl (xs @ ys) = hexs tbl xs @ hexs tbl ys"
  by (simp_all add: hexs_def)

lemma enc_simps [simp]:
  "enc ct [] = []" "enc ct (c # cs) = char_bytes ct c @ enc ct cs" "enc ct (xs @ ys) = enc ct xs @ enc ct ys"
  by (simp_all add: enc_def)

lemma length_hex_chars [simp]: "length (hex_chars tbl n) = 3"
  by (simp add: hex_chars_def)

lemma length_hexs [simp]: "length (hexs tbl ds) = 3 * length ds"
  by (induction ds) simp_all

lemma sizeof_char_pos [simp]: "0 < sizeof_char ct"
  by (cases ct) simp_all

lemma length_char_bytes [simp]: "length (char_bytes ct c) = sizeof_char ct"
  by (cases ct) (simp_all add: char_bytes_def)

lemma length_enc [simp]: "length (enc ct cs) = length cs * sizeof_char ct"
  by (induction cs) simp_all

lemma take_enc: "take (n * sizeof_char ct) (enc ct cs) = enc ct (take n cs)"
proof (induction cs arbitrary: n)
  case (Cons c cs)
  then show ?case by (cases n) simp_all
qed simp

lemma drop_enc: "drop (n * sizeof_char ct) (enc ct cs) = enc ct (drop n cs)"
proof (induction cs arbitrary: n)
  case (Cons c cs)
  then show ?case by (cases n) simp_all
qed simp

lemma u32_of_bytes_ucast: "u32_of_bytes [a, 0, 0, 0] = ucast a"
  by (simp add: u32_of_bytes_def)

lemma char_values_enc: "char_values ct (enc ct cs) = map ucast cs"
proof (induction cs)
  case Nil
  then show ?case by (cases ct) simp_all
next
  case (Cons c cs)
  then show ?case by (cases ct) (simp_all add: char_bytes_def numeral_eq_Suc u32_of_bytes_ucast)
qed

lemma take_hexs: "take (3 * n) (hexs tbl ds) = hexs tbl (take n ds)"
proof (induction ds arbitrary: n)
  case (Cons d ds)
  then show ?case by (cases n) simp_all
qed simp

section \<open>Accesses to memory\<close>

lemma memcpy_to_append:
  assumes "off + length x + length y \<le> length mem"
  shows "memcpy_to (memcpy_to mem off x) (off + length x) y = memcpy_to mem off (x @ y)"
  using assms by (simp add: memcpy_to_def ac_simps)

lemma mem_read_memcpy:
  assumes "off + length x \<le> length mem" "i + n \<le> length x"
  shows "mem_read (memcpy_to mem off x) (off + i) n = take n (drop i x)"
  using assms by (simp add: mem_read_def memcpy_to_def)

lemma mem_read_add: "mem_read d p n @ mem_read d (p + n) k = mem_read d p (n + k)"
  by (simp add: mem_read_def take_add add.commute [of p n])

lemma aligned_add:
  assumes "al dvd 2 ^ 64" "al dvd n" "al dvd unat (a + of_nat i :: u64)"
  shows "al dvd unat (a + of_nat (i + n) :: u64)"
proof -
  have e: "a + of_nat (i + n) = (a + of_nat i) + of_nat n" by simp
  have u: "unat ((a + of_nat i) + of_nat n :: u64) = (unat (a + of_nat i :: u64) + n) mod 2 ^ 64"
    by (simp add: unat_word_ariths unat_of_nat mod_simps)
  have "al dvd unat (a + of_nat i :: u64) + n" using assms(2,3) by (rule dvd_add[rotated])
  then have "al dvd (unat (a + of_nat i :: u64) + n) mod 2 ^ 64" using assms(1) by (simp only: dvd_mod_iff)
  then show ?thesis by (simp only: e u)
qed

lemma mm_load_ok: "i + n \<le> length (snd r) \<Longrightarrow> al dvd unat (fst r + of_nat i) \<Longrightarrow> mm_load al n r i = Some (mem_read (snd r) i n)"
  by (simp add: mm_load_def accessible_def)

lemma mm_store_ok:
  "i + length bs \<le> length m \<Longrightarrow> al dvd unat (a + of_nat i) \<Longrightarrow> mm_store al bs (a, m) i = Some (a, memcpy_to m i bs)"
  by (simp add: mm_store_def accessible_def)

lemma write_chars_ok:
  assumes "off + length cs * sizeof_char ct \<le> length m" "skip + n \<le> length cs"
  shows "write_chars ct (a, memcpy_to m off (enc ct cs)) (off + skip * sizeof_char ct) n =
    Some (map ucast (take n (drop skip cs)))"
proof -
  have b: "skip * sizeof_char ct + n * sizeof_char ct \<le> length (enc ct cs)"
    using mult_le_mono1 [OF assms(2), of "sizeof_char ct"] by (simp add: algebra_simps)
  then have "mem_read (memcpy_to m off (enc ct cs)) (off + skip * sizeof_char ct) (n * sizeof_char ct) =
      take (n * sizeof_char ct) (drop (skip * sizeof_char ct) (enc ct cs))"
    using assms(1) by (intro mem_read_memcpy) simp_all
  moreover have "off + skip * sizeof_char ct + n * sizeof_char ct \<le> length m" using b assms(1) by simp
  ultimately show ?thesis
    using assms(1) by (simp add: write_chars_def mm_load_ok drop_enc take_enc char_values_enc)
qed

section \<open>Byte for byte\<close>

lemma mm_store_append:
  assumes "b + (length x + length y) \<le> length m" "al dvd 2 ^ 64" "al dvd length x" "al dvd unat (a + of_nat b :: u64)"
  shows "mm_store al y (a, memcpy_to m b x) (b + length x) = Some (a, memcpy_to m b (x @ y))"
  using assms(1) memcpy_to_append [of b x y m] aligned_add [OF assms(2-4)] by (subst mm_store_ok) simp_all

lemma dump_byte_ok:
  assumes "p < length (snd data)" "b + 3 * sizeof_char ct \<le> length m"
  shows "dump_byte ct tbl data p b (a, m) = Some (a, memcpy_to m b (enc ct (hex_chars tbl (snd data ! p))))"
proof -
  define c1 c2 c3 where c: "c1 = char_bytes ct 0x20" "c2 = char_bytes ct (tbl ! unat (drop_bit 4 (snd data ! p)))"
    "c3 = char_bytes ct (tbl ! unat (snd data ! p AND 0x0F))"
  then have l: "length c1 = sizeof_char ct" "length c2 = sizeof_char ct" "length c3 = sizeof_char ct" by simp_all
  have "mm_load 1 1 data p = Some [snd data ! p]"
    using assms(1) by (simp add: mm_load_ok mem_read_def Cons_nth_drop_Suc [symmetric])
  moreover have "mm_store 1 c1 (a, m) b = Some (a, memcpy_to m b c1)" using assms(2) l by (intro mm_store_ok) simp_all
  moreover have "mm_store 1 c2 (a, memcpy_to m b c1) (b + sizeof_char ct) = Some (a, memcpy_to m b (c1 @ c2))"
    using mm_store_append [of b c1 c2 m 1 a] assms(2) l by simp
  moreover have "mm_store 1 c3 (a, memcpy_to m b (c1 @ c2)) (b + 2 * sizeof_char ct) = Some (a, memcpy_to m b ((c1 @ c2) @ c3))"
    using mm_store_append [of b "c1 @ c2" c3 m 1 a] assms(2) l by (simp add: mult_2)
  ultimately show ?thesis by (simp add: dump_byte_def hex_chars_def c Let_def)
qed

lemma dump_bytes_ok:
  assumes "p + n \<le> length (snd data)" "b + 3 * n * sizeof_char ct \<le> length m"
  shows "dump_bytes ct tbl data n p b (a, m) =
    Some (p + n, b + 3 * n * sizeof_char ct, (a, memcpy_to m b (enc ct (hexs tbl (mem_read (snd data) p n)))))"
  using assms
proof (induction n arbitrary: p b m)
  case 0
  then show ?case by (simp add: mem_read_def memcpy_to_def)
next
  case (Suc n)
  let ?x = "enc ct (hex_chars tbl (snd data ! p))"
  have l: "length ?x = 3 * sizeof_char ct" by (simp add: hex_chars_def)
  have r: "mem_read (snd data) p (Suc n) = snd data ! p # mem_read (snd data) (Suc p) n"
    using Suc.prems(1) by (simp add: mem_read_def Cons_nth_drop_Suc [symmetric])
  have s: "dump_byte ct tbl data p b (a, m) = Some (a, memcpy_to m b ?x)"
    using Suc.prems by (intro dump_byte_ok) (simp_all add: algebra_simps)
  have "dump_bytes ct tbl data n (Suc p) (b + 3 * sizeof_char ct) (a, memcpy_to m b ?x) = Some (Suc p + n,
      b + 3 * sizeof_char ct + 3 * n * sizeof_char ct,
      (a, memcpy_to (memcpy_to m b ?x) (b + 3 * sizeof_char ct) (enc ct (hexs tbl (mem_read (snd data) (Suc p) n)))))"
    using Suc.prems l by (intro Suc.IH) (simp_all add: algebra_simps)
  moreover have "memcpy_to (memcpy_to m b ?x) (b + 3 * sizeof_char ct) (enc ct (hexs tbl (mem_read (snd data) (Suc p) n))) =
      memcpy_to m b (?x @ enc ct (hexs tbl (mem_read (snd data) (Suc p) n)))"
    using Suc.prems l memcpy_to_append [of b ?x "enc ct (hexs tbl (mem_read (snd data) (Suc p) n))" m]
    by (simp add: algebra_simps)
  ultimately show ?case using s r by (simp add: algebra_simps)
qed

section \<open>Packs\<close>

lemma list_16:
  assumes "length xs = 16"
  obtains a0 a1 a2 a3 a4 a5 a6 a7 a8 a9 aA aB aC aD aE aF
  where "xs = [a0, a1, a2, a3, a4, a5, a6, a7, a8, a9, aA, aB, aC, aD, aE, aF]"
proof -
  have "xs = map ((!) xs) [0..<16]" using assms by (metis map_nth)
  then show ?thesis by (intro that) (simp add: upt_rec numeral_eq_Suc)
qed

text \<open>The three registers of a pack have the given characters, in this order.\<close>

definition pack_ok :: "m128 \<times> m128 \<times> m128 \<Rightarrow> u8 list \<Rightarrow> bool" where
  "pack_ok r cs \<longleftrightarrow> (case r of (o1, o2, o3) \<Rightarrow> length o1 = 16 \<and> length o2 = 16 \<and> length o3 = 16 \<and> o1 @ o2 @ o3 = cs)"

lemma replicate_explicit:
  "replicate 4 x = [x, x, x, x]" "replicate 16 x = [x, x, x, x, x, x, x, x, x, x, x, x, x, x, x, x]"
  by (simp_all add: numeral_eq_Suc)

lemma set1_epi32 [simp]:
  "mm_set1_epi32 0 = replicate 16 0" "mm_set1_epi32 0x0F0F0F0F = replicate 16 0x0F"
  "mm_set1_epi32 0x20202020 = replicate 16 0x20" "mm_set1_epi32 0x09090909 = replicate 16 0x09"
  "mm_set1_epi32 0x30303030 = replicate 16 0x30" "mm_set1_epi32 0x07070707 = replicate 16 0x07"
  "mm_set1_epi32 0x27272727 = replicate 16 0x27"
  by (simp_all add: mm_set1_epi32_def u32_bytes_def replicate_explicit)

lemma join_digits_ok:
  assumes "length hi = 16" "length lo = 16" "list_all ((\<le>) 0x20) hi" "list_all ((\<le>) 0x20) lo"
  shows "pack_ok (join_digits hi lo) (concat (map2 (\<lambda>h l. [0x20, h, l]) hi lo))"
  apply (rule list_16 [OF assms(1)], rule list_16 [OF assms(2)])
  using assms(3,4)
  apply (simp add: pack_ok_def join_digits_def Let_def mm_unpacklo_epi8_def mm_unpackhi_epi8_def interleave_def replicate_explicit
      mm_shuffle_epi8_def mm_alignr_epi8_def mm_max_epu8_def mm_shuffle_pattern1_def mm_shuffle_pattern2_def
      mm_shuffle_pattern3_def max_absorb1)
  done

lemma low_nibble: "(0x0F :: u8) = mask 4"
  by (simp add: mask_eq_exp_minus_1)

lemma shift_byte:
  "ucast (drop_bit 4 (ucast lo OR push_bit 8 (ucast hi) :: 16 word)) AND 0x0F = drop_bit 4 (lo :: u8)"
  "ucast (drop_bit 8 (drop_bit 4 (ucast lo OR push_bit 8 (ucast hi) :: 16 word))) AND 0x0F = drop_bit 4 (hi :: u8)"
  unfolding low_nibble by (rule bit_word_eqI, auto simp: bit_simps dest: bit_imp_le_length)+

lemma high_nibbles: 
  assumes "even (length xs)"
  shows "mm_and (mm_srli_epi16 xs 4) (replicate (length xs) 0x0F) = map (drop_bit 4) xs"
  using assms
  by (induction xs rule: pairs.induct) (simp_all add: mm_and_def Let_def shift_byte [simplified])

lemma low_nibbles: "mm_and xs (replicate (length xs) 0x0F) = map (\<lambda>n. n AND 0x0F) xs"
  by (induction xs) (simp_all add: mm_and_def)

lemma nibble_less [simp]: "unat (drop_bit 4 (n :: u8)) < 16" "unat (n AND 0x0F :: u8) < 16"
proof -
  have "unat (take_bit 4 n) < 2 ^ 4" by (simp only: unsigned_take_bit_eq take_bit_nat_less_exp)
  then show "unat (n AND 0x0F) < 16" by (simp add: low_nibble take_bit_eq_mask)
  have b: "unat n < 256" using unsigned_less [of n] by simp
  show "unat (drop_bit 4 n) < 16"
    using b by (simp add: drop_bit_eq_div unat_div)
qed

lemma nibble_cases:
  assumes "unat (x :: u8) < 16"
  shows "x \<in> set [0, 1, 2, 3, 4, 5, 6, 7, 8, 9, 10, 11, 12, 13, 14, 15]"
proof -
  have "unat x \<in> set [0, 1, 2, 3, 4, 5, 6, 7, 8, 9, 10, 11, 12, 13, 14, 15]" using assms by simp presburger
  then have "of_nat (unat x) \<in> (of_nat :: nat \<Rightarrow> u8) ` set [0, 1, 2, 3, 4, 5, 6, 7, 8, 9, 10, 11, 12, 13, 14, 15]"
    by (rule imageI)
  then show ?thesis by simp
qed

lemma shuffle_nibble: "unat x < 16 \<Longrightarrow> \<not> bit (x :: u8) 7 \<and> x AND 0x0F = x"
  by (drule nibble_cases) auto

lemma shuffle_nibbles:
  assumes "list_all (\<lambda>x. unat x < 16) xs"
  shows "mm_shuffle_epi8 tbl xs = map (\<lambda>x. tbl ! unat x) xs"
  using assms by (auto simp: mm_shuffle_epi8_def list_all_iff dest!: shuffle_nibble)

lemma table_char: "unat (x :: u8) < 16 \<Longrightarrow> 0x20 \<le> g_hex_char_table u ! unat x"
  by (drule nibble_cases) (cases u; auto simp: g_hex_char_table_def)

text \<open>The comparison and the additions that replace the table.\<close>

lemma slow_digit:
  assumes "unat x < 16"
  shows "x + 0x30 + ((if u then 0x07 else 0x27) AND (if sint (9 :: u8) < sint x then 0xFF else 0)) = g_hex_char_table u ! unat x"
  using nibble_cases [OF assms] by (cases u; auto simp: g_hex_char_table_def)

lemma concat_map2_hexs: "concat (map2 (\<lambda>h l. [0x20, h, l]) (map f xs) (map g xs)) = concat (map (\<lambda>x. [0x20, f x, g x]) xs)"
  by (induction xs) simp_all

lemma join_table_digits:
  assumes "length xs = 16"
  shows "pack_ok (join_digits (map (\<lambda>n. g_hex_char_table u ! unat (drop_bit 4 n)) xs)
      (map (\<lambda>n. g_hex_char_table u ! unat (n AND 0x0F)) xs)) (hexs (g_hex_char_table u) xs)"
  using join_digits_ok [of "map (\<lambda>n. g_hex_char_table u ! unat (drop_bit 4 n)) xs"
      "map (\<lambda>n. g_hex_char_table u ! unat (n AND 0x0F)) xs"] assms
  by (simp add: concat_map2_hexs hexs_def hex_chars_def [abs_def] list_all_iff table_char)

lemma dump_pack_ok:
  assumes "length xs = 16"
  shows "pack_ok (dump_pack (g_hex_char_table u) xs) (hexs (g_hex_char_table u) xs)"
  using join_table_digits [OF assms, of u] high_nibbles [of xs] low_nibbles [of xs] assms
  by (simp add: dump_pack_def Let_def shuffle_nibbles list_all_iff comp_def)

lemma add_slow_digits:
  assumes "list_all (\<lambda>x. unat x < 16) xs"
  shows "mm_add_epi8 (mm_add_epi8 xs (replicate (length xs) 0x30))
      (mm_and (replicate (length xs) (if u then 0x07 else 0x27)) (mm_cmpgt_epi8 xs (replicate (length xs) 0x09))) =
    map (\<lambda>x. g_hex_char_table u ! unat x) xs"
  using assms
proof (induction xs)
  case (Cons x xs)
  then show ?case using slow_digit [of x u] by (simp add: mm_add_epi8_def mm_and_def mm_cmpgt_epi8_def)
qed (simp add: mm_add_epi8_def)

lemma dump_pack_slow_pshufb_ok:
  assumes "length xs = 16"
  shows "pack_ok (dump_pack_slow_pshufb (if u then mm_set1_epi32 0x07070707 else mm_set1_epi32 0x27272727) xs)
    (hexs (g_hex_char_table u) xs)"
proof -
  have m: "(if u then mm_set1_epi32 0x07070707 else mm_set1_epi32 0x27272727) = replicate 16 (if u then 0x07 else 0x27)"
    by simp
  have hi: "mm_and (mm_srli_epi16 xs 4) (replicate 16 0x0F) = map (drop_bit 4) xs" using high_nibbles [of xs] assms by simp
  have lo: "mm_and xs (replicate 16 0x0F) = map (\<lambda>n. n AND 0x0F) xs" using low_nibbles [of xs] assms by simp
  show ?thesis
    unfolding m dump_pack_slow_pshufb_def Let_def set1_epi32 hi lo
    using join_table_digits [OF assms, of u] add_slow_digits [of "map (drop_bit 4) xs" u]
      add_slow_digits [of "map (\<lambda>n. n AND 0x0F) xs" u] assms
    by (cases u) (simp_all add: list_all_iff comp_def)
qed

text \<open>The 256-bit instructions dump the two halves of a pack like the 128-bit ones.\<close>

lemma lanes2_append: "length a = 16 \<Longrightarrow> length b = 16 \<Longrightarrow> lanes2 f (a @ c) (b @ d) = f a b @ f c d"
  by (simp add: lanes2_def)

lemma lanes_append: "length a = 16 \<Longrightarrow> lanes f (a @ c) = f a @ f c"
  by (simp add: lanes_def)

lemma length_mm_ops:
  "length a = 16 \<Longrightarrow> length (mm_srli_epi16 a n) = 16"
  "length a = 16 \<Longrightarrow> length b = 16 \<Longrightarrow> length (mm_and a b) = 16"
  "length (mm_shuffle_epi8 a b) = length b"
  "length a = 16 \<Longrightarrow> length b = 16 \<Longrightarrow> length (mm_unpacklo_epi8 a b) = 16"
  "length a = 16 \<Longrightarrow> length b = 16 \<Longrightarrow> length (mm_unpackhi_epi8 a b) = 16"
  "length a = 16 \<Longrightarrow> length b = 16 \<Longrightarrow> length (mm_alignr_epi8 a b 10) = 16"
  "length mm_shuffle_pattern1 = 16" "length mm_shuffle_pattern2 = 16" "length mm_shuffle_pattern3 = 16"
proof -
  assume a: "length a = 16"
  show "length (mm_srli_epi16 a n) = 16" by (rule list_16 [OF a]) (simp add: Let_def)
  assume b: "length b = 16"
  show "length (mm_unpacklo_epi8 a b) = 16"
    by (rule list_16 [OF a], rule list_16 [OF b]) (simp add: mm_unpacklo_epi8_def interleave_def)
  show "length (mm_unpackhi_epi8 a b) = 16"
    by (rule list_16 [OF a], rule list_16 [OF b]) (simp add: mm_unpackhi_epi8_def interleave_def)
qed (simp_all add: mm_and_def mm_shuffle_epi8_def mm_alignr_epi8_def mm_shuffle_pattern1_def mm_shuffle_pattern2_def
    mm_shuffle_pattern3_def)

lemma dump_pack256_lanes:
  assumes "length xs = 16" "length ys = 16" "length tbl = 16"
  shows "dump_pack256 (tbl @ tbl) (xs @ ys) =
    (case (dump_pack tbl xs, dump_pack tbl ys) of ((a1, a2, a3), (b1, b2, b3)) \<Rightarrow> (a1 @ b1, a2 @ b2, a3 @ b3))"
proof -
  let ?m = "mm_set1_epi32 0x0F0F0F0F"
  define H where "H zs = mm_shuffle_epi8 tbl (mm_and (mm_srli_epi16 zs 4) ?m)" for zs
  define L where "L zs = mm_shuffle_epi8 tbl (mm_and zs ?m)" for zs
  have len: "length (H xs) = 16" "length (L xs) = 16"
    using assms by (simp_all add: H_def L_def length_mm_ops)
  have hi: "lanes2 mm_shuffle_epi8 (tbl @ tbl) (lanes2 mm_and (lanes (\<lambda>a. mm_srli_epi16 a 4) (xs @ ys)) (?m @ ?m)) = H xs @ H ys"
    using assms by (simp add: H_def lanes_append lanes2_append length_mm_ops)
  have lo: "lanes2 mm_shuffle_epi8 (tbl @ tbl) (lanes2 mm_and (xs @ ys) (?m @ ?m)) = L xs @ L ys"
    using assms by (simp add: L_def lanes_append lanes2_append length_mm_ops)
  define U where "U zs = mm_unpacklo_epi8 (H zs) (L zs)" for zs
  define V where "V zs = mm_unpackhi_epi8 (H zs) (L zs)" for zs
  have u: "lanes2 mm_unpacklo_epi8 (H xs @ H ys) (L xs @ L ys) = U xs @ U ys"
    "lanes2 mm_unpackhi_epi8 (H xs @ H ys) (L xs @ L ys) = V xs @ V ys" "length (U xs) = 16" "length (V xs) = 16"
    using len by (simp_all add: U_def V_def lanes2_append length_mm_ops)
  have dp: "dump_pack tbl zs = (let sp = mm_set1_epi32 0x20202020 in
      (mm_max_epu8 (mm_shuffle_epi8 (U zs) mm_shuffle_pattern1) sp,
       mm_max_epu8 (mm_shuffle_epi8 (mm_alignr_epi8 (V zs) (U zs) 10) mm_shuffle_pattern2) sp,
       mm_max_epu8 (mm_shuffle_epi8 (V zs) mm_shuffle_pattern3) sp))" for zs
    by (simp only: dump_pack_def join_digits_def Let_def U_def V_def H_def L_def)
  show ?thesis
    unfolding dump_pack256_def Let_def hi lo u(1,2) dp
    using u(3,4) by (simp add: lanes2_append length_mm_ops)
qed

section \<open>Storing characters\<close>

definition store_ok :: "char_type \<Rightarrow> nat \<Rightarrow> store_chars \<Rightarrow> bool" where
  "store_ok ct al store \<longleftrightarrow> al dvd 2 ^ 64 \<and> al dvd 16 * sizeof_char ct \<and>
     (\<forall>cs a m b. length cs = 16 \<longrightarrow> b + 16 * sizeof_char ct \<le> length m \<longrightarrow> al dvd unat (a + of_nat b) \<longrightarrow>
        store cs (a, m) b = Some (a, memcpy_to m b (enc ct cs)))"

lemma enc_explicit:
  "char_bytes Char_8 c = [c]" "char_bytes Char_16 c = [c, 0]" "char_bytes Char_32 c = [c, 0, 0, 0]"
  by (simp_all add: char_bytes_def numeral_eq_Suc)

lemma enc_Char_8 [simp]: "enc Char_8 cs = cs"
  by (induction cs) (simp_all add: enc_explicit)

lemma unpack_enc:
  assumes "length cs = 16"
  shows "mm_unpacklo_epi8 cs (replicate 16 0) = enc Char_16 (take 8 cs)"
    "mm_unpackhi_epi8 cs (replicate 16 0) = enc Char_16 (drop 8 cs)"
    "mm_unpacklo_epi16 (enc Char_16 (take 8 cs)) (replicate 16 0) = enc Char_32 (take 4 cs)"
    "mm_unpackhi_epi16 (enc Char_16 (take 8 cs)) (replicate 16 0) = enc Char_32 (take 4 (drop 4 cs))"
    "mm_unpacklo_epi16 (enc Char_16 (drop 8 cs)) (replicate 16 0) = enc Char_32 (take 4 (drop 8 cs))"
    "mm_unpackhi_epi16 (enc Char_16 (drop 8 cs)) (replicate 16 0) = enc Char_32 (drop 12 cs)"
  by (rule list_16 [OF assms], simp add: mm_unpacklo_epi8_def mm_unpackhi_epi8_def mm_unpacklo_epi16_def
      mm_unpackhi_epi16_def interleave_def replicate_explicit enc_explicit)+

lemma cvtepu8_enc:
  assumes "length cs = 16"
  shows "mm256_cvtepu8_epi16 cs = enc Char_16 cs" "mm256_cvtepu8_epi32 cs = enc Char_32 (take 8 cs)"
    "mm256_cvtepu8_epi32 (mm_unpackhi_epi64 cs cs) = enc Char_32 (drop 8 cs)"
  by (rule list_16 [OF assms], simp add: mm256_cvtepu8_epi16_def mm256_cvtepu8_epi32_def mm_unpackhi_epi64_def enc_explicit)+

lemma store_parts:
  assumes "b + (length x + length y) \<le> length m" "al dvd 2 ^ 64" "al dvd length x" "al dvd unat (a + of_nat b :: u64)" "length x = n"
  shows "mm_store al y (a, memcpy_to m b x) (b + n) = Some (a, memcpy_to m b (x @ y))"
  using mm_store_append [OF assms(1-4)] assms(5) by simp

lemma store_characters_ssse3_ok: "store_ok ct 16 (store_characters_ssse3 ct)"
proof -
  have "store_characters_ssse3 ct cs (a, m) b = Some (a, memcpy_to m b (enc ct cs))"
    if l: "length cs = 16" and b: "b + 16 * sizeof_char ct \<le> length m" and al: "16 dvd unat (a + of_nat b)" for cs a m b
  proof (cases ct)
    case Char_8
    then show ?thesis using l b al by (simp add: store_characters_ssse3_def mm_store_ok)
  next
    case Char_16
    have "mm_store 16 (enc Char_16 (take 8 cs)) (a, m) b = Some (a, memcpy_to m b (enc Char_16 (take 8 cs)))"
      using l b al Char_16 by (intro mm_store_ok) simp_all
    moreover have "mm_store 16 (enc Char_16 (drop 8 cs)) (a, memcpy_to m b (enc Char_16 (take 8 cs))) (b + 16) =
        Some (a, memcpy_to m b (enc Char_16 (take 8 cs) @ enc Char_16 (drop 8 cs)))"
      using l b al Char_16 by (intro store_parts) simp_all
    moreover have "enc Char_16 (take 8 cs) @ enc Char_16 (drop 8 cs) = enc Char_16 cs"
      by (metis append_take_drop_id enc_simps(3))
    ultimately show ?thesis using Char_16 by (simp add: store_characters_ssse3_def Let_def unpack_enc [OF l])
  next
    case Char_32
    define x1 x2 x3 x4 where x: "x1 = enc Char_32 (take 4 cs)" "x2 = enc Char_32 (take 4 (drop 4 cs))"
      "x3 = enc Char_32 (take 4 (drop 8 cs))" "x4 = enc Char_32 (drop 12 cs)"
    then have lx: "length x1 = 16" "length x2 = 16" "length x3 = 16" "length x4 = 16" using l by simp_all
    have "mm_store 16 x1 (a, m) b = Some (a, memcpy_to m b x1)" using lx b al Char_32 by (intro mm_store_ok) simp_all
    moreover have "mm_store 16 x2 (a, memcpy_to m b x1) (b + 16) = Some (a, memcpy_to m b (x1 @ x2))"
      using lx b al Char_32 by (intro store_parts) simp_all
    moreover have "mm_store 16 x3 (a, memcpy_to m b (x1 @ x2)) (b + 32) = Some (a, memcpy_to m b ((x1 @ x2) @ x3))"
      using lx b al Char_32 by (intro store_parts) simp_all
    moreover have "mm_store 16 x4 (a, memcpy_to m b ((x1 @ x2) @ x3)) (b + 48) = Some (a, memcpy_to m b (((x1 @ x2) @ x3) @ x4))"
      using lx b al Char_32 by (intro store_parts) simp_all
    moreover have "((x1 @ x2) @ x3) @ x4 = enc Char_32 cs"
      by (rule list_16 [OF l]) (simp add: x)
    ultimately show ?thesis using Char_32 by (simp add: store_characters_ssse3_def Let_def unpack_enc [OF l] flip: x)
  qed
  then show ?thesis by (cases ct) (simp_all add: store_ok_def)
qed

text \<open>The alignment of the stores of \<open>store_characters_avx2\<close>.\<close>

definition avx2_alignment :: "char_type \<Rightarrow> nat" where
  "avx2_alignment ct = (if ct = Char_8 then 16 else 32)"

lemma store_characters_avx2_ok: "store_ok ct (avx2_alignment ct) (store_characters_avx2 ct)"
proof -
  have "store_characters_avx2 ct cs (a, m) b = Some (a, memcpy_to m b (enc ct cs))"
    if l: "length cs = 16" and b: "b + 16 * sizeof_char ct \<le> length m" and al: "avx2_alignment ct dvd unat (a + of_nat b)"
    for cs a m b
  proof (cases ct)
    case Char_32
    have "mm_store 32 (enc Char_32 (take 8 cs)) (a, m) b = Some (a, memcpy_to m b (enc Char_32 (take 8 cs)))"
      using l b al Char_32 by (intro mm_store_ok) (simp_all add: avx2_alignment_def)
    moreover have "mm_store 32 (enc Char_32 (drop 8 cs)) (a, memcpy_to m b (enc Char_32 (take 8 cs))) (b + 32) =
        Some (a, memcpy_to m b (enc Char_32 (take 8 cs) @ enc Char_32 (drop 8 cs)))"
      using l b al Char_32 by (intro store_parts) (simp_all add: avx2_alignment_def)
    moreover have "enc Char_32 (take 8 cs) @ enc Char_32 (drop 8 cs) = enc Char_32 cs"
      by (metis append_take_drop_id enc_simps(3))
    ultimately show ?thesis using Char_32 by (simp add: store_characters_avx2_def Let_def cvtepu8_enc [OF l])
  qed (use l b al in \<open>simp_all add: store_characters_avx2_def mm_store_ok avx2_alignment_def cvtepu8_enc [OF l]\<close>)
  then show ?thesis by (cases ct) (simp_all add: store_ok_def avx2_alignment_def)
qed

lemma store_ok_append:
  assumes "store_ok ct al store" "length cs = 16" "al dvd length x"
    and "b + (length x + 16 * sizeof_char ct) \<le> length m" "al dvd unat (a + of_nat b)"
  shows "store cs (a, memcpy_to m b x) (b + length x) = Some (a, memcpy_to m b (x @ enc ct cs))"
proof -
  have al: "al dvd 2 ^ 64" using assms(1) by (simp only: store_ok_def)
  have "store cs (a, memcpy_to m b x) (b + length x) = Some (a, memcpy_to (memcpy_to m b x) (b + length x) (enc ct cs))"
    using assms(1,2,4) aligned_add [OF al assms(3,5)] by (simp add: store_ok_def)
  then show ?thesis using memcpy_to_append [of b x "enc ct cs" m] assms(2,4) by simp
qed

lemma store_ok_align: "store_ok ct al store \<Longrightarrow> al dvd n * 16 * sizeof_char ct"
  unfolding store_ok_def by (metis dvd_mult mult.assoc)

lemma store_ok_first:
  "store_ok ct al store \<Longrightarrow> length cs = 16 \<Longrightarrow> b + 16 * sizeof_char ct \<le> length m \<Longrightarrow> al dvd unat (a + of_nat b) \<Longrightarrow>
   store cs (a, m) b = Some (a, memcpy_to m b (enc ct cs))"
  by (simp add: store_ok_def)

lemma store_three:
  assumes st: "store_ok ct al store" and pk: "pack_ok (o1, o2, o3) cs"
    and b: "b + 48 * sizeof_char ct \<le> length m" and al: "al dvd unat (a + of_nat b)"
  shows "do {
      buf \<leftarrow> store o1 (a, m) b;
      buf \<leftarrow> store o2 buf (b + 16 * sizeof_char ct);
      store o3 buf (b + 32 * sizeof_char ct)
    } = Some (a, memcpy_to m b (enc ct cs))"
proof -
  have l: "length o1 = 16" "length o2 = 16" "length o3 = 16" and cs: "cs = o1 @ o2 @ o3"
    using pk by (simp_all add: pack_ok_def)
  have d: "al dvd length (enc ct o1)" "al dvd length (enc ct (o1 @ o2))"
    using store_ok_align [OF st, of 1] store_ok_align [OF st, of 2] l by simp_all
  have "store o1 (a, m) b = Some (a, memcpy_to m b (enc ct o1))"
    using b l al by (intro store_ok_first [OF st]) simp_all
  moreover have "store o2 (a, memcpy_to m b (enc ct o1)) (b + 16 * sizeof_char ct) = Some (a, memcpy_to m b (enc ct (o1 @ o2)))"
    using store_ok_append [OF st l(2) d(1) _ al] b l by simp
  moreover have "store o3 (a, memcpy_to m b (enc ct (o1 @ o2))) (b + 32 * sizeof_char ct) = Some (a, memcpy_to m b (enc ct cs))"
    using store_ok_append [OF st l(3) d(2) _ al] b l cs by simp
  ultimately show ?thesis by simp
qed

lemma store_pack_ok:
  assumes st: "store_ok ct al store" and pk: "\<And>xs. length xs = 16 \<Longrightarrow> pack_ok (pack xs) (hexs tbl xs)"
    and p: "p + 16 \<le> length (snd data)" "ald dvd unat (fst data + of_nat p)"
    and b: "b + 48 * sizeof_char ct \<le> length m" and al: "al dvd unat (a + of_nat b)"
  shows "store_pack ct store pack ald data p b (a, m) = Some (a, memcpy_to m b (enc ct (hexs tbl (mem_read (snd data) p 16))))"
proof -
  obtain o1 o2 o3 where o: "pack (mem_read (snd data) p 16) = (o1, o2, o3)" by (metis prod_cases3)
  then have "pack_ok (o1, o2, o3) (hexs tbl (mem_read (snd data) p 16))"
    using pk [of "mem_read (snd data) p 16"] p(1) by simp
  from store_three [OF st this b al] show ?thesis
    using p o by (simp add: store_pack_def mm_load_ok)
qed

lemma store_pack256_ok:
  fixes ct :: char_type and u :: bool and data :: region
  defines "tbl \<equiv> g_hex_char_table u" and "al \<equiv> avx2_alignment ct"
  assumes p: "p + 32 \<le> length (snd data)" "ald dvd unat (fst data + of_nat p)"
    and b: "b + 96 * sizeof_char ct \<le> length m" and al: "al dvd unat (a + of_nat b)"
  shows "store_pack256 ct (tbl @ tbl) ald data p b (a, m) =
    Some (a, memcpy_to m b (enc ct (hexs tbl (mem_read (snd data) p 32))))"
proof -
  let ?x = "mem_read (snd data) p 16" and ?y = "mem_read (snd data) (p + 16) 16"
  obtain a1 a2 a3 b1 b2 b3 where dp: "dump_pack tbl ?x = (a1, a2, a3)" "dump_pack tbl ?y = (b1, b2, b3)"
    by (metis prod_cases3)
  have xy: "mem_read (snd data) p 32 = ?x @ ?y" by (simp add: mem_read_add)
  have lt: "length tbl = 16" by (simp add: tbl_def g_hex_char_table_def)
  have pk: "pack_ok (a1, a2, a3) (hexs tbl ?x)" "pack_ok (b1, b2, b3) (hexs tbl ?y)"
    using dump_pack_ok [of ?x u] dump_pack_ok [of ?y u] p(1) dp by (simp_all add: tbl_def)
  then have l: "length a1 = 16" "length a2 = 16" "length a3 = 16" by (simp_all add: pack_ok_def)
  have r: "dump_pack256 (tbl @ tbl) (?x @ ?y) = (a1 @ b1, a2 @ b2, a3 @ b3)"
    using dump_pack256_lanes [of ?x ?y tbl] p(1) lt dp by simp
  note st = store_characters_avx2_ok [of ct, folded al_def]
  let ?e = "enc ct (hexs tbl ?x)"
  have le: "length ?e = 48 * sizeof_char ct" using p(1) by simp
  have al64: "al dvd 2 ^ 64" using st by (simp only: store_ok_def)
  have "al dvd length ?e" unfolding le using store_ok_align [OF st, of 3] by simp
  then have al2: "al dvd unat (a + of_nat (b + 48 * sizeof_char ct))" using aligned_add [OF al64 _ al] le by metis
  have "memcpy_to (memcpy_to m b ?e) (b + 48 * sizeof_char ct) (enc ct (hexs tbl ?y)) = memcpy_to m b (?e @ enc ct (hexs tbl ?y))"
    using memcpy_to_append [of b ?e "enc ct (hexs tbl ?y)" m] le p(1) b by simp
  moreover have "length (memcpy_to m b ?e) = length m" by (rule length_memcpy_to, unfold le) (use b in simp)
  moreover note store_three [OF st pk(1) _ al] store_three [OF st pk(2), of "b + 48 * sizeof_char ct" "memcpy_to m b ?e" a] al2 b
  ultimately
  have "store_characters_x3 ct (a1 @ b1) (a2 @ b2) (a3 @ b3) (a, m) b = Some (a, memcpy_to m b (?e @ enc ct (hexs tbl ?y)))"
    using l
    by (simp add: store_characters_x3_def mm256_castsi256_si128_def mm256_extracti128_1_def add.assoc
        flip: Option.bind_assoc)
  then show ?thesis using p by (simp add: store_pack256_def mm_load_ok xy r)
qed

end
