(* ===== verification/Dump_Properties.thy ===== *)
theory Dump_Properties
  imports Dump_Packs
begin

text \<open>
  Correctness of the hexadecimal dump: the loops over the data, the interface \<open>vector_routine\<close> with its instances for
  the instruction sets, and the text that is written.
\<close>

section \<open>The loops\<close>

text \<open>
  The interface between the loops and the instruction sets: a step dumps \<open>w\<close> bytes when the data and the buffer are
  aligned for it.
\<close>

locale pack_step =
  fixes ct :: char_type and tbl :: "u8 list" and w :: nat and al :: nat and ald :: nat and data :: region
    and step :: "nat \<Rightarrow> nat \<Rightarrow> region \<Rightarrow> region option"
  assumes alignment: "al dvd 2 ^ 64" "al dvd 3 * w * sizeof_char ct" "ald dvd 2 ^ 64" "ald dvd w"
    and step: "p + w \<le> length (snd data) \<Longrightarrow> ald dvd unat (fst data + of_nat p) \<Longrightarrow>
      b + 3 * w * sizeof_char ct \<le> length m \<Longrightarrow> al dvd unat (a + of_nat b) \<Longrightarrow>
      step p b (a, m) = Some (a, memcpy_to m b (enc ct (hexs tbl (mem_read (snd data) p w))))"
begin

text \<open>What a loop leaves in the buffer after \<open>n\<close> bytes, for a step followed by the rest of the loop.\<close>

lemma step_then:
  assumes "p + w + n \<le> length (snd data)" "ald dvd unat (fst data + of_nat p)"
    and "b + 3 * (w + n) * sizeof_char ct \<le> length m" "al dvd unat (a + of_nat b)"
    and rest: "\<And>m'. length m' = length m \<Longrightarrow> ald dvd unat (fst data + of_nat (p + w)) \<Longrightarrow>
      al dvd unat (a + of_nat (b + 3 * w * sizeof_char ct)) \<Longrightarrow>
      k (a, m') = Some (p + w + n, b + 3 * w * sizeof_char ct + 3 * n * sizeof_char ct, (a,
        memcpy_to m' (b + 3 * w * sizeof_char ct) (enc ct (hexs tbl (mem_read (snd data) (p + w) n)))))"
  shows "do { buf \<leftarrow> step p b (a, m); k buf } =
    Some (p + (w + n), b + 3 * (w + n) * sizeof_char ct, (a, memcpy_to m b (enc ct (hexs tbl (mem_read (snd data) p (w + n))))))"
proof -
  let ?x = "enc ct (hexs tbl (mem_read (snd data) p w))" and ?y = "enc ct (hexs tbl (mem_read (snd data) (p + w) n))"
  have l: "length ?x = 3 * w * sizeof_char ct" "length ?y = 3 * n * sizeof_char ct" using assms(1) by simp_all
  have b: "b + 3 * w * sizeof_char ct \<le> length m" using assms(3) by (simp add: algebra_simps)
  have "step p b (a, m) = Some (a, memcpy_to m b ?x)" using assms(1,2,4) b by (intro step) simp_all
  moreover have "length (memcpy_to m b ?x) = length m" by (rule length_memcpy_to) (simp only: l b)
  moreover have "memcpy_to (memcpy_to m b ?x) (b + 3 * w * sizeof_char ct) ?y = memcpy_to m b (?x @ ?y)"
    using memcpy_to_append [of b ?x ?y m, unfolded l] assms(3) by (simp add: algebra_simps)
  moreover have "?x @ ?y = enc ct (hexs tbl (mem_read (snd data) p (w + n)))" by (simp flip: mem_read_add)
  ultimately show ?thesis
    using rest [of "memcpy_to m b ?x"] aligned_add [OF alignment(3,4) assms(2)] aligned_add [OF alignment(1,2) assms(4)]
    by (simp add: algebra_simps)
qed

lemma dump_packs_ok:
  assumes "p + n * w \<le> length (snd data)" "ald dvd unat (fst data + of_nat p)"
    and "b + 3 * (n * w) * sizeof_char ct \<le> length m" "al dvd unat (a + of_nat b)"
  shows "dump_packs ct w step n p b (a, m) = Some (p + n * w, b + 3 * (n * w) * sizeof_char ct,
    (a, memcpy_to m b (enc ct (hexs tbl (mem_read (snd data) p (n * w))))))"
  using assms
proof (induction n arbitrary: p b m)
  case 0
  then show ?case by (simp add: mem_read_def memcpy_to_def)
next
  case (Suc n)
  have "do { buf \<leftarrow> step p b (a, m); dump_packs ct w step n (p + w) (b + 3 * w * sizeof_char ct) buf } =
    Some (p + (w + n * w), b + 3 * (w + n * w) * sizeof_char ct,
      (a, memcpy_to m b (enc ct (hexs tbl (mem_read (snd data) p (w + n * w))))))"
    using Suc.prems by (intro step_then Suc.IH) (simp_all add: algebra_simps)
  then show ?case by simp
qed

lemma dump_tail_ok:
  assumes "w = 16" "p + n \<le> length (snd data)" "ald dvd unat (fst data + of_nat p)"
    and "b + 3 * n * sizeof_char ct \<le> length m" "al dvd unat (a + of_nat b)"
  shows "dump_tail ct tbl data step n p b (a, m) = Some (p + n, b + 3 * n * sizeof_char ct,
    (a, memcpy_to m b (enc ct (hexs tbl (mem_read (snd data) p n)))))"
  using assms(2-)
proof (induction n arbitrary: p b m rule: less_induct)
  case (less n)
  show ?case
  proof (cases "n < 16")
    case True
    then show ?thesis using dump_bytes_ok [OF less.prems(1,3)] by (simp add: dump_tail.simps)
  next
    case False
    have "do { buf \<leftarrow> step p b (a, m); dump_tail ct tbl data step (n - 16) (p + 16) (b + 3 * 16 * sizeof_char ct) buf } =
      Some (p + (16 + (n - 16)), b + 3 * (16 + (n - 16)) * sizeof_char ct,
        (a, memcpy_to m b (enc ct (hexs tbl (mem_read (snd data) p (16 + (n - 16)))))))"
      using less.prems False by (intro step_then [unfolded assms(1)] less.IH) (simp_all add: algebra_simps)
    then show ?thesis using False by (subst dump_tail.simps) simp
  qed
qed

end

text \<open>
  What was written to the stream when the first \<open>p\<close> bytes of the data are dumped; the space before the first byte
  is left out.
\<close>

definition dumped :: "u8 list \<Rightarrow> u8 list \<Rightarrow> nat \<Rightarrow> nat \<Rightarrow> u32 list \<Rightarrow> bool" where
  "dumped tbl d p skip strm \<longleftrightarrow> skip = (if p = 0 then 1 else 0) \<and> strm = map ucast (drop 1 (hexs tbl (take p d)))"

lemma dumped_write:
  assumes "dumped tbl d p skip strm" "0 < n" "p + n \<le> length d"
  shows "dumped tbl d (p + n) 0 (strm @ map ucast (drop skip (hexs tbl (mem_read d p n))))"
proof -
  have "take (p + n) d = take p d @ mem_read d p n" by (simp add: mem_read_def take_add)
  then show ?thesis using assms by (auto simp: dumped_def)
qed

lemma dumped_buffer:
  assumes "dumped tbl d p skip strm" "0 < n" "p + n \<le> length d" "off + 3 * n * sizeof_char ct \<le> length m"
  shows "\<exists>out. write_chars ct (a, memcpy_to m off (enc ct (hexs tbl (mem_read d p n)))) (off + skip * sizeof_char ct) (3 * n - skip) = Some out \<and>
    dumped tbl d (p + n) 0 (strm @ out)"
proof -
  have s: "skip + (3 * n - skip) \<le> length (hexs tbl (mem_read d p n))" using assms by (auto simp: dumped_def)
  have o: "off + length (hexs tbl (mem_read d p n)) * sizeof_char ct \<le> length m" using assms by simp
  have "take (3 * n - skip) (drop skip (hexs tbl (mem_read d p n))) = drop skip (hexs tbl (mem_read d p n))"
    using assms by simp
  then show ?thesis using write_chars_ok [OF o s] dumped_write [OF assms(1-3)] by simp
qed

lemma dump_strides_ok:
  assumes fill: "\<And>p m. p + s \<le> length d \<Longrightarrow> Q p \<Longrightarrow> length m = len \<Longrightarrow>
      \<exists>b. fill p (a, m) = Some (p + s, b, (a, memcpy_to m off (enc ct (hexs tbl (mem_read d p s)))))"
    and Q: "\<And>p. Q p \<Longrightarrow> Q (p + s)" and s: "0 < s" "off + 3 * s * sizeof_char ct \<le> len"
    and "dumped tbl d p skip strm" "p + n * s \<le> length d" "Q p" "length m = len"
  shows "\<exists>skip' m' strm'. dump_strides ct fill off (s * 3) n (p, skip, (a, m), strm) = Some (p + n * s, skip', (a, m'), strm') \<and>
    dumped tbl d (p + n * s) skip' strm' \<and> Q (p + n * s) \<and> length m' = len"
  using assms(5-)
proof (induction n arbitrary: p skip m strm)
  case (Suc n)
  let ?x = "enc ct (hexs tbl (mem_read d p s))"
  have ps: "p + s \<le> length d" "p + s + n * s \<le> length d" using Suc.prems(2) by simp_all
  obtain b where f: "fill p (a, m) = Some (p + s, b, (a, memcpy_to m off ?x))" using fill [OF ps(1) Suc.prems(3,4)] by blast
  obtain out where o: "write_chars ct (a, memcpy_to m off ?x) (off + skip * sizeof_char ct) (s * 3 - skip) = Some out"
    "dumped tbl d (p + s) 0 (strm @ out)"
    using dumped_buffer [OF Suc.prems(1) s(1) ps(1), of off ct m a] s(2) Suc.prems(4) by (auto simp: mult.commute)
  have "length (memcpy_to m off ?x) = len" using ps(1) s(2) Suc.prems(4) by simp
  from Suc.IH [OF o(2) ps(2) Q [OF Suc.prems(3)] this] f o(1) show ?case by (auto simp: add.assoc)
qed simp

lemma write_tail_ok:
  assumes "dumped tbl d p skip strm" "0 < n" "p + n \<le> length d" "off + 3 * n * sizeof_char ct \<le> length m"
  shows "\<exists>out. write_tail ct off skip (q, off + 3 * n * sizeof_char ct, (a, memcpy_to m off (enc ct (hexs tbl (mem_read d p n))))) = Some out \<and>
    strm @ out = map ucast (drop 1 (hexs tbl (take (p + n) d)))"
  using dumped_buffer [OF assms, of a] sizeof_char_pos [of ct] by (auto simp: write_tail_def dumped_def)

lemma dump_data_generic_ok:
  assumes "sz \<le> length (snd data)"
  shows "dump_data_generic ct u base junk data sz = Some (map ucast (drop 1 (hexs (g_hex_char_table u) (take sz (snd data)))))"
proof -
  let ?tbl = "g_hex_char_table u" and ?n = "sz div 256"
  let ?m = "map junk [0..<256 * 3 * sizeof_char ct]"
  have fill: "\<exists>b. dump_bytes ct ?tbl data 256 p 0 (base, m) =
      Some (p + 256, b, (base, memcpy_to m 0 (enc ct (hexs ?tbl (mem_read (snd data) p 256)))))"
    if "p + 256 \<le> length (snd data)" "True" "length m = 256 * 3 * sizeof_char ct" for p m
    using dump_bytes_ok [OF that(1), of 0 ct m] that(3) by simp
  have "sz div 256 * 256 \<le> length (snd data)" using assms by (meson div_times_less_eq_dividend le_trans)
  then obtain skip m' strm where st: "dump_strides ct (\<lambda>p. dump_bytes ct ?tbl data 256 p 0) 0 (256 * 3) ?n (0, 1, (base, ?m), []) =
      Some (?n * 256, skip, (base, m'), strm)" "dumped ?tbl (snd data) (?n * 256) skip strm" "length m' = 256 * 3 * sizeof_char ct"
    using dump_strides_ok [of 256 "snd data" "\<lambda>_. True" "256 * 3 * sizeof_char ct" "\<lambda>p. dump_bytes ct ?tbl data 256 p 0" base 0 ct
        ?tbl 0 1 "[]" ?n ?m, OF fill] by (auto simp: dumped_def)
  show ?thesis
  proof (cases "sz mod 256 = 0")
    case True
    then have "?n * 256 = sz" by auto
    then show ?thesis using st True by (simp add: dump_data_generic_def Let_def stack_array_def dumped_def)
  next
    case False
    let ?t = "sz mod 256"
    have t: "?n * 256 + ?t = sz" "?t < 256" by simp_all
    then have b: "?n * 256 + ?t \<le> length (snd data)" "0 + 3 * ?t * sizeof_char ct \<le> length m'"
      using assms st(3) by simp_all
    obtain out where o: "write_tail ct 0 skip (?n * 256 + ?t, 0 + 3 * ?t * sizeof_char ct,
        (base, memcpy_to m' 0 (enc ct (hexs ?tbl (mem_read (snd data) (?n * 256) ?t))))) = Some out"
      "strm @ out = map ucast (drop 1 (hexs ?tbl (take (?n * 256 + ?t) (snd data))))"
      using write_tail_ok [OF st(2) _ b] False by blast
    then show ?thesis
      using st(1) False dump_bytes_ok [OF b, of ?tbl base] t(1)
      by (simp add: dump_data_generic_def Let_def stack_array_def)
  qed
qed

section \<open>The vector routines\<close>

locale vector_routine =
  pack_step ct tbl w al w data step + tail: pack_step ct tbl 16 al 16 data step16
  for ct :: char_type and tbl :: "u8 list" and w :: nat and al :: nat and data :: region
    and step :: "nat \<Rightarrow> nat \<Rightarrow> region \<Rightarrow> region option" and step16 :: "nat \<Rightarrow> nat \<Rightarrow> region \<Rightarrow> region option" +
  fixes first :: "nat \<Rightarrow> nat \<Rightarrow> region \<Rightarrow> region option"
  assumes pack_size: "0 < w" "16 dvd w"
    and first: "w \<le> length (snd data) \<Longrightarrow> off + 3 * w * sizeof_char ct \<le> length m \<Longrightarrow> al dvd unat (a + of_nat off) \<Longrightarrow>
      first 0 off (a, m) = Some (a, memcpy_to m off (enc ct (hexs tbl (mem_read (snd data) 0 w))))"
begin

lemma prealign_ok:
  assumes "w \<le> length (snd data)" "off + 3 * w * sizeof_char ct \<le> length m" "al dvd unat (a + of_nat off)" "0 < n" "n \<le> w"
  shows "\<exists>out m'. do {
      buf \<leftarrow> first 0 off (a, m);
      out \<leftarrow> write_chars ct buf (off + sizeof_char ct) (n * 3 - 1);
      Some (n, 0::nat, buf, out)
    } = Some (n, 0, (a, m'), out) \<and> dumped tbl (snd data) n 0 out \<and> length m' = length m"
proof -
  let ?cs = "hexs tbl (mem_read (snd data) 0 w)"
  have c: "1 + (n * 3 - 1) \<le> length ?cs" "off + length ?cs * sizeof_char ct \<le> length m" using assms by simp_all
  have "take (n * 3 - 1) (drop 1 ?cs) = drop 1 (take (3 * n) ?cs)" using assms(4) by (simp add: drop_take mult.commute)
  also have "\<dots> = drop 1 (hexs tbl (take n (snd data)))" using assms(1,5) by (simp add: take_hexs mem_read_def min_def)
  finally show ?thesis
    using first [OF assms(1-3)] write_chars_ok [OF c(2,1), of a] assms c(2) by (simp add: dumped_def)
qed

lemma aligned_tail: "w dvd unat (fst data + of_nat p) \<Longrightarrow> 16 dvd unat (fst data + of_nat p)"
  using pack_size(2) by (rule dvd_trans)

lemma strides_tail_ok:
  fixes strm :: "u32 list"
  defines "s \<equiv> 32 * w"
  assumes d: "dumped tbl (snd data) p skip strm" and m: "length m = len" "off + 3 * s * sizeof_char ct \<le> len"
    and al: "al dvd unat (a + of_nat off)" and p: "p + sz \<le> length (snd data)" "sz = 0 \<or> w dvd unat (fst data + of_nat p)"
  shows "do {
      (p, skip, buf, strm) \<leftarrow> dump_strides ct (\<lambda>p. dump_packs ct w step 32 p off) off (s * 3) (sz div s) (p, skip, (a, m), strm);
      if sz mod s > 0 then do {
        st \<leftarrow> dump_tail ct tbl data step16 (sz mod s) p off buf;
        out \<leftarrow> write_tail ct off skip st;
        Some (strm @ out)
      } else Some strm
    } = Some (map ucast (drop 1 (hexs tbl (take (p + sz) (snd data)))))"
proof (cases "sz = 0")
  case True
  then show ?thesis using d by (simp add: dumped_def)
next
  case False
  let ?n = "sz div s" and ?t = "sz mod s" and ?Q = "\<lambda>p. w dvd unat (fst data + of_nat p)"
  have s: "0 < s" "w dvd s" using pack_size(1) by (simp_all add: s_def)
  have fill: "\<exists>b. dump_packs ct w step 32 q off (a, m) = Some (q + s, b, (a, memcpy_to m off (enc ct (hexs tbl (mem_read (snd data) q s)))))"
    if "q + s \<le> length (snd data)" "?Q q" "length m = len" for q m
    using dump_packs_ok [of q 32 off m a] that m(2) al by (simp add: s_def)
  have Q: "?Q (q + s)" if "?Q q" for q using aligned_add [OF alignment(3) s(2) that] .
  have n: "p + ?n * s \<le> length (snd data)" using p(1) by (meson add_le_mono div_times_less_eq_dividend le_trans order_refl)
  have q: "?Q p" using p(2) False by simp
  from dump_strides_ok [OF fill Q s(1) m(2) d n q m(1)]
  obtain skip' m' strm' where st: "dump_strides ct (\<lambda>p. dump_packs ct w step 32 p off) off (s * 3) ?n (p, skip, (a, m), strm) =
      Some (p + ?n * s, skip', (a, m'), strm')" "dumped tbl (snd data) (p + ?n * s) skip' strm'" "?Q (p + ?n * s)" "length m' = len"
    by blast
  have t: "p + ?n * s + ?t = p + sz" by simp
  show ?thesis
  proof (cases "?t = 0")
    case True
    then show ?thesis using st t by (simp add: dumped_def)
  next
    case False
    have "?t < s" using s(1) by simp
    then have "3 * ?t * sizeof_char ct \<le> 3 * s * sizeof_char ct" by simp
    then have b: "p + ?n * s + ?t \<le> length (snd data)" "off + 3 * ?t * sizeof_char ct \<le> length m'"
      using p(1) m(2) st(4) t by linarith+
    note tail.dump_tail_ok [OF refl b(1) aligned_tail [OF st(3)] b(2) al]
    moreover obtain out where "write_tail ct off skip' (p + ?n * s + ?t, off + 3 * ?t * sizeof_char ct,
        (a, memcpy_to m' off (enc ct (hexs tbl (mem_read (snd data) (p + ?n * s) ?t))))) = Some out"
      "strm' @ out = map ucast (drop 1 (hexs tbl (take (p + ?n * s + ?t) (snd data))))"
      using write_tail_ok [OF st(2) _ b] False by blast
    ultimately show ?thesis using st(1) False t by simp
  qed
qed

lemma dump_aligned_ok:
  assumes "w \<le> sz" "sz \<le> length (snd data)" "pre \<le> w" "sz = pre \<or> w dvd unat (fst data + of_nat pre)"
    and "off + 3 * (32 * w) * sizeof_char ct \<le> length m" "al dvd unat (a + of_nat off)"
  shows "dump_aligned ct tbl w first step step16 pre data sz off (a, m) =
    Some (map ucast (drop 1 (hexs tbl (take sz (snd data)))))"
proof (cases "pre = 0")
  case True
  have "dumped tbl (snd data) 0 1 []" by (simp add: dumped_def)
  from strides_tail_ok [OF this refl assms(5,6), of sz] True assms(1,2,4) pack_size(1) show ?thesis
    by (simp add: dump_aligned_def Let_def)
next
  case False
  have w: "w \<le> length (snd data)" "off + 3 * w * sizeof_char ct \<le> length m" using assms(1,2,5) by simp_all
  from prealign_ok [OF w assms(6) _ assms(3)] False obtain out m' where f: "do {
      buf \<leftarrow> first 0 off (a, m);
      out \<leftarrow> write_chars ct buf (off + sizeof_char ct) (pre * 3 - 1);
      Some (pre, 0::nat, buf, out)
    } = Some (pre, 0, (a, m'), out)" "dumped tbl (snd data) pre 0 out" "length m' = length m"
    by blast
  have "pre + (sz - pre) \<le> length (snd data)" "sz - pre = 0 \<or> w dvd unat (fst data + of_nat pre)" "pre + (sz - pre) = sz"
    using assms(1-4) by auto
  with strides_tail_ok [OF f(2,3) assms(5,6), of "sz - pre"] f(1) False show ?thesis
    by (simp add: dump_aligned_def Let_def)
qed

end

lemma pack_step_128:
  assumes "store_ok ct al store" "\<And>xs. length xs = 16 \<Longrightarrow> pack_ok (pack xs) (hexs tbl xs)" "ald dvd 16"
  shows "pack_step ct tbl 16 al ald data (store_pack ct store pack ald data)"
proof
  show "al dvd 2 ^ 64" using assms(1) by (simp only: store_ok_def)
  show "al dvd 3 * 16 * sizeof_char ct" using store_ok_align [OF assms(1), of 3] by simp
  show "ald dvd 2 ^ 64" by (rule dvd_trans [OF assms(3)]) simp
qed (use store_pack_ok [OF assms(1,2)] assms(3) in simp_all)

interpretation ssse3: vector_routine ct "g_hex_char_table u" 16 16 data
  "store_pack ct (store_characters_ssse3 ct) (dump_pack (g_hex_char_table u)) 16 data"
  "store_pack ct (store_characters_ssse3 ct) (dump_pack (g_hex_char_table u)) 16 data"
  "store_pack ct (store_characters_ssse3 ct) (dump_pack (g_hex_char_table u)) 1 data" for ct u data
proof (intro vector_routine.intro pack_step_128 vector_routine_axioms.intro store_characters_ssse3_ok dump_pack_ok)
qed (use store_pack_ok [OF store_characters_ssse3_ok dump_pack_ok, of 0 data 1] in simp_all)

interpretation ssse3_slow: vector_routine ct "g_hex_char_table u" 16 16 data
  "store_pack ct (store_characters_ssse3 ct)
    (dump_pack_slow_pshufb (if u then mm_set1_epi32 0x07070707 else mm_set1_epi32 0x27272727)) 16 data"
  "store_pack ct (store_characters_ssse3 ct)
    (dump_pack_slow_pshufb (if u then mm_set1_epi32 0x07070707 else mm_set1_epi32 0x27272727)) 16 data"
  "store_pack ct (store_characters_ssse3 ct)
    (dump_pack_slow_pshufb (if u then mm_set1_epi32 0x07070707 else mm_set1_epi32 0x27272727)) 1 data" for ct u data
proof (intro vector_routine.intro pack_step_128 vector_routine_axioms.intro store_characters_ssse3_ok dump_pack_slow_pshufb_ok)
qed (use store_pack_ok [OF store_characters_ssse3_ok dump_pack_slow_pshufb_ok, of 0 data 1] in simp_all)

lemma pack_step_256:
  "ald dvd 32 \<Longrightarrow> pack_step ct (g_hex_char_table u) 32 (avx2_alignment ct) ald data
    (store_pack256 ct (g_hex_char_table u @ g_hex_char_table u) ald data)"
proof
  assume ald: "ald dvd 32"
  show "avx2_alignment ct dvd 2 ^ 64" by (simp add: avx2_alignment_def)
  show "avx2_alignment ct dvd 3 * 32 * sizeof_char ct" by (cases ct) (simp_all add: avx2_alignment_def)
  show "ald dvd 2 ^ 64" by (rule dvd_trans [OF ald]) simp
qed (use store_pack256_ok in simp_all)

interpretation avx2: vector_routine ct "g_hex_char_table u" 32 "avx2_alignment ct" data
  "store_pack256 ct (g_hex_char_table u @ g_hex_char_table u) 32 data"
  "store_pack ct (store_characters_avx2 ct)
    (dump_pack (mm256_castsi256_si128 (g_hex_char_table u @ g_hex_char_table u))) 16 data"
  "store_pack256 ct (g_hex_char_table u @ g_hex_char_table u) 1 data" for ct u data
proof -
  have "mm256_castsi256_si128 (g_hex_char_table u @ g_hex_char_table u) = g_hex_char_table u"
    by (simp add: mm256_castsi256_si128_def g_hex_char_table_def)
  then show "vector_routine ct (g_hex_char_table u) 32 (avx2_alignment ct) data
      (store_pack256 ct (g_hex_char_table u @ g_hex_char_table u) 32 data)
      (store_pack ct (store_characters_avx2 ct)
        (dump_pack (mm256_castsi256_si128 (g_hex_char_table u @ g_hex_char_table u))) 16 data)
      (store_pack256 ct (g_hex_char_table u @ g_hex_char_table u) 1 data)"
    by (intro vector_routine.intro pack_step_128 pack_step_256 vector_routine_axioms.intro)
      (use store_pack256_ok [of 0 data 1] store_characters_avx2_ok dump_pack_ok in simp_all)
qed

section \<open>Alignment\<close>

lemma low_bits: "unat (a AND 15 :: u64) = unat a mod 16" "unat (a AND 31 :: u64) = unat a mod 32"
proof -
  have "a AND 15 = take_bit 4 a" "a AND 31 = take_bit 5 a" by (simp_all add: take_bit_eq_mask mask_eq_exp_minus_1)
  then show "unat (a AND 15) = unat a mod 16" "unat (a AND 31) = unat a mod 32"
    by (simp_all add: take_bit_eq_mod unat_mod)
qed

lemma align_up:
  "unat (16 - (a AND 15) :: u64) = 16 - unat a mod 16" "unat (32 - (a AND 31) :: u64) = 32 - unat a mod 32"
  by (subst unat_sub; simp add: word_le_nat_alt low_bits)+

lemma align_up_dvd:
  assumes "n dvd 2 ^ 64" "0 < n"
  shows "n dvd unat (a + of_nat (n - unat a mod n) :: u64)" "n dvd unat (a + of_nat ((n - unat a mod n) mod n) :: u64)"
proof -
  have "unat a + (n - unat a mod n) = n * (unat a div n) + n"
    using mod_less_divisor [OF assms(2), of "unat a"] mult_div_mod_eq [of n "unat a"] by linarith
  then have "n dvd unat a + (n - unat a mod n)" by simp
  moreover have "n dvd unat a + (n - unat a mod n) mod n" using calculation by (metis dvd_eq_mod_eq_0 mod_add_right_eq)
  moreover have "unat (a + of_nat k :: u64) = (unat a + k) mod 2 ^ 64" for k by (simp add: unat_word_ariths unat_of_nat mod_simps)
  ultimately show "n dvd unat (a + of_nat (n - unat a mod n) :: u64)" "n dvd unat (a + of_nat ((n - unat a mod n) mod n) :: u64)"
    using assms(1) by (simp_all only: dvd_mod_iff)
qed

lemma prealign:
  "unat ((16 - (a AND 15)) AND 15 :: u64) = (16 - unat a mod 16) mod 16"
  "unat ((32 - (a AND 31)) AND 31 :: u64) = (32 - unat a mod 32) mod 32"
  by (simp_all add: low_bits align_up)

lemma dump_data_ssse3_ok:
  assumes "16 \<le> sz" "sz \<le> length (snd data)"
  shows "dump_data_ssse3 ct u base junk data sz = Some (map ucast (drop 1 (hexs (g_hex_char_table u) (take sz (snd data)))))"
    "dump_data_ssse3_slow_pshufb ct u base junk data sz = Some (map ucast (drop 1 (hexs (g_hex_char_table u) (take sz (snd data)))))"
proof -
  let ?pre = "unat ((16 - (fst data AND 15)) AND 15)" and ?off = "unat (16 - (base AND 15))"
  have a: "?pre \<le> 16" "sz = ?pre \<or> 16 dvd unat (fst data + of_nat ?pre)" "16 dvd unat (base + of_nat ?off)"
    using align_up_dvd [of 16 base] align_up_dvd [of 16 "fst data"] by (simp_all only: prealign align_up) auto
  have "?off \<le> 16 * sizeof_char ct" using sizeof_char_pos [of ct] unfolding align_up by (metis diff_le_self le_trans mult.right_neutral mult_le_mono2 Suc_leI One_nat_def)
  then have o: "?off + 3 * (32 * 16) * sizeof_char ct \<le> length (map junk [0..<(32 * 16 * 3 + 16) * sizeof_char ct])" by simp
  show "dump_data_ssse3 ct u base junk data sz = Some (map ucast (drop 1 (hexs (g_hex_char_table u) (take sz (snd data)))))"
    unfolding dump_data_ssse3_def Let_def stack_array_def by (rule ssse3.dump_aligned_ok [OF assms a(1,2) o a(3)])
  show "dump_data_ssse3_slow_pshufb ct u base junk data sz = Some (map ucast (drop 1 (hexs (g_hex_char_table u) (take sz (snd data)))))"
    unfolding dump_data_ssse3_slow_pshufb_def Let_def stack_array_def by (rule ssse3_slow.dump_aligned_ok [OF assms a(1,2) o a(3)])
qed

lemma dump_data_avx2_ok:
  assumes "32 \<le> sz" "sz \<le> length (snd data)"
  shows "dump_data_avx2 ct u base junk data sz = Some (map ucast (drop 1 (hexs (g_hex_char_table u) (take sz (snd data)))))"
proof -
  let ?pre = "if sz = 32 then 32 else unat ((32 - (fst data AND 31)) AND 31)" and ?off = "unat (32 - (base AND 31))"
  have a: "?pre \<le> 32" "sz = ?pre \<or> 32 dvd unat (fst data + of_nat ?pre)" "32 dvd unat (base + of_nat ?off)"
    using align_up_dvd [of 32 base] align_up_dvd [of 32 "fst data"] by (simp_all only: prealign align_up) auto
  have al: "avx2_alignment ct dvd unat (base + of_nat ?off)"
    by (rule dvd_trans [OF _ a(3)]) (simp add: avx2_alignment_def)
  have "?off \<le> 32 * sizeof_char ct" using sizeof_char_pos [of ct] unfolding align_up by (metis diff_le_self le_trans mult.right_neutral mult_le_mono2 Suc_leI One_nat_def)
  then have o: "?off + 3 * (32 * 32) * sizeof_char ct \<le> length (map junk [0..<(32 * 32 * 3 + 32) * sizeof_char ct])" by simp
  show ?thesis
    unfolding dump_data_avx2_def Let_def stack_array_def by (rule avx2.dump_aligned_ok [OF assms a(1,2) o al])
qed

lemma dump_data_ok:
  assumes "sz \<le> length (snd data)"
  shows "dump_data cpu ct u base junk data sz = Some (map ucast (drop 1 (hexs (g_hex_char_table u) (take sz (snd data)))))"
  using dump_data_generic_ok [OF assms] dump_data_ssse3_ok [OF _ assms] dump_data_avx2_ok [OF _ assms]
  by (simp add: dump_data_def dump_data_char_ssse3_def dump_data_char_ssse3_slow_pshufb_def dump_data_char_avx2_def
      split: dump_routine.split)

section \<open>The text of a dump\<close>

text \<open>The specification: two hexadecimal digits for each byte, with spaces between the bytes, and how to read it.\<close>

definition hex_digit :: "bool \<Rightarrow> nat \<Rightarrow> char" where
  "hex_digit uppercase n = (if uppercase then ''0123456789ABCDEF'' else ''0123456789abcdef'') ! n"

fun hex_text :: "bool \<Rightarrow> u8 list \<Rightarrow> string" where
  "hex_text uppercase [] = []"
| "hex_text uppercase [d] = [hex_digit uppercase (unat d div 16), hex_digit uppercase (unat d mod 16)]"
| "hex_text uppercase (d # ds) =
     hex_digit uppercase (unat d div 16) # hex_digit uppercase (unat d mod 16) # CHR '' '' # hex_text uppercase ds"

definition digit_value :: "char \<Rightarrow> nat option" where
  "digit_value c =
     (let n = of_char c
      in if 48 \<le> n \<and> n \<le> 57 then Some (n - 48)
         else if 65 \<le> n \<and> n \<le> 70 then Some (n - 55)
         else if 97 \<le> n \<and> n \<le> 102 then Some (n - 87) else None)"

definition read_byte :: "char \<Rightarrow> char \<Rightarrow> u8 option" where
  "read_byte a b = (case (digit_value a, digit_value b) of (Some h, Some l) \<Rightarrow> Some (of_nat (16 * h + l)) | _ \<Rightarrow> None)"

fun read_hex :: "string \<Rightarrow> u8 list option" where
  "read_hex [] = Some []"
| "read_hex [a, b] = map_option (\<lambda>d. [d]) (read_byte a b)"
| "read_hex (a # b # c # r) =
     (if c = CHR '' '' \<and> r \<noteq> [] then do { d \<leftarrow> read_byte a b; ds \<leftarrow> read_hex r; Some (d # ds) } else None)"
| "read_hex _ = None"

lemma nat_16_cases: "n < 16 \<Longrightarrow> n \<in> set [0, 1, 2, 3, 4, 5, 6, 7, 8, 9, 10, 11, 12, 13, 14, 15 :: nat]"
  by simp presburger

lemma digit_value_hex_digit: "n < 16 \<Longrightarrow> digit_value (hex_digit u n) = Some n"
  by (drule nat_16_cases) (cases u; auto simp: digit_value_def hex_digit_def)

lemma unat_byte: "unat (d :: u8) < 256"
  using unsigned_less [of d] by simp

lemma read_byte_digits: "read_byte (hex_digit u (unat d div 16)) (hex_digit u (unat d mod 16)) = Some d"
  using unat_byte [of d] by (simp add: read_byte_def digit_value_hex_digit less_mult_imp_div_less)

lemma read_hex_text: "read_hex (hex_text u ds) = Some ds"
proof (induction u ds rule: hex_text.induct)
  case (3 u d e ds)
  have "hex_text u (e # ds) \<noteq> []" by (cases ds) simp_all
  then show ?case using 3 by (simp add: read_byte_digits)
qed (simp_all add: read_byte_digits)

lemma table_digit:
  fixes d :: u8
  shows
  "g_hex_char_table u ! unat (drop_bit 4 d) = of_char (hex_digit u (unat d div 16))"
  "g_hex_char_table u ! unat (d AND 0x0F) = of_char (hex_digit u (unat d mod 16))"
proof -
  have "unat (drop_bit 4 d) = unat d div 16" by (simp add: drop_bit_eq_div unat_div)
  moreover have "unat (d AND 0x0F) = unat d mod 16"
    by (simp add: low_nibble flip: take_bit_eq_mask) (simp add: take_bit_eq_mod unat_mod)
  ultimately show "g_hex_char_table u ! unat (drop_bit 4 d) = of_char (hex_digit u (unat d div 16))"
    "g_hex_char_table u ! unat (d AND 0x0F) = of_char (hex_digit u (unat d mod 16))"
    using unat_byte [of d] by (simp_all add: g_hex_char_table_def hex_digit_def less_mult_imp_div_less)
qed

lemma hexs_text: "map ucast (drop 1 (hexs (g_hex_char_table u) ds)) = (map of_char (hex_text u ds) :: u32 list)"
proof -
  have c: "ucast (of_char c :: u8) = (of_char c :: u32)" for c
    by (cases c) (simp add: of_char_def)
  have s: "(of_char (CHR '' '') :: u32) = 0x20" by simp
  show ?thesis
    by (induction u ds rule: hex_text.induct) (simp_all add: hex_chars_def table_digit c)
qed

lemma dump_data_text:
  "sz \<le> length (snd data) \<Longrightarrow>
   dump_data cpu ct u base junk data sz = Some (map of_char (hex_text u (take sz (snd data))))"
  by (simp only: dump_data_ok hexs_text)

section \<open>Properties\<close>

text \<open>
  C29. On every processor, for every character type, wherever the data and the buffer on the stack are and whatever
  is in the buffer before: no memory access is out of bounds or misaligned, and the stream gets the hexadecimal text
  of the data, cut at the given limit with a note on how much is left out.
\<close>

theorem dump_writes_hex_text:
  "bounded_dump_manip cpu ct True uppercase number base junk (addr, data) (length data) max_size =
     Some (map of_char (hex_text uppercase (take max_size data)) @
       (if length data \<le> max_size then []
        else map of_char '' and '' @ number (length data - max_size) @ map of_char '' bytes more''))"
  by (simp add: bounded_dump_manip_def dump_data_text)

text \<open>
  A dump can be read back: its text gives the data again, whichever routine wrote it.
\<close>

theorem dump_roundtrip:
  "map_option (\<lambda>out. read_hex (map (\<lambda>c. char_of (unat c)) out)) (dump_manip cpu ct True uppercase base junk (addr, data) (length data)) =
     Some (Some data)"
proof -
  have "unat (of_char c :: u32) = of_char c" for c by (cases c) (simp add: of_char_def)
  then show ?thesis by (simp add: dump_manip_def dump_data_text read_hex_text comp_def)
qed

end
