(* ===== verification/Async_Sink.thy ===== *)
theory Async_Sink
  imports Main
begin

text \<open>
  The asynchronous sink frontend with the bounded FIFO queue: threads that log put records into the queue and one
  thread at a time feeds them to the backend. The threads interleave; a step of a thread is what it does between two
  accesses to shared state: one access to an atomic flag, or one critical section of the mutex of the frontend or of the
  queue. A thread that waits for a condition may wake up at any time, as a condition variable allows, and checks
  again; notifications are therefore left out.
\<close>

type_synonym thread = nat

section \<open>State\<close>

datatype overflow_strategy = Block_On_Overflow | Drop_On_Overflow

record queue_config =
  max_queue_size :: nat
  overflow :: overflow_strategy

datatype operation = Idle | Feeding_Records | Flushing

text \<open>The functions that feed records.\<close>

datatype feeder = Run | Feed_Records | Flush

text \<open>
  Where a thread is. The stages of a feeding thread name the function that it is in; the stages of
  \<open>do_feed_records\<close> start with \<open>Feed\<close>.
\<close>

datatype 'r stage =
    Outside
  | Consume 'r
  | Consume_Wait 'r
  | Try_Consume 'r
  | Try_Enqueue 'r
  | Enqueue 'r
  | Overflow_Wait 'r
  | Start feeder
  | Feed_Check feeder
  | Feed_Dequeue feeder
  | Feed_Try_Dequeue feeder bool
  | Feed_Record feeder 'r
  | Feed_End feeder
  | Feed_Flush feeder
  | Feed_Reset feeder bool
  | Run_Check
  | Run_Dequeue
  | Complete feeder
  | Flush_Interrupt
  | Flush_Wait
  | Stop_Interrupt

text \<open>
  The members of the queue, of its overflow strategy and of the frontend, and the stages of the threads. The
  last three fields record the history: the records that were put into the queue, those that were passed to the backend
  and those that were discarded.
\<close>

record 'r async_sink =
  sk_queue :: "'r list"
  sk_interruption_requested :: bool
  sk_thread_contexts :: "thread list"
  sk_context_result :: "thread \<Rightarrow> bool"
  sk_active_operation :: operation
  sk_stop_requested :: bool
  sk_flush_requested :: bool
  sk_frontend_mutex :: "thread option"
  sk_stage :: "thread \<Rightarrow> 'r stage"
  sk_accepted :: "'r list"
  sk_fed :: "'r list"
  sk_discarded :: "'r list"

definition new_async_sink :: "'r async_sink" where
  "new_async_sink =
     \<lparr>sk_queue = [], sk_interruption_requested = False, sk_thread_contexts = [], sk_context_result = (\<lambda>_. True),
      sk_active_operation = Idle, sk_stop_requested = False, sk_flush_requested = False, sk_frontend_mutex = None,
      sk_stage = (\<lambda>_. Outside), sk_accepted = [], sk_fed = [], sk_discarded = []\<rparr>"

definition go :: "thread \<Rightarrow> 'r stage \<Rightarrow> 'r async_sink \<Rightarrow> 'r async_sink" where
  "go t g s = s\<lparr>sk_stage := (sk_stage s)(t := g)\<rparr>"

section \<open>The queue\<close>

text \<open>The overflow strategies; \<open>on_overflow\<close> returns \<open>None\<close> when the thread waits and else its result.\<close>

definition on_overflow :: "queue_config \<Rightarrow> thread \<Rightarrow> 'r async_sink \<Rightarrow> bool option \<times> 'r async_sink" where
  "on_overflow cfg t s =
     (case overflow cfg of
        Drop_On_Overflow \<Rightarrow> (Some False, s)
      | Block_On_Overflow \<Rightarrow>
          (None, s\<lparr>sk_thread_contexts := sk_thread_contexts s @ [t], sk_context_result := (sk_context_result s)(t := True)\<rparr>))"

definition after_wait :: "thread \<Rightarrow> 'r async_sink \<Rightarrow> bool option" where
  "after_wait t s = (if t \<in> set (sk_thread_contexts s) then None else Some (sk_context_result s t))"

definition on_queue_space_available :: "queue_config \<Rightarrow> 'r async_sink \<Rightarrow> 'r async_sink" where
  "on_queue_space_available cfg s =
     (case overflow cfg of
        Drop_On_Overflow \<Rightarrow> s
      | Block_On_Overflow \<Rightarrow> s\<lparr>sk_thread_contexts := tl (sk_thread_contexts s)\<rparr>)"

definition interrupt_waits :: "queue_config \<Rightarrow> 'r async_sink \<Rightarrow> 'r async_sink" where
  "interrupt_waits cfg s =
     (case overflow cfg of
        Drop_On_Overflow \<Rightarrow> s
      | Block_On_Overflow \<Rightarrow>
          s\<lparr>sk_context_result := (\<lambda>t. if t \<in> set (sk_thread_contexts s) then False else sk_context_result s t),
            sk_thread_contexts := []\<rparr>)"

definition push_record_view :: "'r \<Rightarrow> 'r async_sink \<Rightarrow> 'r async_sink" where
  "push_record_view r s = s\<lparr>sk_queue := sk_queue s @ [r], sk_accepted := sk_accepted s @ [r]\<rparr>"

definition discard :: "'r \<Rightarrow> 'r async_sink \<Rightarrow> 'r async_sink" where
  "discard r s = s\<lparr>sk_discarded := sk_discarded s @ [r]\<rparr>"

text \<open>The loop of \<open>enqueue\<close> from the check of the size on.\<close>

definition enqueue :: "queue_config \<Rightarrow> thread \<Rightarrow> 'r \<Rightarrow> 'r async_sink \<Rightarrow> 'r async_sink" where
  "enqueue cfg t r s =
     (if length (sk_queue s) \<ge> max_queue_size cfg
      then (case on_overflow cfg t s of
              (None, s) \<Rightarrow> go t (Overflow_Wait r) s
            | (Some _, s) \<Rightarrow> go t Outside (discard r s))
      else go t Outside (push_record_view r s))"

text \<open>A thread in \<open>on_overflow\<close> that wakes up.\<close>

definition resume_enqueue :: "queue_config \<Rightarrow> thread \<Rightarrow> 'r \<Rightarrow> 'r async_sink \<Rightarrow> 'r async_sink" where
  "resume_enqueue cfg t r s =
     (case after_wait t s of
        None \<Rightarrow> s
      | Some True \<Rightarrow> enqueue cfg t r s
      | Some False \<Rightarrow> go t Outside (discard r s))"

definition try_enqueue :: "queue_config \<Rightarrow> bool \<Rightarrow> 'r \<Rightarrow> 'r async_sink \<Rightarrow> bool \<times> 'r async_sink" where
  "try_enqueue cfg owns_lock r s =
     (if owns_lock \<and> length (sk_queue s) < max_queue_size cfg then (True, push_record_view r s) else (False, s))"

definition try_dequeue :: "queue_config \<Rightarrow> 'r async_sink \<Rightarrow> 'r option \<times> 'r async_sink" where
  "try_dequeue cfg s =
     (case sk_queue s of
        [] \<Rightarrow> (None, s)
      | r # q \<Rightarrow> (Some r, on_queue_space_available cfg (s\<lparr>sk_queue := q\<rparr>)))"

definition try_dequeue_ready :: "queue_config \<Rightarrow> 'r async_sink \<Rightarrow> 'r option \<times> 'r async_sink" where
  "try_dequeue_ready = try_dequeue"

text \<open>An iteration of the loop of \<open>dequeue_ready\<close>; \<open>None\<close> when the thread waits, else what it returns.\<close>

definition dequeue_ready :: "queue_config \<Rightarrow> 'r async_sink \<Rightarrow> 'r option option \<times> 'r async_sink" where
  "dequeue_ready cfg s =
     (if sk_interruption_requested s then (Some None, s\<lparr>sk_interruption_requested := False\<rparr>)
      else case try_dequeue cfg s of
             (Some r, s) \<Rightarrow> (Some (Some r), s)
           | (None, s) \<Rightarrow> (None, s))"

definition interrupt_dequeue :: "queue_config \<Rightarrow> 'r async_sink \<Rightarrow> 'r async_sink" where
  "interrupt_dequeue cfg s = interrupt_waits cfg (s\<lparr>sk_interruption_requested := True\<rparr>)"

section \<open>The frontend\<close>

definition operation_of :: "feeder \<Rightarrow> operation" where
  "operation_of f = (if f = Flush then Flushing else Feeding_Records)"

text \<open>
  An iteration of the loop of \<open>start_feeding_operation\<close>: the thread waits, leaves (with an exception or because a stop was
  requested) or starts to feed.
\<close>

definition start_feeding_operation :: "thread \<Rightarrow> feeder \<Rightarrow> 'r async_sink \<Rightarrow> 'r async_sink" where
  "start_feeding_operation t f s =
     (if sk_active_operation s \<noteq> Idle
      then (if operation_of f = Feeding_Records \<and> sk_active_operation s = Feeding_Records then go t Outside s
            else if sk_stop_requested s then go t Outside (s\<lparr>sk_stop_requested := False\<rparr>)
            else s)
      else go t (Feed_Check f) (s\<lparr>sk_active_operation := operation_of f\<rparr>))"

definition complete_feeding_operation :: "thread \<Rightarrow> 'r async_sink \<Rightarrow> 'r async_sink" where
  "complete_feeding_operation t s = go t Outside (s\<lparr>sk_active_operation := Idle, sk_stop_requested := False\<rparr>)"

definition after_feeding :: "feeder \<Rightarrow> 'r stage" where
  "after_feeding f = (if f = Run then Run_Check else Complete f)"

text \<open>\<open>flush\<close>: its first critical section, and the check after a wait.\<close>

definition start_flushing :: "thread \<Rightarrow> 'r async_sink \<Rightarrow> 'r async_sink" where
  "start_flushing t s = go t (Feed_Check Flush) (s\<lparr>sk_active_operation := Flushing, sk_flush_requested := True\<rparr>)"

definition flush :: "thread \<Rightarrow> 'r async_sink \<Rightarrow> 'r async_sink" where
  "flush t s =
     (if sk_active_operation s \<noteq> Idle
      then go t Flush_Interrupt (s\<lparr>sk_flush_requested := True, sk_frontend_mutex := Some t\<rparr>)
      else start_flushing t s)"

definition flush_wait :: "thread \<Rightarrow> 'r async_sink \<Rightarrow> 'r async_sink" where
  "flush_wait t s =
     (if \<not> sk_stop_requested s \<and> sk_flush_requested s then go t Flush_Wait s
      else if sk_active_operation s \<noteq> Idle then go t Outside s
      else start_flushing t s)"

text \<open>
  What a thread outside of the frontend may call, and what the step of another thread depends on: whether a lock was
  acquired or the backend returned without an exception.
\<close>

datatype 'r choice =
    Call_Consume 'r
  | Call_Try_Consume 'r
  | Call_Run
  | Call_Feed_Records
  | Call_Flush
  | Call_Stop
  | Proceed bool

definition locked :: "'r async_sink \<Rightarrow> ('r async_sink \<Rightarrow> 'r async_sink) \<Rightarrow> 'r async_sink option" where
  "locked s f = (if sk_frontend_mutex s = None then Some (f s) else None)"

fun start_call :: "'r choice \<Rightarrow> thread \<Rightarrow> 'r async_sink \<Rightarrow> 'r async_sink option" where
  "start_call (Call_Consume r) t s = Some (go t (Consume r) s)"
| "start_call (Call_Try_Consume r) t s = Some (go t (Try_Consume r) s)"
| "start_call Call_Run t s = Some (go t (Start Run) s)"
| "start_call Call_Feed_Records t s = Some (go t (Start Feed_Records) s)"
| "start_call Call_Flush t s = locked s (flush t)"
| "start_call Call_Stop t s =
     locked s (\<lambda>s. go t Stop_Interrupt (s\<lparr>sk_stop_requested := True, sk_frontend_mutex := Some t\<rparr>))"
| "start_call (Proceed _) t s = None"

fun feed_step :: "queue_config \<Rightarrow> bool \<Rightarrow> thread \<Rightarrow> 'r stage \<Rightarrow> 'r async_sink \<Rightarrow> 'r async_sink option" where
  "feed_step cfg ok t (Feed_Check f) s = Some (go t (if sk_stop_requested s then Feed_End f else Feed_Dequeue f) s)"
| "feed_step cfg ok t (Feed_Dequeue f) s = Some (go t (Feed_Try_Dequeue f (sk_flush_requested s)) s)"
| "feed_step cfg ok t (Feed_Try_Dequeue f flushing) s =
     (case (if flushing then try_dequeue cfg s else try_dequeue_ready cfg s) of
        (Some r, s) \<Rightarrow> Some (go t (Feed_Record f r) s)
      | (None, s) \<Rightarrow> Some (go t (Feed_End f) s))"
| "feed_step cfg ok t (Feed_Record f r) s =
     Some (go t (if ok then Feed_Check f else Complete f) (s\<lparr>sk_fed := sk_fed s @ [r]\<rparr>))"
| "feed_step cfg ok t (Feed_End f) s = Some (go t (if sk_flush_requested s then Feed_Flush f else after_feeding f) s)"
| "feed_step cfg ok t (Feed_Flush f) s = Some (go t (Feed_Reset f ok) s)"
| "feed_step cfg ok t (Feed_Reset f ok') s =
     locked s (\<lambda>s. go t (if ok' then after_feeding f else Complete f) (s\<lparr>sk_flush_requested := False\<rparr>))"
| "feed_step cfg ok t _ s = None"

text \<open>A step of the thread \<open>t\<close>.\<close>

definition async_step :: "queue_config \<Rightarrow> thread \<times> 'r choice \<Rightarrow> 'r async_sink \<Rightarrow> 'r async_sink option" where
  "async_step cfg tc s =
     (case tc of (t, c) \<Rightarrow>
        if sk_stage s t = Outside then start_call c t s
        else case c of
          Proceed ok \<Rightarrow>
            (case sk_stage s t of
               Consume r \<Rightarrow> Some (go t (if sk_flush_requested s then Consume_Wait r else Enqueue r) s)
             | Consume_Wait r \<Rightarrow> locked s (\<lambda>s. if sk_flush_requested s then s else go t (Enqueue r) s)
             | Try_Consume r \<Rightarrow> Some (go t (if sk_flush_requested s then Outside else Try_Enqueue r) s)
             | Try_Enqueue r \<Rightarrow> Some (go t Outside (snd (try_enqueue cfg ok r s)))
             | Enqueue r \<Rightarrow> Some (enqueue cfg t r s)
             | Overflow_Wait r \<Rightarrow> Some (resume_enqueue cfg t r s)
             | Start f \<Rightarrow> locked s (start_feeding_operation t f)
             | Run_Check \<Rightarrow> Some (go t (if sk_stop_requested s then Complete Run else Run_Dequeue) s)
             | Run_Dequeue \<Rightarrow>
                 (case dequeue_ready cfg s of
                    (None, s) \<Rightarrow> Some s
                  | (Some None, s) \<Rightarrow> Some (go t (Feed_Check Run) s)
                  | (Some (Some r), s) \<Rightarrow> Some (go t (Feed_Record Run r) s))
             | Complete f \<Rightarrow> locked s (complete_feeding_operation t)
             | Flush_Interrupt \<Rightarrow> Some (flush_wait t (interrupt_dequeue cfg (s\<lparr>sk_frontend_mutex := None\<rparr>)))
             | Flush_Wait \<Rightarrow> locked s (flush_wait t)
             | Stop_Interrupt \<Rightarrow> Some (go t Outside (interrupt_dequeue cfg (s\<lparr>sk_frontend_mutex := None\<rparr>)))
             | g \<Rightarrow> feed_step cfg ok t g s)
        | _ \<Rightarrow> None)"

fun async_run :: "queue_config \<Rightarrow> (thread \<times> 'r choice) list \<Rightarrow> 'r async_sink \<Rightarrow> 'r async_sink option" where
  "async_run cfg [] s = Some s"
| "async_run cfg (tc # tcs) s = (case async_step cfg tc s of None \<Rightarrow> None | Some s \<Rightarrow> async_run cfg tcs s)"

end
