(* ===== verification/Async_Sink_Steps.thy ===== *)
theory Async_Sink_Steps
  imports Async_Sink
begin

text \<open>
  What a step of a thread does to the asynchronous sink: its effects on the feeding operation, on the records, on the
  mutex of the frontend and on the threads that wait for space.
\<close>

lemma go_simps [simp]:
  "sk_stage (go t g s) = (sk_stage s)(t := g)" "sk_queue (go t g s) = sk_queue s" "sk_accepted (go t g s) = sk_accepted s"
  "sk_fed (go t g s) = sk_fed s" "sk_discarded (go t g s) = sk_discarded s" "sk_active_operation (go t g s) = sk_active_operation s"
  "sk_stop_requested (go t g s) = sk_stop_requested s" "sk_flush_requested (go t g s) = sk_flush_requested s"
  "sk_frontend_mutex (go t g s) = sk_frontend_mutex s" "sk_thread_contexts (go t g s) = sk_thread_contexts s"
  "sk_context_result (go t g s) = sk_context_result s" "sk_interruption_requested (go t g s) = sk_interruption_requested s"
  by (simp_all add: go_def)

text \<open>What the operations of the queue leave alone.\<close>

lemmas queue_defs = enqueue_def resume_enqueue_def on_overflow_def after_wait_def discard_def push_record_view_def
  try_enqueue_def on_queue_space_available_def interrupt_dequeue_def interrupt_waits_def

lemma enqueue_frame [simp]:
  "sk_active_operation (enqueue cfg t r s) = sk_active_operation s" "sk_stop_requested (enqueue cfg t r s) = sk_stop_requested s"
  "sk_flush_requested (enqueue cfg t r s) = sk_flush_requested s" "sk_frontend_mutex (enqueue cfg t r s) = sk_frontend_mutex s"
  "sk_fed (enqueue cfg t r s) = sk_fed s"
  by (simp_all add: queue_defs split: overflow_strategy.split)

lemma resume_enqueue_frame [simp]:
  "sk_active_operation (resume_enqueue cfg t r s) = sk_active_operation s"
  "sk_stop_requested (resume_enqueue cfg t r s) = sk_stop_requested s"
  "sk_flush_requested (resume_enqueue cfg t r s) = sk_flush_requested s"
  "sk_frontend_mutex (resume_enqueue cfg t r s) = sk_frontend_mutex s" "sk_fed (resume_enqueue cfg t r s) = sk_fed s"
  by (simp_all add: resume_enqueue_def discard_def split: option.split bool.split)

lemma interrupt_dequeue_frame [simp]:
  "sk_active_operation (interrupt_dequeue cfg s) = sk_active_operation s" "sk_stop_requested (interrupt_dequeue cfg s) = sk_stop_requested s"
  "sk_flush_requested (interrupt_dequeue cfg s) = sk_flush_requested s" "sk_frontend_mutex (interrupt_dequeue cfg s) = sk_frontend_mutex s"
  "sk_fed (interrupt_dequeue cfg s) = sk_fed s" "sk_stage (interrupt_dequeue cfg s) = sk_stage s"
  "sk_queue (interrupt_dequeue cfg s) = sk_queue s" "sk_accepted (interrupt_dequeue cfg s) = sk_accepted s"
  "sk_thread_contexts (interrupt_dequeue cfg s) = (if overflow cfg = Block_On_Overflow then [] else sk_thread_contexts s)"
  by (simp_all add: queue_defs split: overflow_strategy.split)

lemma on_queue_space_available_frame [simp]:
  "sk_active_operation (on_queue_space_available cfg s) = sk_active_operation s"
  "sk_stop_requested (on_queue_space_available cfg s) = sk_stop_requested s"
  "sk_flush_requested (on_queue_space_available cfg s) = sk_flush_requested s"
  "sk_frontend_mutex (on_queue_space_available cfg s) = sk_frontend_mutex s"
  "sk_fed (on_queue_space_available cfg s) = sk_fed s" "sk_stage (on_queue_space_available cfg s) = sk_stage s"
  "sk_queue (on_queue_space_available cfg s) = sk_queue s" "sk_accepted (on_queue_space_available cfg s) = sk_accepted s"
  "sk_thread_contexts (on_queue_space_available cfg s) =
    (if overflow cfg = Block_On_Overflow then tl (sk_thread_contexts s) else sk_thread_contexts s)"
  by (simp_all add: queue_defs split: overflow_strategy.split)

lemma try_enqueue_frame [simp]:
  "sk_active_operation (snd (try_enqueue cfg b r s)) = sk_active_operation s"
  "sk_stop_requested (snd (try_enqueue cfg b r s)) = sk_stop_requested s"
  "sk_flush_requested (snd (try_enqueue cfg b r s)) = sk_flush_requested s"
  "sk_frontend_mutex (snd (try_enqueue cfg b r s)) = sk_frontend_mutex s" "sk_fed (snd (try_enqueue cfg b r s)) = sk_fed s"
  "sk_stage (snd (try_enqueue cfg b r s)) = sk_stage s" "sk_thread_contexts (snd (try_enqueue cfg b r s)) = sk_thread_contexts s"
  by (simp_all add: queue_defs)

section \<open>Steps\<close>

fun owning :: "'r stage \<Rightarrow> feeder option" where
  "owning (Feed_Check f) = Some f"
| "owning (Feed_Dequeue f) = Some f"
| "owning (Feed_Try_Dequeue f _) = Some f"
| "owning (Feed_Record f _) = Some f"
| "owning (Feed_End f) = Some f"
| "owning (Feed_Flush f) = Some f"
| "owning (Feed_Reset f _) = Some f"
| "owning (Complete f) = Some f"
| "owning Run_Check = Some Run"
| "owning Run_Dequeue = Some Run"
| "owning _ = None"

text \<open>The stage of a thread after an attempt to put a record into the queue.\<close>

definition enqueue_stage :: "queue_config \<Rightarrow> 'r \<Rightarrow> 'r async_sink \<Rightarrow> 'r stage" where
  "enqueue_stage cfg r s =
     (if max_queue_size cfg \<le> length (sk_queue s) \<and> overflow cfg = Block_On_Overflow then Overflow_Wait r else Outside)"

lemma enqueue_stage: "sk_stage (enqueue cfg t r s) = (sk_stage s)(t := enqueue_stage cfg r s)"
  by (simp add: enqueue_stage_def queue_defs split: overflow_strategy.split)

lemma resume_enqueue_stage:
  "sk_stage s t = Overflow_Wait r \<Longrightarrow> sk_stage (resume_enqueue cfg t r s) = (sk_stage s)(t :=
     (case after_wait t s of None \<Rightarrow> Overflow_Wait r | Some b \<Rightarrow> if b then enqueue_stage cfg r s else Outside))"
  by (auto simp: resume_enqueue_def discard_def enqueue_stage split: option.split bool.split)

lemma owning_enqueue_stage [simp]: "owning (enqueue_stage cfg r s) = None"
  by (simp add: enqueue_stage_def)

text \<open>The record that a feeding thread took out of the queue, and the threads that hold the mutex of the frontend.\<close>

fun held :: "'r stage \<Rightarrow> 'r list" where
  "held (Feed_Record f r) = [r]"
| "held _ = []"

fun interrupting :: "'r stage \<Rightarrow> bool" where
  "interrupting Flush_Interrupt = True"
| "interrupting Stop_Interrupt = True"
| "interrupting _ = False"

fun waiting_for_space :: "'r stage \<Rightarrow> bool" where
  "waiting_for_space (Overflow_Wait r) = True"
| "waiting_for_space _ = False"

text \<open>
  The effects of a step of the thread \<open>t\<close>: on the feeding operation, on the records, on the mutex and on the list of the
  threads that wait for space.
\<close>

definition owner_effect :: "thread \<Rightarrow> 'r async_sink \<Rightarrow> 'r async_sink \<Rightarrow> bool" where
  "owner_effect t s s' \<longleftrightarrow>
     (\<forall>u. u \<noteq> t \<longrightarrow> sk_stage s' u = sk_stage s u) \<and>
     (owning (sk_stage s' t) = owning (sk_stage s t) \<and> sk_active_operation s' = sk_active_operation s \<or>
      owning (sk_stage s t) = None \<and> sk_active_operation s = Idle \<and>
        map_option operation_of (owning (sk_stage s' t)) = Some (sk_active_operation s') \<or>
      owning (sk_stage s t) \<noteq> None \<and> owning (sk_stage s' t) = None \<and> sk_active_operation s' = Idle)"

definition record_effect :: "queue_config \<Rightarrow> thread \<Rightarrow> 'r async_sink \<Rightarrow> 'r async_sink \<Rightarrow> bool" where
  "record_effect cfg t s s' \<longleftrightarrow>
     (\<exists>put taken. sk_queue s @ put = taken @ sk_queue s' \<and> sk_accepted s' = sk_accepted s @ put \<and>
        sk_fed s' @ held (sk_stage s' t) = sk_fed s @ held (sk_stage s t) @ taken \<and>
        (put = [] \<or> length (sk_queue s) < max_queue_size cfg \<and> length put = 1) \<and>
        (taken = [] \<or> owning (sk_stage s t) \<noteq> None))"

definition mutex_effect :: "thread \<Rightarrow> 'r async_sink \<Rightarrow> 'r async_sink \<Rightarrow> bool" where
  "mutex_effect t s s' \<longleftrightarrow>
     (if interrupting (sk_stage s t) then sk_frontend_mutex s' = None \<and> \<not> interrupting (sk_stage s' t)
      else if interrupting (sk_stage s' t) then sk_frontend_mutex s = None \<and> sk_frontend_mutex s' = Some t
      else sk_frontend_mutex s' = sk_frontend_mutex s)"

definition context_effect :: "queue_config \<Rightarrow> thread \<Rightarrow> 'r async_sink \<Rightarrow> 'r async_sink \<Rightarrow> bool" where
  "context_effect cfg t s s' \<longleftrightarrow>
     (overflow cfg = Drop_On_Overflow \<longrightarrow> sk_thread_contexts s' = sk_thread_contexts s) \<and>
     (sk_thread_contexts s' = sk_thread_contexts s @ [t] \<and> t \<notin> set (sk_thread_contexts s) \<and> waiting_for_space (sk_stage s' t) \<or>
      sk_thread_contexts s' \<in> {sk_thread_contexts s, tl (sk_thread_contexts s), []} \<and>
        (t \<in> set (sk_thread_contexts s') \<longrightarrow> waiting_for_space (sk_stage s t) \<longrightarrow> waiting_for_space (sk_stage s' t)))"

text \<open>A thread is in the list of contexts only while it waits.\<close>

definition sink_effect :: "queue_config \<Rightarrow> thread \<Rightarrow> 'r async_sink \<Rightarrow> 'r async_sink \<Rightarrow> bool" where
  "sink_effect cfg t s s' \<longleftrightarrow>
     owner_effect t s s' \<and> record_effect cfg t s s' \<and> mutex_effect t s s' \<and>
     ((\<forall>u \<in> set (sk_thread_contexts s). waiting_for_space (sk_stage s u)) \<longrightarrow> context_effect cfg t s s')"

lemmas effect_defs = sink_effect_def owner_effect_def record_effect_def mutex_effect_def context_effect_def

lemma owning_after_feeding [simp]: "owning (after_feeding f) = Some f"
  by (simp add: after_feeding_def)

lemma flush_effect:
  assumes "sk_frontend_mutex s = None" "sk_stage s t \<in> {Outside, Flush_Wait, Start f}"
  shows "sink_effect cfg t s (flush t s)" "sink_effect cfg t s (flush_wait t s)"
    "sink_effect cfg t s (start_feeding_operation t f s)"
  using assms
  by (auto simp: effect_defs flush_def flush_wait_def start_flushing_def start_feeding_operation_def operation_of_def)

lemma enqueue_effect:
  assumes "sk_stage s t = Enqueue r \<or> sk_stage s t = Overflow_Wait r \<and> t \<notin> set (sk_thread_contexts s)"
  shows "sink_effect cfg t s (enqueue cfg t r s)"
  using assms by (auto simp: effect_defs queue_defs split: overflow_strategy.split)

lemma resume_enqueue_effect:
  assumes "sk_stage s t = Overflow_Wait r"
  shows "sink_effect cfg t s (resume_enqueue cfg t r s)"
proof (cases "after_wait t s")
  case None
  then show ?thesis using assms by (simp add: resume_enqueue_def effect_defs)
next
  case (Some b)
  then have "t \<notin> set (sk_thread_contexts s)" by (simp add: after_wait_def split: if_splits)
  then show ?thesis
    using assms Some enqueue_effect [of s t r cfg]
    by (cases b) (simp add: resume_enqueue_def, simp add: resume_enqueue_def discard_def effect_defs)
qed

lemma flush_interrupt_effect:
  assumes "sk_stage s t = Flush_Interrupt"
  shows "sink_effect cfg t s (flush_wait t (interrupt_dequeue cfg (s\<lparr>sk_frontend_mutex := None\<rparr>)))"
proof -
  let ?s = "flush_wait t (interrupt_dequeue cfg (s\<lparr>sk_frontend_mutex := None\<rparr>))"
  have "owner_effect t s ?s" using assms by (simp add: owner_effect_def flush_wait_def start_flushing_def operation_of_def)
  moreover have "record_effect cfg t s ?s" using assms by (simp add: record_effect_def flush_wait_def start_flushing_def)
  moreover have "mutex_effect t s ?s" using assms by (simp add: mutex_effect_def flush_wait_def start_flushing_def)
  moreover have "sk_thread_contexts ?s = (if overflow cfg = Block_On_Overflow then [] else sk_thread_contexts s)"
    by (simp add: flush_wait_def start_flushing_def)
  then have "context_effect cfg t s ?s" if "t \<notin> set (sk_thread_contexts s)" using that by (simp add: context_effect_def)
  ultimately show ?thesis using assms by (force simp: sink_effect_def)
qed

lemma start_call_effect:
  assumes "start_call c t s = Some s'" "sk_stage s t = Outside"
  shows "sink_effect cfg t s s'"
proof (cases c)
  case Call_Flush
  then show ?thesis using assms flush_effect(1) [of s t Run cfg] by (simp add: locked_def split: if_splits)
qed (use assms in \<open>auto simp: locked_def effect_defs split: if_splits\<close>)

lemma feed_step_effect:
  assumes "feed_step cfg ok t g s = Some s'" "sk_stage s t = g"
  shows "sink_effect cfg t s s'"
  using assms
  by (cases g) (auto simp: locked_def effect_defs after_feeding_def try_dequeue_ready_def try_dequeue_def split: if_splits list.splits)

lemma async_step_effect:
  assumes "async_step cfg (t, c) s = Some s'"
  shows "sink_effect cfg t s s'"
proof (cases "sk_stage s t = Outside")
  case True
  then show ?thesis using assms start_call_effect by (simp add: async_step_def)
next
  case False
  with assms obtain ok where c: "c = Proceed ok" by (cases c) (simp_all add: async_step_def)
  show ?thesis
  proof (cases "sk_stage s t")
    case (Overflow_Wait r)
    then show ?thesis
      using assms c resume_enqueue_effect by (auto simp: async_step_def)
  next
    case Run_Dequeue
    then show ?thesis
      using assms c
      by (auto simp: async_step_def dequeue_ready_def try_dequeue_def effect_defs split: if_splits list.splits)
  next
    case (Complete f)
    then show ?thesis
      using assms c by (auto simp: async_step_def locked_def complete_feeding_operation_def effect_defs split: if_splits)
  next
    case Flush_Interrupt
    then show ?thesis
      using assms c flush_interrupt_effect [of s t cfg] by (auto simp: async_step_def)
  next
    case (Start f)
    then show ?thesis using assms c flush_effect(3) [of s t f cfg] by (simp add: async_step_def locked_def split: if_splits)
  next
    case Flush_Wait
    then show ?thesis using assms c flush_effect(2) [of s t _ cfg] by (simp add: async_step_def locked_def split: if_splits)
  next
    case (Try_Enqueue r)
    then have "sink_effect cfg t s (go t Outside (snd (try_enqueue cfg ok r s)))"
      by (clarsimp simp: effect_defs try_enqueue_def push_record_view_def)
    then show ?thesis using assms c Try_Enqueue by (auto simp: async_step_def)
  next
    case Stop_Interrupt
    then have "t \<notin> set (sk_thread_contexts s)" if "\<forall>u \<in> set (sk_thread_contexts s). waiting_for_space (sk_stage s u)"
      using that by force
    then show ?thesis using assms c Stop_Interrupt by (clarsimp simp: async_step_def effect_defs)
  next
    case (Enqueue r)
    then show ?thesis using assms c enqueue_effect [of s t r cfg] by (auto simp: async_step_def)
  qed ((use assms c feed_step_effect [of cfg ok t "sk_stage s t" s s'] in
      \<open>simp add: async_step_def del: feed_step.simps; fail\<close>) |
    (use assms c False in \<open>clarsimp simp: async_step_def locked_def effect_defs split: if_splits; fail\<close>))+
qed

end
