(* ===== verification/Async_Sink_Properties.thy ===== *)
theory Async_Sink_Properties
  imports Async_Sink_Steps
begin

text \<open>
  Correctness of the asynchronous sink: its states are well-formed, records are delivered once and in order, and a
  race between \<open>flush\<close> and \<open>stop\<close> that leaves threads waiting.
\<close>

section \<open>Invariants\<close>

text \<open>
  Well-formed states: one thread feeds records exactly when an operation is active, and it is in a function for this
  operation; the mutex is held by the thread that is inside a critical section; the queue does not exceed its capacity;
  the threads in the list of contexts are different and wait for space.
\<close>

definition sink_wf :: "queue_config \<Rightarrow> 'r async_sink \<Rightarrow> bool" where
  "sink_wf cfg s \<longleftrightarrow>
     (\<forall>t f. owning (sk_stage s t) = Some f \<longrightarrow> sk_active_operation s = operation_of f) \<and>
     (\<forall>t u. owning (sk_stage s t) \<noteq> None \<longrightarrow> owning (sk_stage s u) \<noteq> None \<longrightarrow> t = u) \<and>
     (sk_active_operation s \<noteq> Idle \<longrightarrow> (\<exists>t. owning (sk_stage s t) \<noteq> None)) \<and>
     (\<forall>t. sk_frontend_mutex s = Some t \<longleftrightarrow> interrupting (sk_stage s t)) \<and>
     length (sk_queue s) \<le> max_queue_size cfg \<and>
     distinct (sk_thread_contexts s) \<and> (\<forall>t \<in> set (sk_thread_contexts s). waiting_for_space (sk_stage s t)) \<and>
     (overflow cfg = Drop_On_Overflow \<longrightarrow> sk_thread_contexts s = [])"

text \<open>The records that were put into the queue are those that were fed, the one that is being fed and the queue.\<close>

definition sink_ordered :: "'r async_sink \<Rightarrow> bool" where
  "sink_ordered s \<longleftrightarrow>
     (\<forall>t. owning (sk_stage s t) \<noteq> None \<longrightarrow> sk_accepted s = sk_fed s @ held (sk_stage s t) @ sk_queue s) \<and>
     ((\<forall>t. owning (sk_stage s t) = None) \<longrightarrow> sk_accepted s = sk_fed s @ sk_queue s)"

lemma operation_of_not_Idle [simp]: "operation_of f \<noteq> Idle"
  by (simp add: operation_of_def)

lemma held_owning: "held g \<noteq> [] \<Longrightarrow> owning g \<noteq> None"
  by (cases g) simp_all

text \<open>The threads that feed records before and after a step.\<close>

lemma owner_step:
  assumes "owner_effect t s s'"
    and "\<forall>t f. owning (sk_stage s t) = Some f \<longrightarrow> sk_active_operation s = operation_of f"
    and "\<forall>t u. owning (sk_stage s t) \<noteq> None \<longrightarrow> owning (sk_stage s u) \<noteq> None \<longrightarrow> t = u"
    and "sk_active_operation s \<noteq> Idle \<longrightarrow> (\<exists>t. owning (sk_stage s t) \<noteq> None)"
  shows "\<forall>t f. owning (sk_stage s' t) = Some f \<longrightarrow> sk_active_operation s' = operation_of f"
    "\<forall>t u. owning (sk_stage s' t) \<noteq> None \<longrightarrow> owning (sk_stage s' u) \<noteq> None \<longrightarrow> t = u"
    "sk_active_operation s' \<noteq> Idle \<longrightarrow> (\<exists>t. owning (sk_stage s' t) \<noteq> None)"
proof -
  have st: "sk_stage s' u = sk_stage s u" if "u \<noteq> t" for u using assms(1) that by (simp add: owner_effect_def)
  consider (keeps) "owning (sk_stage s' t) = owning (sk_stage s t)" "sk_active_operation s' = sk_active_operation s"
    | (starts) f where "owning (sk_stage s t) = None" "sk_active_operation s = Idle" "owning (sk_stage s' t) = Some f"
      "sk_active_operation s' = operation_of f"
    | (completes) "owning (sk_stage s t) \<noteq> None" "owning (sk_stage s' t) = None" "sk_active_operation s' = Idle"
    using assms(1) by (auto simp: owner_effect_def)
  then have all: "(\<forall>v f. owning (sk_stage s' v) = Some f \<longrightarrow> sk_active_operation s' = operation_of f) \<and>
    (\<forall>v u. owning (sk_stage s' v) \<noteq> None \<longrightarrow> owning (sk_stage s' u) \<noteq> None \<longrightarrow> v = u) \<and>
    (sk_active_operation s' \<noteq> Idle \<longrightarrow> (\<exists>v. owning (sk_stage s' v) \<noteq> None))"
  proof cases
    case keeps
    then have "owning (sk_stage s' u) = owning (sk_stage s u)" for u using st by (cases "u = t") simp_all
    then show ?thesis using keeps(2) assms(2-4) by simp
  next
    case (starts f)
    then have "owning (sk_stage s u) = None" for u using assms(2) by (metis not_None_eq operation_of_not_Idle)
    then have "owning (sk_stage s' u) = (if u = t then Some f else None)" for u using st starts(3) by (cases "u = t") simp_all
    then show ?thesis using starts(4) by auto
  next
    case completes
    then have "owning (sk_stage s' u) = None" for u using st assms(3) by (cases "u = t") auto
    then show ?thesis using completes(3) by simp
  qed
  then show "\<forall>t f. owning (sk_stage s' t) = Some f \<longrightarrow> sk_active_operation s' = operation_of f"
    "\<forall>t u. owning (sk_stage s' t) \<noteq> None \<longrightarrow> owning (sk_stage s' u) \<noteq> None \<longrightarrow> t = u"
    "sk_active_operation s' \<noteq> Idle \<longrightarrow> (\<exists>t. owning (sk_stage s' t) \<noteq> None)"
    by blast+
qed

lemma mutex_step:
  assumes "mutex_effect t s s'" "\<forall>u. u \<noteq> t \<longrightarrow> sk_stage s' u = sk_stage s u"
    and "\<forall>u. sk_frontend_mutex s = Some u \<longleftrightarrow> interrupting (sk_stage s u)"
  shows "sk_frontend_mutex s' = Some u \<longleftrightarrow> interrupting (sk_stage s' u)"
  using assms by (cases "u = t") (auto simp: mutex_effect_def split: if_splits, metis option.inject)

lemma context_step:
  assumes "context_effect cfg t s s'" "\<forall>u. u \<noteq> t \<longrightarrow> sk_stage s' u = sk_stage s u"
    and "distinct (sk_thread_contexts s)" "\<forall>u \<in> set (sk_thread_contexts s). waiting_for_space (sk_stage s u)"
    and "overflow cfg = Drop_On_Overflow \<longrightarrow> sk_thread_contexts s = []"
  shows "distinct (sk_thread_contexts s')" "\<forall>u \<in> set (sk_thread_contexts s'). waiting_for_space (sk_stage s' u)"
    "overflow cfg = Drop_On_Overflow \<longrightarrow> sk_thread_contexts s' = []"
proof -
  have sub: "set (tl (sk_thread_contexts s)) \<subseteq> set (sk_thread_contexts s)" by (cases "sk_thread_contexts s") auto
  show "distinct (sk_thread_contexts s')" using assms(1,3) by (auto simp: context_effect_def distinct_tl)
  show "\<forall>u \<in> set (sk_thread_contexts s'). waiting_for_space (sk_stage s' u)"
  proof
    fix u assume "u \<in> set (sk_thread_contexts s')"
    then show "waiting_for_space (sk_stage s' u)" using assms(1,2,4) sub by (cases "u = t") (auto simp: context_effect_def)
  qed
  show "overflow cfg = Drop_On_Overflow \<longrightarrow> sk_thread_contexts s' = []" using assms(1,5) by (simp add: context_effect_def)
qed

lemma capacity_step:
  assumes "record_effect cfg t s s'" "length (sk_queue s) \<le> max_queue_size cfg"
  shows "length (sk_queue s') \<le> max_queue_size cfg"
proof -
  obtain put taken where e: "sk_queue s @ put = taken @ sk_queue s'"
    "put = [] \<or> length (sk_queue s) < max_queue_size cfg \<and> length put = 1"
    using assms(1) by (auto simp: record_effect_def)
  then have "length (sk_queue s') \<le> length (sk_queue s) + length put" by (metis le_add2 length_append)
  then show ?thesis using e(2) assms(2) by auto
qed

lemma sink_wf_step:
  assumes "async_step cfg tc s = Some s'" "sink_wf cfg s"
  shows "sink_wf cfg s'"
proof -
  obtain t c where "tc = (t, c)" by (cases tc)
  then have e: "sink_effect cfg t s s'" using assms(1) async_step_effect by simp
  note wf = assms(2) [unfolded sink_wf_def]
  have o: "owner_effect t s s'" and r: "record_effect cfg t s s'" and m: "mutex_effect t s s'" and c: "context_effect cfg t s s'"
    using e wf by (simp_all add: sink_effect_def)
  then have st: "\<forall>u. u \<noteq> t \<longrightarrow> sk_stage s' u = sk_stage s u" by (simp add: owner_effect_def)
  have w: "\<forall>t f. owning (sk_stage s t) = Some f \<longrightarrow> sk_active_operation s = operation_of f"
    "\<forall>t u. owning (sk_stage s t) \<noteq> None \<longrightarrow> owning (sk_stage s u) \<noteq> None \<longrightarrow> t = u"
    "sk_active_operation s \<noteq> Idle \<longrightarrow> (\<exists>t. owning (sk_stage s t) \<noteq> None)"
    "\<forall>t. sk_frontend_mutex s = Some t \<longleftrightarrow> interrupting (sk_stage s t)" "length (sk_queue s) \<le> max_queue_size cfg"
    "distinct (sk_thread_contexts s)" "\<forall>t \<in> set (sk_thread_contexts s). waiting_for_space (sk_stage s t)"
    "overflow cfg = Drop_On_Overflow \<longrightarrow> sk_thread_contexts s = []"
    using wf by simp_all
  show ?thesis
    unfolding sink_wf_def
    by (intro conjI allI owner_step [OF o w(1-3)] mutex_step [OF m st w(4)] context_step [OF c st w(6-8)] capacity_step [OF r w(5)])
qed

lemma sink_ordered_step:
  assumes "async_step cfg tc s = Some s'" "sink_wf cfg s" "sink_ordered s"
  shows "sink_ordered s'"
proof -
  obtain t c where tc: "tc = (t, c)" by (cases tc)
  have e: "owner_effect t s s'" "record_effect cfg t s s'"
    using async_step_effect [OF assms(1) [unfolded tc]] by (simp_all add: sink_effect_def)
  then obtain put taken where r: "sk_queue s @ put = taken @ sk_queue s'" "sk_accepted s' = sk_accepted s @ put"
    "sk_fed s' @ held (sk_stage s' t) = sk_fed s @ held (sk_stage s t) @ taken" "taken = [] \<or> owning (sk_stage s t) \<noteq> None"
    by (auto simp: record_effect_def)
  have st: "sk_stage s' u = sk_stage s u" if "u \<noteq> t" for u using e(1) that by (simp add: owner_effect_def)
  have one: "v = u" if "owning (sk_stage s v) \<noteq> None" "owning (sk_stage s u) \<noteq> None" for u v
    using assms(2) that unfolding sink_wf_def by blast
  have one': "v = u" if "owning (sk_stage s' v) \<noteq> None" "owning (sk_stage s' u) \<noteq> None" for u v
    using sink_wf_step [OF assms(1,2)] that unfolding sink_wf_def by blast
  have own: "sk_accepted s = sk_fed s @ held (sk_stage s t) @ sk_queue s" if "\<And>u. u \<noteq> t \<Longrightarrow> owning (sk_stage s u) = None"
  proof (cases "owning (sk_stage s t)")
    case None
    then have "sk_accepted s = sk_fed s @ sk_queue s" using assms(3) that unfolding sink_ordered_def by metis
    then show ?thesis using held_owning [of "sk_stage s t"] None by auto
  next
    case (Some f)
    then show ?thesis using assms(3) by (simp add: sink_ordered_def)
  qed
  have step: "sk_accepted s' = sk_fed s' @ held (sk_stage s' t) @ sk_queue s'" if "\<And>u. u \<noteq> t \<Longrightarrow> owning (sk_stage s u) = None"
    using own [OF that] r(1-3) by (metis append.assoc)
  show ?thesis
    unfolding sink_ordered_def
  proof (intro conjI allI impI)
    fix u assume u: "owning (sk_stage s' u) \<noteq> None"
    show "sk_accepted s' = sk_fed s' @ held (sk_stage s' u) @ sk_queue s'"
    proof (cases "u = t")
      case True
      then show ?thesis using step one' u st by (metis not_None_eq)
    next
      case False
      then have "owning (sk_stage s u) \<noteq> None" "owning (sk_stage s t) = None" "owning (sk_stage s' t) = None"
        using u st one one' by metis+
      then have "sk_accepted s = sk_fed s @ held (sk_stage s u) @ sk_queue s" "held (sk_stage s t) = []"
        "held (sk_stage s' t) = []" "taken = []"
        using assms(3) held_owning r(4) unfolding sink_ordered_def by blast+
      then show ?thesis using r(1-3) st [OF False] by simp
    qed
  next
    assume none: "\<forall>u. owning (sk_stage s' u) = None"
    then have "held (sk_stage s' t) = []" using held_owning by blast
    moreover have "owning (sk_stage s u) = None" if "u \<noteq> t" for u using none st [OF that] by metis
    ultimately show "sk_accepted s' = sk_fed s' @ sk_queue s'" using step by simp
  qed
qed

lemma async_run_invariant:
  assumes "async_run cfg tcs s = Some s'" "I s"
    and "\<And>tc s s'. tc \<in> set tcs \<Longrightarrow> async_step cfg tc s = Some s' \<Longrightarrow> I s \<Longrightarrow> I s'"
  shows "I s'"
  using assms
proof (induction tcs arbitrary: s)
  case (Cons tc tcs)
  then obtain s1 where "async_step cfg tc s = Some s1" "async_run cfg tcs s1 = Some s'" by (auto split: option.splits)
  then show ?case using Cons.IH [of s1] Cons.prems(2,3) by (metis list.set_intros(1,2))
qed simp

lemma new_async_sink_ok: "sink_wf cfg new_async_sink" "sink_ordered new_async_sink"
  by (simp_all add: new_async_sink_def sink_wf_def sink_ordered_def)

text \<open>Without calls of \<open>flush\<close> and \<open>stop\<close> no wait of a thread is interrupted.\<close>

definition undisturbed :: "'r choice \<Rightarrow> bool" where
  "undisturbed c \<longleftrightarrow> c \<noteq> Call_Flush \<and> c \<noteq> Call_Stop"

definition no_interrupts :: "'r async_sink \<Rightarrow> bool" where
  "no_interrupts s \<longleftrightarrow>
     (\<forall>t. \<not> interrupting (sk_stage s t) \<and> sk_context_result s t) \<and> sk_discarded s = []"

lemma no_interrupts_enqueue:
  "overflow cfg = Block_On_Overflow \<Longrightarrow> no_interrupts s \<Longrightarrow> no_interrupts (enqueue cfg t r s)"
  by (simp add: no_interrupts_def queue_defs)

lemma no_interrupts_dequeue:
  "try_dequeue cfg s = (x, s1) \<Longrightarrow> no_interrupts s \<Longrightarrow> no_interrupts s1"
  by (auto simp: no_interrupts_def try_dequeue_def on_queue_space_available_def
      split: list.splits overflow_strategy.splits)

lemma no_interrupts_go: "no_interrupts s \<Longrightarrow> \<not> interrupting g \<Longrightarrow> no_interrupts (go t g s)"
  by (simp add: no_interrupts_def)

lemma no_interrupts_update [simp]:
  "no_interrupts (s\<lparr>sk_active_operation := x\<rparr>) = no_interrupts s" "no_interrupts (s\<lparr>sk_stop_requested := b\<rparr>) = no_interrupts s"
  "no_interrupts (s\<lparr>sk_flush_requested := b\<rparr>) = no_interrupts s" "no_interrupts (s\<lparr>sk_fed := rs\<rparr>) = no_interrupts s"
  "no_interrupts (s\<lparr>sk_interruption_requested := b\<rparr>) = no_interrupts s"
  by (simp_all add: no_interrupts_def)

lemma no_interrupts_feed_step:
  assumes "feed_step cfg ok t g s = Some s'" "no_interrupts s"
  shows "no_interrupts s'"
  using assms
  by (cases g)
    (auto simp: locked_def after_feeding_def try_dequeue_ready_def dest: no_interrupts_dequeue split: if_splits option.splits prod.splits
      intro!: no_interrupts_go)

lemma no_interrupts_step:
  assumes "async_step cfg (t, c) s = Some s'" "undisturbed c" "overflow cfg = Block_On_Overflow" "no_interrupts s"
  shows "no_interrupts s'"
proof (cases "sk_stage s t = Outside")
  case True
  then show ?thesis
    using assms by (cases c) (auto simp: async_step_def undisturbed_def intro!: no_interrupts_go)
next
  case False
  with assms obtain ok where c: "c = Proceed ok" by (cases c) (simp_all add: async_step_def)
  have ni: "\<not> interrupting (sk_stage s t)" using assms(4) by (simp add: no_interrupts_def)
  show ?thesis
  proof (cases "sk_stage s t")
    case (Overflow_Wait r)
    then show ?thesis
      using assms c no_interrupts_enqueue [OF assms(3,4)]
      by (auto simp: async_step_def resume_enqueue_def after_wait_def no_interrupts_def split: if_splits bool.splits)
  next
    case (Try_Enqueue r)
    have "no_interrupts (snd (try_enqueue cfg ok r s))"
      using assms(4) by (simp add: try_enqueue_def push_record_view_def no_interrupts_def)
    then show ?thesis using assms c Try_Enqueue by (auto simp: async_step_def intro!: no_interrupts_go)
  next
    case Run_Dequeue
    then show ?thesis
      using assms c
      by (auto simp: async_step_def dequeue_ready_def dest: no_interrupts_dequeue split: if_splits option.splits prod.splits
          intro!: no_interrupts_go)
  qed ((use assms c no_interrupts_feed_step [of cfg ok t "sk_stage s t" s s'] in
      \<open>simp add: async_step_def del: feed_step.simps; fail\<close>) |
    (use assms c ni False no_interrupts_enqueue [OF assms(3,4)] in \<open>auto simp: async_step_def locked_def
      start_feeding_operation_def complete_feeding_operation_def flush_wait_def start_flushing_def
      split: if_splits intro!: no_interrupts_go; fail\<close>))+
qed

section \<open>A flush that does not end\<close>

text \<open>
  A thread waits in \<open>flush\<close> while no thread feeds records or is about to, and no stop is requested. The other threads log
  records or wait as well.
\<close>

fun not_feeding :: "'r stage \<Rightarrow> bool" where
  "not_feeding (Start f) = False"
| "not_feeding Flush_Interrupt = False"
| "not_feeding Stop_Interrupt = False"
| "not_feeding g = (owning g = None)"

definition abandoned_flush :: "thread \<Rightarrow> 'r async_sink \<Rightarrow> bool" where
  "abandoned_flush t s \<longleftrightarrow>
     sk_stage s t = Flush_Wait \<and> sk_flush_requested s \<and> \<not> sk_stop_requested s \<and> (\<forall>u. not_feeding (sk_stage s u))"

definition logging :: "'r choice \<Rightarrow> bool" where
  "logging c \<longleftrightarrow> c \<notin> {Call_Run, Call_Feed_Records, Call_Flush, Call_Stop}"

lemma not_feeding_enqueue_stage [simp]: "not_feeding (enqueue_stage cfg r s)"
  by (simp add: enqueue_stage_def)

lemma abandoned_flush_step:
  assumes "async_step cfg (u, c) s = Some s'" "logging c" "abandoned_flush t s"
  shows "abandoned_flush t s' \<and> sk_fed s' = sk_fed s \<and> (sk_stage s v = Consume_Wait r \<longrightarrow> sk_stage s' v = Consume_Wait r)"
proof (cases "sk_stage s u = Outside")
  case True
  then show ?thesis using assms by (cases c) (auto simp: async_step_def logging_def abandoned_flush_def)
next
  case False
  with assms(1) obtain ok where c: "c = Proceed ok" by (cases c) (simp_all add: async_step_def)
  have nf: "not_feeding (sk_stage s u)" using assms(3) by (simp add: abandoned_flush_def)
  show ?thesis
  proof (cases "sk_stage s u")
    case (Overflow_Wait r')
    then show ?thesis
      using assms(1,3) c by (auto simp: async_step_def resume_enqueue_stage abandoned_flush_def split: option.split)
  next
    case Flush_Wait
    then show ?thesis
      using assms(1,3) c by (auto simp: async_step_def locked_def flush_wait_def abandoned_flush_def split: if_splits)
  qed (use assms(1,3) c nf False in \<open>auto simp: async_step_def locked_def enqueue_stage abandoned_flush_def
      split: if_splits\<close>)
qed

section \<open>Properties\<close>

text \<open>
  C31. Every reachable state of the sink is well-formed, whatever the threads call and however they interleave: at most
  one thread feeds records, exactly when an operation is active; the queue is within its capacity; the threads that wait
  for space are registered once.
\<close>

theorem async_sink_well_formed:
  assumes "async_run cfg schedule new_async_sink = Some s"
  shows "sink_wf cfg s"
  by (rule async_run_invariant [where I = "sink_wf cfg", OF assms new_async_sink_ok(1)]) (rule sink_wf_step)

text \<open>
  C30. Records are delivered once and in order: those that were put into the queue are those that the backend got, at
  most one that is about to be passed to it, and those in the queue, in this order. With the blocking strategy no
  record is discarded as long as neither \<open>flush\<close> nor \<open>stop\<close> is called.
\<close>

theorem async_sink_delivers_in_order:
  assumes "async_run cfg schedule new_async_sink = Some s"
  shows "\<exists>current. sk_accepted s = sk_fed s @ current @ sk_queue s \<and> length current \<le> 1 \<and>
    length (sk_queue s) \<le> max_queue_size cfg \<and>
    (overflow cfg = Block_On_Overflow \<and> list_all (\<lambda>tc. undisturbed (snd tc)) schedule \<longrightarrow> sk_discarded s = [])"
proof -
  have inv: "sink_wf cfg s \<and> sink_ordered s"
    by (rule async_run_invariant [OF assms]) (auto simp: new_async_sink_ok intro: sink_wf_step sink_ordered_step)
  have "\<exists>current. sk_accepted s = sk_fed s @ current @ sk_queue s \<and> length current \<le> 1"
  proof (cases "\<exists>t. owning (sk_stage s t) \<noteq> None")
    case True
    then obtain t where "sk_accepted s = sk_fed s @ held (sk_stage s t) @ sk_queue s" using inv by (auto simp: sink_ordered_def)
    moreover have "length (held (sk_stage s t)) \<le> 1" by (cases "sk_stage s t") simp_all
    ultimately show ?thesis by blast
  next
    case False
    then show ?thesis using inv by (intro exI [of _ "[]"]) (simp add: sink_ordered_def)
  qed
  moreover have "sk_discarded s = []"
    if "overflow cfg = Block_On_Overflow" "list_all (\<lambda>tc. undisturbed (snd tc)) schedule"
  proof -
    have "no_interrupts s"
    proof (rule async_run_invariant [OF assms])
      show "no_interrupts new_async_sink" by (simp add: no_interrupts_def new_async_sink_def)
      show "no_interrupts s2" if "tc \<in> set schedule" "async_step cfg tc s1 = Some s2" "no_interrupts s1" for tc s1 s2
        using that no_interrupts_step [of cfg "fst tc" "snd tc" s1 s2] \<open>list_all _ _\<close> \<open>overflow cfg = _\<close> by (auto simp: list_all_iff)
    qed
    then show ?thesis by (simp add: no_interrupts_def)
  qed
  ultimately show ?thesis using inv by (auto simp: sink_wf_def)
qed

text \<open>
  C32. When \<open>stop\<close> ends the feeding thread just after a flush was requested, the flag of the flush stays set while no
  thread feeds records: then the thread in \<open>flush\<close> and those in \<open>consume\<close> that wait for the end of the flush do so
  for ever, and no record is fed, unless some thread starts another feeding operation or stops the sink again.
\<close>

theorem flush_waits_forever:
  assumes "abandoned_flush t s" "async_run cfg schedule s = Some s'" "list_all (\<lambda>tc. logging (snd tc)) schedule"
  shows "sk_stage s' t = Flush_Wait \<and> sk_fed s' = sk_fed s \<and>
    (\<forall>u r. sk_stage s u = Consume_Wait r \<longrightarrow> sk_stage s' u = Consume_Wait r)"
proof -
  have "abandoned_flush t s' \<and> sk_fed s' = sk_fed s \<and>
      (\<forall>u r. sk_stage s u = Consume_Wait r \<longrightarrow> sk_stage s' u = Consume_Wait r)"
  proof (rule async_run_invariant [OF assms(2)])
    fix tc s1 s2
    assume "tc \<in> set schedule" and step: "async_step cfg tc s1 = Some s2"
      and I: "abandoned_flush t s1 \<and> sk_fed s1 = sk_fed s \<and>
        (\<forall>u r. sk_stage s u = Consume_Wait r \<longrightarrow> sk_stage s1 u = Consume_Wait r)"
    then have "logging (snd tc)" using assms(3) by (simp add: list_all_iff)
    with abandoned_flush_step [of cfg "fst tc" "snd tc" s1 s2 t] step I
    show "abandoned_flush t s2 \<and> sk_fed s2 = sk_fed s \<and>
        (\<forall>u r. sk_stage s u = Consume_Wait r \<longrightarrow> sk_stage s2 u = Consume_Wait r)" by simp
  qed (use assms(1) in simp)
  then show ?thesis by (simp add: abandoned_flush_def)
qed

section \<open>Witnesses\<close>

text \<open>
  Thread 0 runs the feeding loop of a sink with room for one record. Thread 3 logs \<open>1\<close>, thread 4 logs \<open>2\<close> and waits for
  space, until the first record is fed; the second one is then about to be fed.
\<close>

definition demo_sink_config :: queue_config where
  "demo_sink_config = \<lparr>max_queue_size = 1, overflow = Block_On_Overflow\<rparr>"

definition demo_start :: "(thread \<times> nat choice) list" where
  "demo_start = (0, Call_Run) # replicate 5 (0, Proceed True)"

definition demo_blocked :: "(thread \<times> nat choice) list" where
  "demo_blocked = demo_start @
     [(3, Call_Consume 1), (3, Proceed True), (3, Proceed True), (4, Call_Consume 2), (4, Proceed True), (4, Proceed True)]"

definition demo_delivery :: "(thread \<times> nat choice) list" where
  "demo_delivery = demo_blocked @ replicate 4 (0, Proceed True) @ [(4, Proceed True)] @ replicate 2 (0, Proceed True)"

lemma demo_delivery_run:
  "map_option (\<lambda>s. (sk_accepted s, sk_fed s, sk_queue s)) (async_run demo_sink_config demo_delivery new_async_sink) = Some ([1, 2], [1], [])"
  by code_simp

theorem async_sink_well_formed_witness:
  "\<exists>s. async_run demo_sink_config demo_delivery new_async_sink = Some s \<and> sk_accepted s = [1, 2] \<and> sink_wf demo_sink_config s"
  using demo_delivery_run async_sink_well_formed [of demo_sink_config demo_delivery] by (auto simp: map_option_case split: option.splits)

theorem async_sink_delivers_in_order_witness:
  "\<exists>s. async_run demo_sink_config demo_delivery new_async_sink = Some s \<and> sk_fed s = [1] \<and> sk_queue s = [] \<and>
     sk_accepted s = sk_fed s @ [2] @ sk_queue s \<and> sk_discarded s = []"
proof -
  obtain s where s: "async_run demo_sink_config demo_delivery new_async_sink = Some s" "sk_accepted s = [1, 2]" "sk_fed s = [1]" "sk_queue s = []"
    using demo_delivery_run by (auto simp: map_option_case split: option.splits)
  have "list_all (\<lambda>tc. undisturbed (snd tc)) demo_delivery"
    by (simp add: demo_delivery_def demo_blocked_def demo_start_def undisturbed_def list_all_iff)
  with async_sink_delivers_in_order [OF s(1)] have "sk_discarded s = []" by (auto simp: demo_sink_config_def)
  then show ?thesis using s by simp
qed

text \<open>Thread 1 calls \<open>flush\<close> and thread 2 calls \<open>stop\<close> before thread 0 looks at the stop flag.\<close>

definition demo_race :: "(thread \<times> nat choice) list" where
  "demo_race = demo_start @
     [(1, Call_Flush), (1, Proceed True), (2, Call_Stop), (2, Proceed True), (0, Proceed True), (0, Proceed True)]"

definition demo_abandoned :: "nat async_sink" where
  "demo_abandoned = new_async_sink
     \<lparr>sk_interruption_requested := True, sk_flush_requested := True, sk_stage := (\<lambda>_. Outside)(1 := Flush_Wait)\<rparr>"

definition demo_after :: "(thread \<times> nat choice) list" where
  "demo_after = [(3, Call_Consume 7), (3, Proceed True), (3, Proceed True), (1, Proceed True)]"

lemma demo_race_run:
  "async_run demo_sink_config demo_race new_async_sink = Some demo_abandoned"
  by (simp add: demo_race_def demo_abandoned_def demo_start_def demo_sink_config_def numeral_eq_Suc async_step_def new_async_sink_def locked_def go_def
      start_feeding_operation_def operation_of_def try_dequeue_ready_def try_dequeue_def after_feeding_def flush_def flush_wait_def
      interrupt_dequeue_def interrupt_waits_def complete_feeding_operation_def fun_eq_iff)

lemma demo_after_run:
  "map_option (\<lambda>s. (sk_stage s 3, sk_accepted s)) (async_run demo_sink_config demo_after demo_abandoned) = Some (Consume_Wait 7, [])"
  by code_simp

theorem flush_waits_forever_witness:
  "async_run demo_sink_config demo_race new_async_sink = Some demo_abandoned \<and> abandoned_flush 1 demo_abandoned \<and>
   (\<exists>s. async_run demo_sink_config demo_after demo_abandoned = Some s \<and> sk_stage s 1 = Flush_Wait \<and> sk_fed s = [])"
proof -
  have a: "abandoned_flush 1 demo_abandoned"
    by (simp add: abandoned_flush_def demo_abandoned_def new_async_sink_def)
  moreover obtain s where s: "async_run demo_sink_config demo_after demo_abandoned = Some s"
    using demo_after_run by (auto simp: map_option_case split: option.splits)
  moreover have "list_all (\<lambda>tc. logging (snd tc)) demo_after" by (simp add: demo_after_def logging_def)
  moreover have "sk_fed demo_abandoned = []" by (simp add: demo_abandoned_def new_async_sink_def)
  ultimately show ?thesis using demo_race_run flush_waits_forever [OF a s] by simp
qed

text \<open>
  A flush discards the records of the threads that wait for space: thread 4 waits with the record \<open>2\<close> when thread 1
  calls \<open>flush\<close>.
\<close>

lemma flush_discards_waiting_records:
  "map_option sk_discarded (async_run demo_sink_config
     (demo_blocked @ [(1, Call_Flush), (1, Proceed True), (4, Proceed True)]) new_async_sink) = Some [2]"
  by code_simp

end
