(* ===== verification/Char_Decorator.thy ===== *)
theory Char_Decorator
  imports Main
begin

text \<open>
  The character decorators of the formatters: strings are replaced by other strings in the part of the output that the
  decorated formatter wrote. The decorators for C, CSV and XML have fixed tables, and the one for C in ASCII also escapes
  every character that is not printable. The character type is \<open>char\<close>. The decorators for C, CSV and XML have the same
  tables for wide characters; the escapes of characters that are not printable have four or eight digits there, which
  are not modelled.
\<close>

section \<open>Replacing patterns\<close>

text \<open>\<open>str.find(s, pos, n)\<close>: the first position from \<open>pos\<close> on where the first \<open>n\<close> characters of \<open>s\<close> occur.\<close>

fun starts_with :: "string \<Rightarrow> string \<Rightarrow> bool" where
  "starts_with [] ys = True"
| "starts_with (x # xs) ys = (case ys of [] \<Rightarrow> False | y # ys \<Rightarrow> x = y \<and> starts_with xs ys)"

fun find_first :: "string \<Rightarrow> string \<Rightarrow> nat option" where
  "find_first s [] = (if s = [] then Some 0 else None)"
| "find_first s (c # cs) = (if starts_with s (c # cs) then Some 0 else map_option Suc (find_first s cs))"

definition find_string :: "string \<Rightarrow> string \<Rightarrow> nat \<Rightarrow> nat option" where
  "find_string str s pos = (if pos \<le> length str then map_option (\<lambda>i. pos + i) (find_first s (drop pos str)) else None)"

text \<open>\<open>str.replace(pos, n, s)\<close>.\<close>

definition replace_string :: "string \<Rightarrow> nat \<Rightarrow> nat \<Rightarrow> string \<Rightarrow> string" where
  "replace_string str pos n s = take pos str @ s @ drop (pos + n) str"

text \<open>
  The patterns and their replacements are kept in one string, one after the other, with a list of their lengths.
\<close>

record pattern_replacer =
  decoration_chars :: string
  string_lengths :: "(nat \<times> nat) list"

fun append_decorations :: "string list \<Rightarrow> string list \<Rightarrow> pattern_replacer \<Rightarrow> pattern_replacer" where
  "append_decorations (f # fs) (t # ts) r =
     append_decorations fs ts
       (r\<lparr>decoration_chars := decoration_chars r @ f @ t, string_lengths := string_lengths r @ [(length f, length t)]\<rparr>)"
| "append_decorations _ _ r = r"

definition new_pattern_replacer :: "string list \<Rightarrow> string list \<Rightarrow> pattern_replacer" where
  "new_pattern_replacer from to = append_decorations from to \<lparr>decoration_chars = [], string_lengths = []\<rparr>"

text \<open>The constructor from a sequence of pairs.\<close>

definition replacer_of_pairs :: "(string \<times> string) list \<Rightarrow> pattern_replacer" where
  "replacer_of_pairs decorations =
     fold (\<lambda>(f, t) r. r\<lparr>decoration_chars := decoration_chars r @ f @ t, string_lengths := string_lengths r @ [(length f, length t)]\<rparr>)
       decorations \<lparr>decoration_chars = [], string_lengths = []\<rparr>"

lemma replacer_of_pairs_eq: "replacer_of_pairs ds = new_pattern_replacer (map fst ds) (map snd ds)"
proof -
  have "fold (\<lambda>(f, t) r. r\<lparr>decoration_chars := decoration_chars r @ f @ t, string_lengths := string_lengths r @ [(length f, length t)]\<rparr>) ds r =
    append_decorations (map fst ds) (map snd ds) r" for r
    by (induction ds arbitrary: r) auto
  then show ?thesis by (simp add: replacer_of_pairs_def new_pattern_replacer_def)
qed

text \<open>The replacement of one pattern; the loop does not end for a pattern that is empty.\<close>

partial_function (option) replace_pattern :: "string \<Rightarrow> string \<Rightarrow> nat \<Rightarrow> string \<Rightarrow> string option" where
  "replace_pattern from to pos str =
     (case find_string str from pos of
        None \<Rightarrow> Some str
      | Some p \<Rightarrow> replace_pattern from to (p + length to) (replace_string str p (length from) to))"

fun replace_patterns :: "string \<Rightarrow> (nat \<times> nat) list \<Rightarrow> nat \<Rightarrow> string \<Rightarrow> string option" where
  "replace_patterns from_chars [] start_pos str = Some str"
| "replace_patterns from_chars ((from_len, to_len) # ls) start_pos str =
     (let to_chars = drop from_len from_chars
      in case replace_pattern (take from_len from_chars) (take to_len to_chars) start_pos str of
           None \<Rightarrow> None
         | Some str \<Rightarrow> replace_patterns (drop to_len to_chars) ls start_pos str)"

definition apply_replacer :: "pattern_replacer \<Rightarrow> string \<Rightarrow> nat \<Rightarrow> string option" where
  "apply_replacer r str start_pos = replace_patterns (decoration_chars r) (string_lengths r) start_pos str"

section \<open>The tables\<close>

definition c_patterns :: "string list" where
  "c_patterns =
     [[CHR 0x5C], [CHR 0x07], [CHR 0x08], [CHR 0x0C], [CHR 0x0A], [CHR 0x0D], [CHR 0x09], [CHR 0x0B], [CHR 0x27], [CHR 0x22], ''?'']"

definition c_replacements :: "string list" where
  "c_replacements = map (\<lambda>c. [CHR 0x5C, c]) [CHR 0x5C, CHR ''a'', CHR ''b'', CHR ''f'', CHR ''n'', CHR ''r'', CHR ''t'', CHR ''v'', CHR 0x27, CHR 0x22, CHR ''?'']"

definition csv_patterns :: "string list" where
  "csv_patterns = [[CHR 0x22]]"

definition csv_replacements :: "string list" where
  "csv_replacements = [[CHR 0x22, CHR 0x22]]"

definition xml_patterns :: "string list" where
  "xml_patterns = [''&'', ''<'', ''>'', [CHR 0x22], [CHR 0x27]]"

definition xml_replacements :: "string list" where
  "xml_replacements = [''&amp;'', ''&lt;'', ''&gt;'', ''&quot;'', ''&apos;'']"

definition c_decor :: "string \<Rightarrow> nat \<Rightarrow> string option" where
  "c_decor = apply_replacer (new_pattern_replacer c_patterns c_replacements)"

definition csv_decor :: "string \<Rightarrow> nat \<Rightarrow> string option" where
  "csv_decor = apply_replacer (new_pattern_replacer csv_patterns csv_replacements)"

definition xml_decor :: "string \<Rightarrow> nat \<Rightarrow> string option" where
  "xml_decor = apply_replacer (new_pattern_replacer xml_patterns xml_replacements)"

section \<open>C escapes in ASCII\<close>

text \<open>The output of \<open>snprintf\<close> for the format \<open>\x%.2X\<close>, four characters that fit into the buffer.\<close>

definition hex_upper :: "nat \<Rightarrow> char" where
  "hex_upper n = ''0123456789ABCDEF'' ! n"

definition print_escaped :: "char \<Rightarrow> string" where
  "print_escaped c = [CHR 0x5C, CHR ''x'', hex_upper (of_char c div 16), hex_upper (of_char c mod 16)]"

definition printable :: "char \<Rightarrow> bool" where
  "printable c \<longleftrightarrow> 0x20 \<le> (of_char c :: nat) \<and> (of_char c :: nat) \<le> 0x7E"

lemma hex_upper_printable:
  assumes "n < 16"
  shows "printable (hex_upper n)"
proof -
  have "n \<in> set [0, 1, 2, 3, 4, 5, 6, 7, 8, 9, 10, 11, 12, 13, 14, 15]" using assms by simp presburger
  then show ?thesis by (auto simp: hex_upper_def printable_def)
qed

lemma print_escaped_printable: "list_all printable (print_escaped c)"
proof -
  have "of_char c < (256 :: nat)" by (metis nat_of_char_less_256)
  then have "of_char c div 16 < (16 :: nat)" by (simp add: less_mult_imp_div_less)
  then show ?thesis by (simp add: print_escaped_def hex_upper_printable) (simp add: printable_def)
qed

lemma replace_unprintable:
  assumes "i < length str" "\<not> printable (str ! i)"
  shows "length (filter (\<lambda>c. \<not> printable c) (replace_string str i 1 (print_escaped (str ! i)))) <
    length (filter (\<lambda>c. \<not> printable c) str)"
proof -
  have "filter (\<lambda>c. \<not> printable c) (print_escaped (str ! i)) = []"
    using print_escaped_printable by (simp add: list_all_iff filter_empty_conv)
  moreover have "str = take i str @ str ! i # drop (Suc i) str" using assms(1) by (rule id_take_nth_drop)
  then have "filter (\<lambda>c. \<not> printable c) str = filter (\<lambda>c. \<not> printable c) (take i str) @ str ! i # filter (\<lambda>c. \<not> printable c) (drop (Suc i) str)"
    using assms(2) by (metis filter.simps(2) filter_append)
  ultimately show ?thesis by (simp add: replace_string_def)
qed

text \<open>
  The loop over the characters, with the iterator as an index. After a replacement the iterator is set relative to
  the beginning of the string, not to the position of the replaced character.
\<close>

function escape_loop :: "nat \<Rightarrow> string \<Rightarrow> string" where
  "escape_loop i str =
     (if i < length str
      then (if printable (str ! i) then escape_loop (i + 1) str
            else (let buf = print_escaped (str ! i); it = length buf - 1
                  in escape_loop (it + 1) (replace_string str i 1 buf)))
      else str)"
  by pat_completeness auto

termination
  by (relation "measures [\<lambda>(i, str). length (filter (\<lambda>c. \<not> printable c) str), \<lambda>(i, str). length str - i]")
    (simp_all add: replace_unprintable [simplified])

declare escape_loop.simps [simp del]

definition c_ascii_decor :: "string \<Rightarrow> nat \<Rightarrow> string option" where
  "c_ascii_decor str start_pos = map_option (escape_loop start_pos) (c_decor str start_pos)"

end
