(* ===== verification/Char_Decorator_Properties.thy ===== *)
theory Char_Decorator_Properties
  imports Char_Decorator
begin

text \<open>
  What the decorators make of a text: one pass per pattern over the tables of C, CSV and XML is the replacement of every
  character at once, which can be undone; and the exact result of the decorator for C in ASCII.
\<close>

section \<open>Replacing a character\<close>

definition subst_char :: "char \<Rightarrow> string \<Rightarrow> string \<Rightarrow> string" where
  "subst_char a t s = concat (map (\<lambda>c. if c = a then t else [c]) s)"

lemma subst_char_simps [simp]:
  "subst_char a t [] = []" "subst_char a t (c # s) = (if c = a then t else [c]) @ subst_char a t s"
  "subst_char a t (xs @ ys) = subst_char a t xs @ subst_char a t ys"
  by (simp_all add: subst_char_def)

lemma subst_char_other: "a \<notin> set s \<Longrightarrow> subst_char a t s = s"
  by (induction s) auto

lemma find_first_char:
  "find_first [a] s = (if a \<in> set s then Some (length (takeWhile (\<lambda>c. c \<noteq> a) s)) else None)"
  by (induction s) auto

lemma split_first_char:
  assumes "a \<in> set s"
  shows "s = takeWhile (\<lambda>c. c \<noteq> a) s @ a # tl (dropWhile (\<lambda>c. c \<noteq> a) s)"
proof -
  have "dropWhile (\<lambda>c. c \<noteq> a) s \<noteq> []" "hd (dropWhile (\<lambda>c. c \<noteq> a) s) = a" using assms by (induction s) auto
  then show ?thesis by (metis list.collapse takeWhile_dropWhile_id)
qed

lemma replace_pattern_char:
  "replace_pattern [a] t (length pre) (pre @ s) = Some (pre @ subst_char a t s)"
proof (induction "length s" arbitrary: pre s rule: less_induct)
  case less
  show ?case
  proof (cases "a \<in> set s")
    case False
    then show ?thesis by (subst replace_pattern.simps) (simp add: find_string_def find_first_char subst_char_other)
  next
    case True
    define u v where "u = takeWhile (\<lambda>c. c \<noteq> a) s" and "v = tl (dropWhile (\<lambda>c. c \<noteq> a) s)"
    have s: "s = u @ a # v" unfolding u_def v_def by (rule split_first_char [OF True])
    have u: "a \<notin> set u" unfolding u_def using set_takeWhileD by metis
    have "find_string (pre @ s) [a] (length pre) = Some (length (pre @ u))"
      using True by (simp add: find_string_def find_first_char u_def)
    moreover have "replace_string (pre @ s) (length (pre @ u)) (length [a]) t = (pre @ u @ t) @ v"
      by (simp add: replace_string_def s)
    ultimately have "replace_pattern [a] t (length pre) (pre @ s) = replace_pattern [a] t (length (pre @ u @ t)) ((pre @ u @ t) @ v)"
      by (subst replace_pattern.simps) (simp add: add.assoc)
    also have "\<dots> = Some ((pre @ u @ t) @ subst_char a t v)" by (rule less) (simp add: s)
    finally show ?thesis by (simp add: s subst_char_other [OF u])
  qed
qed

section \<open>Tables\<close>

text \<open>A table of characters with their replacements, applied one after the other and at once.\<close>

type_synonym escapes = "(char \<times> string) list"

definition escape :: "escapes \<Rightarrow> char \<Rightarrow> string" where
  "escape tbl c = (case map_of tbl c of Some t \<Rightarrow> t | None \<Rightarrow> [c])"

definition escaped :: "escapes \<Rightarrow> string \<Rightarrow> string" where
  "escaped tbl s = concat (map (escape tbl) s)"

lemma escaped_simps [simp]:
  "escaped tbl [] = []" "escaped tbl (c # s) = escape tbl c @ escaped tbl s"
  "escaped tbl (xs @ ys) = escaped tbl xs @ escaped tbl ys"
  by (simp_all add: escaped_def)

text \<open>The later entries leave the replacements of the earlier ones alone.\<close>

fun independent :: "escapes \<Rightarrow> bool" where
  "independent [] = True"
| "independent ((a, t) # tbl) = (list_all (\<lambda>(b, u). b \<noteq> a \<and> b \<notin> set t) tbl \<and> independent tbl)"

lemma escaped_fresh: "list_all (\<lambda>(b, u). b \<notin> set s) tbl \<Longrightarrow> escaped tbl s = s"
proof (induction s)
  case (Cons c s)
  have "map_of tbl c = None" using Cons.prems by (auto simp: map_of_eq_None_iff list_all_iff)
  then show ?case using Cons by (auto simp: escape_def list_all_iff)
qed simp

lemma escaped_subst:
  assumes "list_all (\<lambda>(b, u). b \<noteq> a \<and> b \<notin> set t) tbl"
  shows "escaped tbl (subst_char a t s) = escaped ((a, t) # tbl) s"
proof (induction s)
  case (Cons c s)
  have "escaped tbl t = t" using assms by (intro escaped_fresh) (auto simp: list_all_iff)
  then show ?case using Cons by (simp add: escape_def)
qed simp

definition table_replacer :: "escapes \<Rightarrow> string \<times> (nat \<times> nat) list" where
  "table_replacer tbl = (concat (map (\<lambda>(a, t). a # t) tbl), map (\<lambda>(a, t). (1, length t)) tbl)"

lemma replace_patterns_table:
  "independent tbl \<Longrightarrow>
   replace_patterns (fst (table_replacer tbl)) (snd (table_replacer tbl)) (length pre) (pre @ s) = Some (pre @ escaped tbl s)"
proof (induction tbl arbitrary: s)
  case Nil
  have "escaped [] s = s" by (induction s) (simp_all add: escape_def)
  then show ?case by (simp add: table_replacer_def)
next
  case (Cons e tbl)
  obtain a t where e: "e = (a, t)" by (cases e)
  have "replace_patterns (fst (table_replacer (e # tbl))) (snd (table_replacer (e # tbl))) (length pre) (pre @ s) =
    replace_patterns (fst (table_replacer tbl)) (snd (table_replacer tbl)) (length pre) (pre @ subst_char a t s)"
    by (simp add: e table_replacer_def replace_pattern_char)
  then show ?case using Cons e escaped_subst [of a t tbl s] by simp
qed

section \<open>Reading escaped text\<close>

fun unescape :: "escapes \<Rightarrow> string \<Rightarrow> string" where
  "unescape tbl [] = []"
| "unescape tbl (c # cs) =
     (case find (\<lambda>(a, t). starts_with t (c # cs)) tbl of
        None \<Rightarrow> c # unescape tbl cs
      | Some (a, t) \<Rightarrow> a # unescape tbl (drop (length t - 1) cs))"

text \<open>
  Tables whose escaped text can be read: no replacement is empty or a prefix of another, and each one starts with a
  character that is itself replaced.
\<close>

definition readable :: "escapes \<Rightarrow> bool" where
  "readable tbl \<longleftrightarrow> distinct (map fst tbl) \<and>
     list_all (\<lambda>(a, t). t \<noteq> [] \<and> hd t \<in> fst ` set tbl \<and> list_all (\<lambda>(b, u). a = b \<or> \<not> starts_with t u) tbl) tbl"

lemma starts_with_iff: "starts_with xs ys \<longleftrightarrow> (\<exists>zs. ys = xs @ zs)"
  by (induction xs ys rule: starts_with.induct) (auto split: list.split)

lemma starts_with_comparable:
  assumes "starts_with t s" "starts_with u s"
  shows "starts_with t u \<or> starts_with u t"
  using assms by (auto simp: starts_with_iff append_eq_append_conv2)

lemma find_escape:
  assumes "readable tbl" "map_of tbl c = Some t"
  shows "find (\<lambda>(a, u). starts_with u (t @ r)) tbl = Some (c, t)"
proof -
  have mem: "(c, t) \<in> set tbl" using assms(2) by (rule map_of_SomeD)
  have only: "x = (c, t)" if "x \<in> set tbl" "starts_with (snd x) (t @ r)" for x
  proof -
    have "starts_with t (t @ r)" by (simp add: starts_with_iff)
    then have "starts_with (snd x) t \<or> starts_with t (snd x)" using that(2) starts_with_comparable by blast
    then have "fst x = c" using assms(1) mem that(1) by (cases x) (fastforce simp: readable_def list_all_iff)
    then show ?thesis
      using assms that(1) mem by (metis eq_key_imp_eq_value readable_def prod.collapse)
  qed
  show ?thesis
  proof (cases "find (\<lambda>(a, u). starts_with u (t @ r)) tbl")
    case None
    then show ?thesis using mem by (auto simp: find_None_iff starts_with_iff)
  next
    case (Some x)
    then have "x \<in> set tbl" "starts_with (snd x) (t @ r)" by (auto simp: find_Some_iff case_prod_unfold)
    then show ?thesis using only Some by simp
  qed
qed

lemma unescape_escaped:
  assumes "readable tbl"
  shows "unescape tbl (escaped tbl s) = s"
proof (induction s)
  case (Cons c s)
  show ?case
  proof (cases "map_of tbl c")
    case None
    have "\<not> starts_with u (c # escaped tbl s)" if "(a, u) \<in> set tbl" for a u
    proof -
      have "u \<noteq> []" "hd u \<in> fst ` set tbl" using assms that by (auto simp: readable_def list_all_iff)
      moreover have "c \<notin> fst ` set tbl" using None by (simp add: map_of_eq_None_iff)
      ultimately show ?thesis by (cases u) auto
    qed
    then have "find (\<lambda>(a, t). starts_with t (c # escaped tbl s)) tbl = None" by (auto simp: find_None_iff)
    then show ?thesis using Cons None by (simp add: escape_def)
  next
    case (Some t)
    then have "t \<noteq> []" using assms by (auto simp: readable_def list_all_iff dest: map_of_SomeD)
    then obtain h t' where t: "t = h # t'" by (meson neq_Nil_conv)
    show ?thesis using Cons Some find_escape [OF assms Some, of "escaped tbl s"] by (simp add: escape_def t)
  qed
qed simp

definition table :: "string list \<Rightarrow> string list \<Rightarrow> escapes" where
  "table patterns replacements = zip (map hd patterns) replacements"

lemma decorators_escape:
  assumes "p \<le> length str"
  shows "c_decor str p = Some (take p str @ escaped (table c_patterns c_replacements) (drop p str))"
    "csv_decor str p = Some (take p str @ escaped (table csv_patterns csv_replacements) (drop p str))"
    "xml_decor str p = Some (take p str @ escaped (table xml_patterns xml_replacements) (drop p str))"
proof -
  have d: "apply_replacer (new_pattern_replacer fs ts) str p = Some (take p str @ escaped (table fs ts) (drop p str))"
    if "independent (table fs ts)"
      "(decoration_chars (new_pattern_replacer fs ts), string_lengths (new_pattern_replacer fs ts)) = table_replacer (table fs ts)" for fs ts
    using replace_patterns_table [OF that(1), of "take p str" "drop p str"] assms that(2) [symmetric]
    by (simp add: apply_replacer_def)
  have "independent (table c_patterns c_replacements)" by code_simp
  moreover have "(decoration_chars (new_pattern_replacer c_patterns c_replacements), string_lengths (new_pattern_replacer c_patterns c_replacements)) =
    table_replacer (table c_patterns c_replacements)" by code_simp
  ultimately show "c_decor str p = Some (take p str @ escaped (table c_patterns c_replacements) (drop p str))"
    unfolding c_decor_def by (rule d)
  have "independent (table csv_patterns csv_replacements)" by code_simp
  moreover have "(decoration_chars (new_pattern_replacer csv_patterns csv_replacements), string_lengths (new_pattern_replacer csv_patterns csv_replacements)) =
    table_replacer (table csv_patterns csv_replacements)" by code_simp
  ultimately show "csv_decor str p = Some (take p str @ escaped (table csv_patterns csv_replacements) (drop p str))"
    unfolding csv_decor_def by (rule d)
  have "independent (table xml_patterns xml_replacements)" by code_simp
  moreover have "(decoration_chars (new_pattern_replacer xml_patterns xml_replacements), string_lengths (new_pattern_replacer xml_patterns xml_replacements)) =
    table_replacer (table xml_patterns xml_replacements)" by code_simp
  ultimately show "xml_decor str p = Some (take p str @ escaped (table xml_patterns xml_replacements) (drop p str))"
    unfolding xml_decor_def by (rule d)
qed

section \<open>Escaping what is not printable\<close>

definition hex_escape :: "char \<Rightarrow> string" where
  "hex_escape c = (if printable c then [c] else print_escaped c)"

definition hex_escaped :: "string \<Rightarrow> string" where
  "hex_escaped s = concat (map hex_escape s)"

lemma hex_escaped_simps [simp]:
  "hex_escaped [] = []" "hex_escaped (c # s) = hex_escape c @ hex_escaped s"
  "hex_escaped (xs @ ys) = hex_escaped xs @ hex_escaped ys"
  by (simp_all add: hex_escaped_def)

lemma hex_escaped_printable: "list_all printable s \<Longrightarrow> hex_escaped s = s"
  by (induction s) (simp_all add: hex_escape_def)

lemma length_print_escaped [simp]: "length (print_escaped c) = 4"
  by (simp add: print_escaped_def)

lemma escape_loop_result:
  assumes "i \<le> length str"
  shows "escape_loop i str =
    (if list_all printable (drop i str) then str else take (min i 4) str @ hex_escaped (drop (min i 4) str))"
  using assms
proof (induction i str rule: escape_loop.induct)
  case (1 i str)
  show ?case
  proof (cases "i < length str")
    case False
    then show ?thesis using 1(3) by (subst escape_loop.simps) simp
  next
    case True
    have d: "drop i str = str ! i # drop (Suc i) str" using Cons_nth_drop_Suc [OF True] by simp
    show ?thesis
    proof (cases "printable (str ! i)")
      case pr: True
      have "escape_loop i str = escape_loop (i + 1) str" using True pr by (subst escape_loop.simps) simp
      moreover have "take (min (i + 1) 4) str @ hex_escaped (drop (min (i + 1) 4) str) = take (min i 4) str @ hex_escaped (drop (min i 4) str)"
        using True pr d by (cases "i < 4") (simp_all add: min_def take_Suc_conv_app_nth hex_escape_def)
      ultimately show ?thesis using 1(1) [OF True pr] True pr d by simp
    next
      case np: False
      let ?b = "print_escaped (str ! i)" and ?r = "drop (Suc i) str"
      define s where "s = replace_string str i 1 ?b"
      have s: "s = take i str @ ?b @ ?r" by (simp add: s_def replace_string_def)
      have "escape_loop i str = escape_loop 4 s" using True np by (subst escape_loop.simps) (simp add: Let_def s_def)
      also have "\<dots> = (if list_all printable (drop 4 s) then s else take 4 s @ hex_escaped (drop 4 s))"
      proof -
        have "4 \<le> length s" by (simp add: s)
        then show ?thesis using 1(2) [OF True np refl refl, folded s_def] by (simp cong: if_cong)
      qed
      also have "\<dots> = take 4 s @ hex_escaped (drop 4 s)" by (simp add: hex_escaped_printable)
      also have "\<dots> = take (min i 4) str @ hex_escaped (drop (min i 4) str)"
      proof (cases "i < 4")
        case lt: True
        have "hex_escaped (drop (4 - i) ?b) = drop (4 - i) ?b"
          using print_escaped_printable by (intro hex_escaped_printable) (auto simp: list_all_iff dest: in_set_dropD)
        moreover have "take (4 - i) ?b @ drop (4 - i) ?b = ?b" by simp
        ultimately show ?thesis using True lt np d by (simp add: s min_def hex_escape_def)
      next
        case ge: False
        have "drop 4 (take i str @ str ! i # ?r) = drop 4 (take i str) @ str ! i # ?r" using True ge by simp
        then have "drop 4 str = drop 4 (take i str) @ str ! i # ?r" by (simp only: id_take_nth_drop [OF True, symmetric])
        moreover have "hex_escaped ?b = ?b" using print_escaped_printable by (rule hex_escaped_printable)
        moreover have "min i 4 = 4" using ge by simp
        ultimately show ?thesis using True ge np by (simp add: s hex_escape_def)
      qed
      finally show ?thesis using d np by simp
    qed
  qed
qed

section \<open>Properties\<close>

text \<open>
  C33. The decorators for C, CSV and XML end, leave the text before the start position alone, and what they make of the
  rest can be read: undoing the replacements gives the original text.
\<close>

theorem decorators_roundtrip:
  assumes "p \<le> length str"
  shows "\<exists>c csv xml.
    c_decor str p = Some (take p str @ c) \<and> unescape (table c_patterns c_replacements) c = drop p str \<and>
    csv_decor str p = Some (take p str @ csv) \<and> unescape (table csv_patterns csv_replacements) csv = drop p str \<and>
    xml_decor str p = Some (take p str @ xml) \<and> unescape (table xml_patterns xml_replacements) xml = drop p str"
proof -
  have "readable (table c_patterns c_replacements)" by code_simp
  moreover have "readable (table csv_patterns csv_replacements)" by code_simp
  moreover have "readable (table xml_patterns xml_replacements)" by code_simp
  ultimately show ?thesis using decorators_escape [OF assms] by (simp add: unescape_escaped)
qed

text \<open>
  C34. The decorator for C in ASCII: when the decorated text has a character that is not printable, everything from the
  start position on is escaped, but also the text before it from the fifth character of the string on. The latter
  was not written by the decorated formatter.
\<close>

theorem c_ascii_decor_result:
  assumes "p \<le> length str"
  shows "\<exists>text. c_decor str p = Some (take p str @ text) \<and> c_ascii_decor str p = Some
    (if list_all printable text then take p str @ text
     else take (min p 4) str @ hex_escaped (drop (min p 4) (take p str)) @ hex_escaped text)"
proof -
  let ?t = "escaped (table c_patterns c_replacements) (drop p str)"
  have "escape_loop p (take p str @ ?t) = (if list_all printable ?t then take p str @ ?t
      else take (min p 4) str @ hex_escaped (drop (min p 4) (take p str)) @ hex_escaped ?t)"
    using escape_loop_result [of p "take p str @ ?t"] assms by (simp add: min_def)
  then show ?thesis using decorators_escape(1) [OF assms] by (auto simp: c_ascii_decor_def)
qed

section \<open>Witnesses\<close>

theorem decorators_roundtrip_witness:
  "\<exists>xml. xml_decor ''a<b & c'' 1 = Some (''a'' @ xml) \<and> xml = ''&lt;b &amp; c'' \<and>
     unescape (table xml_patterns xml_replacements) xml = ''<b & c''"
proof -
  have "xml_decor ''a<b & c'' 1 = Some (''a'' @ ''&lt;b &amp; c'')"
    using decorators_escape(3) [of 1 "''a<b & c''"]
    by (simp add: table_def xml_patterns_def xml_replacements_def escape_def)
  then show ?thesis using decorators_roundtrip [of 1 "''a<b & c''"] by auto
qed

text \<open>The newline in the text before the decorated part becomes an escape.\<close>

theorem c_ascii_decor_result_witness:
  "c_ascii_decor (''abcde'' @ [CHR 0x0A] @ ''f'' @ [CHR 0x01]) 7 =
     Some (''abcde'' @ [CHR 0x5C] @ ''x0Af'' @ [CHR 0x5C] @ ''x01'')"
proof -
  let ?s = "''abcde'' @ [CHR 0x0A] @ ''f'' @ [CHR 0x01]"
  have "c_decor ?s 7 = Some (take 7 ?s @ [CHR 0x01])"
    using decorators_escape(1) [of 7 ?s] by (simp add: table_def c_patterns_def c_replacements_def escape_def)
  then show ?thesis
    using c_ascii_decor_result [of 7 ?s]
    by (auto simp: hex_escape_def printable_def print_escaped_def hex_upper_def)
qed

end
