(* ===== verification/Formatting_Stream.thy ===== *)
theory Formatting_Stream
  imports Prelude "HOL-Library.Word"
begin

unbundle bit_operations_syntax

text \<open>
  The formatting stream: the stream buffer that appends to an external string up to a size limit, the conversion of
  text between character types, and the operations of the stream. The character type is a type variable. The
  locale is a parameter: its character boundaries and its conversion facet.
\<close>

section \<open>Character boundaries\<close>

text \<open>
  The length of the longest prefix of complete characters in the first \<open>max_size\<close> of \<open>n\<close> units, by the size of the
  character type. For one byte it is the number of units that the facet of the locale counts.
\<close>

definition length_until_boundary_1 :: "('c list \<Rightarrow> nat \<Rightarrow> nat) \<Rightarrow> 'c list \<Rightarrow> nat \<Rightarrow> nat \<Rightarrow> nat" where
  "length_until_boundary_1 facet_length s n max_size = facet_length (take max_size s) n"

definition is_leading_surrogate :: "16 word \<Rightarrow> bool" where
  "is_leading_surrogate c \<longleftrightarrow> c AND 0xFC00 = 0xD800"

fun boundary_loop :: "16 word list \<Rightarrow> nat \<Rightarrow> nat" where
  "boundary_loop s 0 = 0"
| "boundary_loop s (Suc pos) = (if \<not> is_leading_surrogate (s ! pos) then pos + 1 else boundary_loop s pos)"

definition length_until_boundary_2 :: "16 word list \<Rightarrow> nat \<Rightarrow> nat \<Rightarrow> nat" where
  "length_until_boundary_2 s n max_size = boundary_loop s max_size"

definition length_until_boundary_4 :: "'c list \<Rightarrow> nat \<Rightarrow> nat \<Rightarrow> nat" where
  "length_until_boundary_4 s n max_size = max_size"

text \<open>What the operations need of the character type: the largest size of a string, the boundaries and the blank.\<close>

record 'c char_env =
  string_max_size :: nat
  length_until_boundary :: "'c list \<Rightarrow> nat \<Rightarrow> nat \<Rightarrow> nat"
  blank :: 'c

section \<open>The stream buffer\<close>

text \<open>
  The external string is a value; the buffer is detached when there is none. The put area holds the characters from
  \<open>pbase\<close> to \<open>pptr\<close>. The result \<open>None\<close> of an operation stands for the use of a buffer that is detached, which
  the code only asserts against.
\<close>

record 'c storage_state =
  storage :: "'c list option"
  max_size :: nat
  overflow :: bool

record 'c streambuf = "'c storage_state" +
  put_area :: "'c list"

definition buffer_size :: nat where
  "buffer_size = 16"

definition new_streambuf :: "'c streambuf" where
  "new_streambuf = \<lparr>storage = None, max_size = 0, overflow = False, put_area = []\<rparr>"

definition set_storage_state :: "'c storage_state \<Rightarrow> 'c streambuf \<Rightarrow> 'c streambuf" where
  "set_storage_state st b = b\<lparr>storage := storage st, max_size := max_size st, overflow := overflow st\<rparr>"

definition ensure_max_size :: "'c char_env \<Rightarrow> 'c streambuf \<Rightarrow> 'c streambuf" where
  "ensure_max_size E b =
     (case storage b of
        None \<Rightarrow> b
      | Some s \<Rightarrow>
          if length s > max_size b
          then b\<lparr>storage := Some (take (length_until_boundary E s (length s) (max_size b)) s), overflow := True\<rparr>
          else b)"

definition set_max_size :: "'c char_env \<Rightarrow> nat \<Rightarrow> 'c streambuf \<Rightarrow> 'c streambuf" where
  "set_max_size E sz b =
     ensure_max_size E
       (b\<lparr>max_size := (if storage b \<noteq> None \<and> sz > string_max_size E then string_max_size E else sz)\<rparr>)"

definition size_left :: "'c list \<Rightarrow> 'c streambuf \<Rightarrow> nat" where
  "size_left s b = (if length s < max_size b then max_size b - length s else 0)"

definition append_chars :: "'c char_env \<Rightarrow> 'c list \<Rightarrow> 'c streambuf \<Rightarrow> (nat \<times> 'c streambuf) option" where
  "append_chars E s b =
     (if overflow b then Some (0, b)
      else case storage b of
        None \<Rightarrow> None
      | Some str \<Rightarrow>
          let left = size_left str b
          in if length s \<le> left then Some (length s, b\<lparr>storage := Some (str @ s)\<rparr>)
             else let left = length_until_boundary E s (length s) left
                  in Some (left, b\<lparr>storage := Some (str @ take left s), overflow := True\<rparr>))"

definition append_fill :: "nat \<Rightarrow> 'c \<Rightarrow> 'c streambuf \<Rightarrow> (nat \<times> 'c streambuf) option" where
  "append_fill n c b =
     (if overflow b then Some (0, b)
      else case storage b of
        None \<Rightarrow> None
      | Some str \<Rightarrow>
          let left = size_left str b
          in if n \<le> left then Some (n, b\<lparr>storage := Some (str @ replicate n c)\<rparr>)
             else Some (left, b\<lparr>storage := Some (str @ replicate left c), overflow := True\<rparr>))"

definition push_back :: "'c \<Rightarrow> 'c streambuf \<Rightarrow> (nat \<times> 'c streambuf) option" where
  "push_back c b =
     (if overflow b then Some (0, b)
      else case storage b of
        None \<Rightarrow> None
      | Some str \<Rightarrow>
          if length str < max_size b then Some (1, b\<lparr>storage := Some (str @ [c])\<rparr>)
          else Some (0, b\<lparr>overflow := True\<rparr>))"

definition sync :: "'c char_env \<Rightarrow> 'c streambuf \<Rightarrow> 'c streambuf option" where
  "sync E b =
     (if put_area b = [] then Some b
      else map_option (\<lambda>(n, b). b\<lparr>put_area := []\<rparr>) (append_chars E (put_area b) b))"

text \<open>The argument is \<open>None\<close> for the end of file.\<close>

definition overflow_char :: "'c char_env \<Rightarrow> 'c option \<Rightarrow> 'c streambuf \<Rightarrow> 'c streambuf option" where
  "overflow_char E c b =
     (case sync E b of
        None \<Rightarrow> None
      | Some b \<Rightarrow> (case c of None \<Rightarrow> Some b | Some c \<Rightarrow> map_option snd (push_back c b)))"

definition xsputn :: "'c char_env \<Rightarrow> 'c list \<Rightarrow> 'c streambuf \<Rightarrow> (nat \<times> 'c streambuf) option" where
  "xsputn E s b = (case sync E b of None \<Rightarrow> None | Some b \<Rightarrow> append_chars E s b)"

text \<open>The string is released with the characters that were still in the put area.\<close>

definition detach :: "'c char_env \<Rightarrow> 'c streambuf \<Rightarrow> ('c list option \<times> 'c streambuf) option" where
  "detach E b =
     (if storage b = None then Some (None, b)
      else map_option (\<lambda>b. (storage b, b\<lparr>storage := None, max_size := 0, overflow := False\<rparr>)) (sync E b))"

definition attach :: "'c char_env \<Rightarrow> 'c list \<Rightarrow> nat \<Rightarrow> 'c streambuf \<Rightarrow> ('c list option \<times> 'c streambuf) option" where
  "attach E str sz b =
     map_option (\<lambda>(released, b). (released, set_max_size E sz (b\<lparr>storage := Some str\<rparr>))) (detach E b)"

text \<open>\<open>std::basic_streambuf::sputc\<close>.\<close>

definition sputc :: "'c char_env \<Rightarrow> 'c \<Rightarrow> 'c streambuf \<Rightarrow> 'c streambuf option" where
  "sputc E c b =
     (if length (put_area b) < buffer_size then Some (b\<lparr>put_area := put_area b @ [c]\<rparr>)
      else overflow_char E (Some c) b)"

section \<open>Code conversion\<close>

text \<open>
  A facet converts source units to at most the given number of target units. It yields the result, the new state, the
  number of consumed units and the produced ones.
\<close>

datatype cvt_result = Cvt_ok | Cvt_noconv | Cvt_partial | Cvt_error

record ('s, 'd, 'c) facet =
  init_state :: 's
  cvt :: "'s \<Rightarrow> 'd list \<Rightarrow> nat \<Rightarrow> cvt_result \<times> 's \<times> nat \<times> 'c list"
  unit_cast :: "'d \<Rightarrow> 'c"

text \<open>
  The loop returns the number of converted units, or \<open>None\<close> when it throws, and the string. A facet that makes no
  progress keeps it from ending.
\<close>

partial_function (option) convert_loop ::
  "('s, 'd, 'c) facet \<Rightarrow> 's \<Rightarrow> 'd list \<Rightarrow> nat \<Rightarrow> 'c list \<Rightarrow> nat \<Rightarrow> (nat option \<times> 'c list) option" where
  "convert_loop fac st src limit converted consumed =
     (if src \<noteq> [] \<and> min limit 256 > 0
      then (case cvt fac st src (min limit 256) of (res, st, n, out) \<Rightarrow>
        (case res of
           Cvt_ok \<Rightarrow> convert_loop fac st (drop n src) (limit - length out) (converted @ out) (consumed + n)
         | Cvt_noconv \<Rightarrow>
             let rest = drop n src; count = min limit (length rest)
             in Some (Some (consumed + n + count), converted @ map (unit_cast fac) (take count rest))
         | Cvt_partial \<Rightarrow>
             if out \<noteq> [] then convert_loop fac st (drop n src) (limit - length out) (converted @ out) (consumed + n)
             else if drop n src = [] then Some (Some (consumed + n), converted)
             else Some (None, converted)
         | Cvt_error \<Rightarrow> Some (None, converted)))
      else Some (Some consumed, converted))"

definition code_convert :: "('s, 'd, 'c) facet \<Rightarrow> 'd list \<Rightarrow> nat \<Rightarrow> 'c list \<Rightarrow> (nat option \<times> 'c list) option" where
  "code_convert fac src limit converted = convert_loop fac (init_state fac) src limit converted 0"

text \<open>Whether the whole text was converted, or \<open>None\<close> when the conversion throws.\<close>

type_synonym ('d, 'c) converter = "'d list \<Rightarrow> nat \<Rightarrow> 'c list \<Rightarrow> (bool option \<times> 'c list) option"

definition code_convert_impl :: "('s, 'd, 'c) facet \<Rightarrow> ('d, 'c) converter" where
  "code_convert_impl fac str1 limit str2 =
     map_option (\<lambda>(n, str2). (map_option (\<lambda>n. n = length str1) n, str2)) (code_convert fac str1 limit str2)"

text \<open>Between two character types that are not \<open>char\<close> the conversion goes through a temporary string.\<close>

definition code_convert_via :: "('s, 'd, 'e) facet \<Rightarrow> ('t, 'e, 'c) facet \<Rightarrow> nat \<Rightarrow> ('d, 'c) converter" where
  "code_convert_via fac1 fac2 temp_max str1 limit str2 =
     (case code_convert fac1 str1 temp_max [] of
        None \<Rightarrow> None
      | Some (None, temp) \<Rightarrow> Some (None, str2)
      | Some (Some n, temp) \<Rightarrow> code_convert_impl fac2 temp limit str2)"

text \<open>Between character types of the same size the units are copied.\<close>

definition code_convert_same :: "('d \<Rightarrow> 'c) \<Rightarrow> ('d, 'c) converter" where
  "code_convert_same cast str1 limit str2 =
     (let left = if length str2 < limit then limit - length str2 else 0;
          over = length str1 > left
      in Some (Some (\<not> over), str2 @ map cast (take (if over then left else length str1) str1)))"

section \<open>The stream\<close>

text \<open>
  The state of the standard stream: whether no error bit is set, whether a set error bit throws, and the format
  parameters. Of these the output of text uses the width, the fill character and whether the flag \<open>left\<close> is set; the
  other flags and the precision are those that the output of numbers uses.
\<close>

datatype stream_error = Conversion_error | Stream_failure | Formatter_error

datatype fmt_flag =
    Fmt_boolalpha | Fmt_showbase | Fmt_showpoint | Fmt_showpos | Fmt_skipws | Fmt_unitbuf | Fmt_uppercase
  | Fmt_dec | Fmt_hex | Fmt_oct | Fmt_fixed | Fmt_scientific | Fmt_internal | Fmt_right

record 'c fmt_stream =
  rdbuf :: "'c streambuf"
  good :: bool
  throwing :: bool
  width :: int
  fill :: 'c
  align_left :: bool
  fmt_flags :: "fmt_flag set"
  precision :: int

type_synonym 'c outcome = "(stream_error option \<times> 'c fmt_stream) option"

definition then_do :: "'c outcome \<Rightarrow> ('c fmt_stream \<Rightarrow> 'c outcome) \<Rightarrow> 'c outcome" where
  "then_do r f = (case r of Some (None, st) \<Rightarrow> f st | _ \<Rightarrow> r)"

definition setstate_bad :: "'c fmt_stream \<Rightarrow> 'c outcome" where
  "setstate_bad st = Some (if throwing st then Some Stream_failure else None, st\<lparr>good := False\<rparr>)"

text \<open>The construction of the sentry and the output that it guards.\<close>

definition guarded :: "('c fmt_stream \<Rightarrow> 'c outcome) \<Rightarrow> 'c fmt_stream \<Rightarrow> 'c outcome" where
  "guarded f st = (if good st then f st else setstate_bad st)"

definition with_buf :: "'c fmt_stream \<Rightarrow> 'c streambuf option \<Rightarrow> 'c outcome" where
  "with_buf st r = map_option (\<lambda>b. (None, st\<lparr>rdbuf := b\<rparr>)) r"

definition initial_flags :: "fmt_flag set" where
  "initial_flags = {Fmt_dec, Fmt_skipws, Fmt_boolalpha}"

definition init_stream :: "'c char_env \<Rightarrow> 'c fmt_stream \<Rightarrow> 'c fmt_stream" where
  "init_stream E st =
     st\<lparr>throwing := False, good := (storage (rdbuf st) \<noteq> None), width := 0, fill := blank E, align_left := False,
       fmt_flags := initial_flags, precision := 6\<rparr>"

definition new_stream :: "'c char_env \<Rightarrow> 'c list \<Rightarrow> 'c fmt_stream" where
  "new_stream E str =
     init_stream E \<lparr>rdbuf = set_max_size E (string_max_size E) (new_streambuf\<lparr>storage := Some str\<rparr>),
       good = True, throwing = False, width = 0, fill = blank E, align_left = False, fmt_flags = initial_flags,
       precision = 6\<rparr>"

definition stream_flush :: "'c char_env \<Rightarrow> 'c fmt_stream \<Rightarrow> 'c outcome" where
  "stream_flush E = guarded (\<lambda>st. with_buf st (sync E (rdbuf st)))"

definition attach_stream :: "'c char_env \<Rightarrow> 'c list \<Rightarrow> 'c fmt_stream \<Rightarrow> ('c list option \<times> 'c fmt_stream) option" where
  "attach_stream E str st =
     map_option (\<lambda>(released, b). (released, st\<lparr>rdbuf := b, good := True\<rparr>)) (attach E str (string_max_size E) (rdbuf st))"

text \<open>The state \<open>badbit\<close> is set by \<open>clear\<close>, which throws as \<open>setstate\<close> does.\<close>

definition detach_stream :: "'c char_env \<Rightarrow> 'c fmt_stream \<Rightarrow> ('c list option \<times> 'c outcome) option" where
  "detach_stream E st =
     map_option (\<lambda>(released, b). (released, setstate_bad (st\<lparr>rdbuf := b\<rparr>))) (detach E (rdbuf st))"

definition stream_str :: "'c char_env \<Rightarrow> 'c fmt_stream \<Rightarrow> ('c list \<times> 'c fmt_stream) option" where
  "stream_str E st =
     (case sync E (rdbuf st) of
        None \<Rightarrow> None
      | Some b \<Rightarrow> map_option (\<lambda>s. (s, st\<lparr>rdbuf := b\<rparr>)) (storage b))"

definition put_char :: "'c char_env \<Rightarrow> 'c \<Rightarrow> 'c fmt_stream \<Rightarrow> 'c outcome" where
  "put_char E c = guarded (\<lambda>st. with_buf st (sputc E c (rdbuf st)))"

text \<open>\<open>std::basic_ostream::write\<close> sets the error bit when fewer characters were written than given.\<close>

definition write_text :: "'c char_env \<Rightarrow> 'c list \<Rightarrow> 'c fmt_stream \<Rightarrow> 'c outcome" where
  "write_text E s = guarded (\<lambda>st.
     case xsputn E s (rdbuf st) of
       None \<Rightarrow> None
     | Some (n, b) \<Rightarrow> if n = length s then Some (None, st\<lparr>rdbuf := b\<rparr>) else setstate_bad (st\<lparr>rdbuf := b\<rparr>))"

definition aligned_write :: "'c char_env \<Rightarrow> 'c list \<Rightarrow> 'c fmt_stream \<Rightarrow> 'c outcome" where
  "aligned_write E s st =
     (let alignment_size = nat (width st - int (length s));
          text = (\<lambda>b. map_option snd (append_chars E s b));
          pad = (\<lambda>b. map_option snd (append_fill alignment_size (fill st) b))
      in with_buf st (if align_left st then Option.bind (text (rdbuf st)) pad else Option.bind (pad (rdbuf st)) text))"

definition formatted_write :: "'c char_env \<Rightarrow> 'c list \<Rightarrow> 'c fmt_stream \<Rightarrow> 'c outcome" where
  "formatted_write E s = guarded (\<lambda>st.
     then_do (then_do (stream_flush E st) (\<lambda>st.
       if width st \<le> int (length s) then with_buf st (map_option snd (append_chars E s (rdbuf st)))
       else aligned_write E s st))
     (\<lambda>st. Some (None, st\<lparr>width := 0\<rparr>)))"

text \<open>The output of text of another character type. The limit that is passed on is that of the whole storage.\<close>

definition convert_to_storage :: "('d, 'c) converter \<Rightarrow> 'd list \<Rightarrow> 'c fmt_stream \<Rightarrow> 'c outcome" where
  "convert_to_storage conv p st =
     (let b = rdbuf st
      in if overflow b then Some (None, st)
         else case storage b of
           None \<Rightarrow> None
         | Some s \<Rightarrow>
             (case conv p (max_size b) s of
                None \<Rightarrow> None
              | Some (None, s) \<Rightarrow> Some (Some Conversion_error, st\<lparr>rdbuf := b\<lparr>storage := Some s\<rparr>\<rparr>)
              | Some (Some complete, s) \<Rightarrow>
                  Some (None, st\<lparr>rdbuf := b\<lparr>storage := Some s, overflow := \<not> complete\<rparr>\<rparr>)))"

definition write_other :: "'c char_env \<Rightarrow> ('d, 'c) converter \<Rightarrow> 'd list \<Rightarrow> 'c fmt_stream \<Rightarrow> 'c outcome" where
  "write_other E conv p = guarded (\<lambda>st. then_do (stream_flush E st) (convert_to_storage conv p))"

definition aligned_write_other :: "('d, 'c) converter \<Rightarrow> 'd list \<Rightarrow> 'c fmt_stream \<Rightarrow> 'c outcome" where
  "aligned_write_other conv p st =
     (let alignment_size = nat (width st - int (length p));
          pad = (\<lambda>st. with_buf st (map_option snd (append_fill alignment_size (fill st) (rdbuf st))))
      in if align_left st then then_do (convert_to_storage conv p st) pad
         else then_do (pad st) (convert_to_storage conv p))"

definition formatted_write_other :: "'c char_env \<Rightarrow> ('d, 'c) converter \<Rightarrow> 'd list \<Rightarrow> 'c fmt_stream \<Rightarrow> 'c outcome" where
  "formatted_write_other E conv p = guarded (\<lambda>st.
     then_do (then_do (stream_flush E st) (\<lambda>st.
       if width st \<le> int (length p) then convert_to_storage conv p st else aligned_write_other conv p st))
     (\<lambda>st. Some (None, st\<lparr>width := 0\<rparr>)))"

section \<open>Decorators\<close>

text \<open>
  A formatter for a record is an operation on the stream. The output terminals evaluate what is on their left first,
  then the decorated formatter, on the same stream. The result \<open>None\<close> of the decoration is a loop that does not end.
\<close>

type_synonym 'c formatter = "'c fmt_stream \<Rightarrow> 'c outcome"

definition char_decorator_output ::
  "'c char_env \<Rightarrow> ('c list \<Rightarrow> nat \<Rightarrow> 'c list option) \<Rightarrow> 'c formatter \<Rightarrow> 'c formatter \<Rightarrow> 'c formatter" where
  "char_decorator_output E impl left sub st =
     then_do (then_do (left st) (stream_flush E)) (\<lambda>st.
       case storage (rdbuf st) of
         None \<Rightarrow> None
       | Some s0 \<Rightarrow>
           then_do (then_do (sub st) (stream_flush E)) (\<lambda>st.
             case storage (rdbuf st) of
               None \<Rightarrow> None
             | Some s \<Rightarrow>
                 with_buf st (map_option (\<lambda>s. ensure_max_size E ((rdbuf st)\<lparr>storage := Some s\<rparr>)) (impl s (length s0)))))"

definition char_decorator_string ::
  "'c char_env \<Rightarrow> ('c list \<Rightarrow> nat \<Rightarrow> 'c list option) \<Rightarrow> 'c formatter \<Rightarrow> (stream_error + 'c list) option" where
  "char_decorator_string E impl sub =
     (case then_do (sub (new_stream E [])) (stream_flush E) of
        None \<Rightarrow> None
      | Some (Some e, st) \<Rightarrow> Some (Inl e)
      | Some (None, st) \<Rightarrow> Option.bind (storage (rdbuf st)) (\<lambda>s. map_option Inr (impl s 0)))"

text \<open>Cutting the text for the marker and appending it without a limit.\<close>

definition append_marker :: "'c char_env \<Rightarrow> 'c list \<Rightarrow> 'c streambuf \<Rightarrow> 'c streambuf option" where
  "append_marker E marker b =
     (let b = set_max_size E (max_size b - length marker) b;
          b = set_max_size E (string_max_size E) b;
          b = b\<lparr>overflow := False\<rparr>
      in map_option snd (append_chars E marker b))"

definition max_size_decorator_output ::
  "'c char_env \<Rightarrow> nat \<Rightarrow> 'c list \<Rightarrow> 'c formatter \<Rightarrow> 'c formatter \<Rightarrow> 'c formatter" where
  "max_size_decorator_output E limit marker left sub st =
     then_do (then_do (left st) (stream_flush E)) (\<lambda>st.
       let b = rdbuf st
       in if overflow b then Some (None, st)
          else case storage b of
            None \<Rightarrow> None
          | Some s \<Rightarrow>
              let old_max_size = max_size b;
                  start_pos = length s;
                  max_size_left = string_max_size E - start_pos;
                  st = st\<lparr>rdbuf := set_max_size E (start_pos + (if limit \<le> max_size_left then limit else max_size_left)) b\<rparr>
              in case then_do (sub st) (stream_flush E) of
                   None \<Rightarrow> None
                 | Some (Some e, st) \<Rightarrow>
                     Some (Some e, st\<lparr>rdbuf := set_max_size E old_max_size ((rdbuf st)\<lparr>overflow := False\<rparr>)\<rparr>)
                 | Some (None, st) \<Rightarrow>
                     with_buf st (map_option (set_max_size E old_max_size)
                       (if overflow (rdbuf st)
                        then (if marker \<noteq> [] then append_marker E marker (rdbuf st)
                              else Some ((rdbuf st)\<lparr>overflow := False\<rparr>))
                        else Some (rdbuf st))))"

definition max_size_decorator_string ::
  "'c char_env \<Rightarrow> nat \<Rightarrow> 'c list \<Rightarrow> 'c formatter \<Rightarrow> (stream_error + 'c list) option" where
  "max_size_decorator_string E limit marker sub =
     (let st = new_stream E [];
          st = st\<lparr>rdbuf := set_max_size E limit (rdbuf st)\<rparr>
      in case then_do (sub st) (stream_flush E) of
           None \<Rightarrow> None
         | Some (Some e, st) \<Rightarrow> Some (Inl e)
         | Some (None, st) \<Rightarrow>
             (case (if overflow (rdbuf st) \<and> marker \<noteq> []
                    then then_do (with_buf st (append_marker E marker (rdbuf st))) (stream_flush E)
                    else Some (None, st)) of
                None \<Rightarrow> None
              | Some (Some e, st) \<Rightarrow> Some (Inl e)
              | Some (None, st) \<Rightarrow> map_option Inr (storage (rdbuf st))))"

end
