(* ===== verification/Stream_Output.thy ===== *)
theory Stream_Output
  imports Formatting_Stream
begin

text \<open>
  What sequences of output operations leave in the storage of a formatting stream: the text, or a part of it within
  the limit; and what the decorator that limits the size makes of it.
\<close>

section \<open>Output operations\<close>

text \<open>A formatter as a sequence of operations on the stream, and the text that they mean to write.\<close>

datatype 'c stream_output = Put 'c | Write "'c list" | Insert "'c list" | Setw int | Flush

fun do_output :: "'c char_env \<Rightarrow> 'c stream_output \<Rightarrow> 'c formatter" where
  "do_output E (Put c) st = put_char E c st"
| "do_output E (Write s) st = write_text E s st"
| "do_output E (Insert s) st = formatted_write E s st"
| "do_output E (Setw w) st = Some (None, st\<lparr>width := w\<rparr>)"
| "do_output E Flush st = stream_flush E st"

fun do_outputs :: "'c char_env \<Rightarrow> 'c stream_output list \<Rightarrow> 'c formatter" where
  "do_outputs E [] st = Some (None, st)"
| "do_outputs E (x # xs) st = then_do (do_output E x st) (do_outputs E xs)"

definition padded :: "'c \<Rightarrow> bool \<Rightarrow> int \<Rightarrow> 'c list \<Rightarrow> 'c list" where
  "padded c l w s = (let pad = replicate (nat (w - int (length s))) c in if l then s @ pad else pad @ s)"

fun output_text :: "'c \<Rightarrow> bool \<Rightarrow> int \<Rightarrow> 'c stream_output list \<Rightarrow> 'c list" where
  "output_text c l w [] = []"
| "output_text c l w (Put x # xs) = x # output_text c l w xs"
| "output_text c l w (Write s # xs) = s @ output_text c l w xs"
| "output_text c l w (Insert s # xs) = padded c l w s @ output_text c l 0 xs"
| "output_text c l w (Setw v # xs) = output_text c l v xs"
| "output_text c l w (Flush # xs) = output_text c l w xs"

section \<open>The text in the buffer\<close>

text \<open>
  The buffer after the text \<open>t\<close> was given to it: either all of it is in the storage and the put area, or a prefix of
  it that respects the limit is in the storage and the overflow flag is set.
\<close>

definition buffered :: "'c list \<Rightarrow> 'c streambuf \<Rightarrow> bool" where
  "buffered t b \<longleftrightarrow>
     (if overflow b
      then max_size b < length t \<and> (\<exists>j \<le> max_size b. storage b = Some (take j t))
      else (\<exists>s. storage b = Some s \<and> length s \<le> max_size b \<and> t = s @ put_area b))"

definition stored :: "'c list \<Rightarrow> 'c streambuf \<Rightarrow> bool" where
  "stored t b \<longleftrightarrow> buffered t b \<and> put_area b = []"

definition bounded :: "'c char_env \<Rightarrow> bool" where
  "bounded E \<longleftrightarrow> (\<forall>s n k. k \<le> n \<longrightarrow> length_until_boundary E s n k \<le> k)"

lemma buffered_more: "buffered t b \<Longrightarrow> overflow b \<Longrightarrow> buffered (t @ u) b"
proof -
  assume "buffered t b" "overflow b"
  then obtain j where j: "j \<le> max_size b" "storage b = Some (take j t)" "max_size b < length t" by (auto simp: buffered_def)
  then have "take j t = take j (t @ u)" by simp
  then show ?thesis using j \<open>overflow b\<close> by (auto simp: buffered_def)
qed

lemma stored_fits: "stored t b \<Longrightarrow> length t \<le> max_size b \<Longrightarrow> storage b = Some t \<and> \<not> overflow b"
  by (auto simp: stored_def buffered_def split: if_splits)

lemma boundedD: "bounded E \<Longrightarrow> k \<le> n \<Longrightarrow> length_until_boundary E s n k \<le> k"
  by (simp add: bounded_def)

lemma append_chars_stored:
  assumes "bounded E" "stored t b"
  shows "\<exists>n b'. append_chars E s b = Some (n, b') \<and> stored (t @ s) b' \<and> max_size b' = max_size b \<and> (n = length s \<or> overflow b') \<and> (overflow b \<longrightarrow> overflow b')"
proof (cases "overflow b")
  case True
  then show ?thesis using assms(2) buffered_more by (auto simp: append_chars_def stored_def)
next
  case False
  then have st: "storage b = Some t" "length t \<le> max_size b" "put_area b = []" using assms(2) by (auto simp: stored_def buffered_def)
  show ?thesis
  proof (cases "length s \<le> size_left t b")
    case True
    then show ?thesis using st False by (auto simp: append_chars_def stored_def buffered_def size_left_def split: if_splits)
  next
    case big: False
    let ?k = "length_until_boundary E s (length s) (size_left t b)"
    have "?k \<le> size_left t b" using boundedD [OF assms(1)] big by simp
    then have "length t + ?k \<le> max_size b" "max_size b < length (t @ s)" using st(2) big by (auto simp: size_left_def split: if_splits)
    moreover have "t @ take ?k s = take (length t + ?k) (t @ s)" by simp
    ultimately show ?thesis using st False big
      by (auto simp: append_chars_def stored_def buffered_def Let_def intro!: exI [of _ "length t + ?k"])
  qed
qed

lemma append_fill_stored:
  assumes "stored t b"
  shows "\<exists>m b'. append_fill n c b = Some (m, b') \<and> stored (t @ replicate n c) b' \<and> max_size b' = max_size b \<and> (overflow b \<longrightarrow> overflow b')"
proof (cases "overflow b")
  case True
  then show ?thesis using assms buffered_more by (auto simp: append_fill_def stored_def)
next
  case False
  then have st: "storage b = Some t" "length t \<le> max_size b" "put_area b = []" using assms by (auto simp: stored_def buffered_def)
  let ?k = "size_left t b"
  show ?thesis
  proof (cases "n \<le> ?k")
    case True
    then show ?thesis using st False by (auto simp: append_fill_def stored_def buffered_def size_left_def split: if_splits)
  next
    case big: False
    then have "length t + ?k \<le> max_size b" "max_size b < length (t @ replicate n c)" using st(2) by (auto simp: size_left_def split: if_splits)
    moreover have "t @ replicate ?k c = take (length t + ?k) (t @ replicate n c)" using big by (simp add: min_def)
    ultimately show ?thesis using st False big
      by (auto simp: append_fill_def stored_def buffered_def Let_def simp del: take_append intro!: exI [of _ "length t + ?k"])
  qed
qed

lemma push_back_stored:
  assumes "stored t b"
  shows "\<exists>n b'. push_back c b = Some (n, b') \<and> stored (t @ [c]) b' \<and> max_size b' = max_size b \<and> (overflow b \<longrightarrow> overflow b')"
proof (cases "overflow b")
  case True
  then show ?thesis using assms buffered_more by (auto simp: push_back_def stored_def)
next
  case False
  then have st: "storage b = Some t" "length t \<le> max_size b" "put_area b = []" using assms by (auto simp: stored_def buffered_def)
  have "stored (t @ [c]) (b\<lparr>overflow := True\<rparr>)" if "length t = max_size b"
    using st that by (auto simp: stored_def buffered_def intro: exI [of _ "length t"])
  then show ?thesis using st False
    by (cases "length t < max_size b") (auto simp: push_back_def stored_def buffered_def)
qed

lemma sync_stored:
  assumes "bounded E" "buffered t b"
  shows "\<exists>b'. sync E b = Some b' \<and> stored t b' \<and> max_size b' = max_size b \<and> (overflow b \<longrightarrow> overflow b')"
proof (cases "put_area b = []")
  case True
  then show ?thesis using assms(2) by (simp add: sync_def stored_def)
next
  case False
  show ?thesis
  proof (cases "overflow b")
    case True
    then show ?thesis using assms(2) False by (auto simp: sync_def append_chars_def stored_def buffered_def)
  next
    case no: False
    then obtain s where s: "storage b = Some s" "length s \<le> max_size b" "t = s @ put_area b" using assms(2) by (auto simp: buffered_def)
    have "stored s (b\<lparr>put_area := []\<rparr>)" using s no by (simp add: stored_def buffered_def)
    from append_chars_stored [OF assms(1) this, of "put_area b"] obtain n b' where
      a: "append_chars E (put_area b) (b\<lparr>put_area := []\<rparr>) = Some (n, b')" "stored t b'" "max_size b' = max_size b" by (auto simp: s(3))
    have "map_option (\<lambda>(n, b). b\<lparr>put_area := []\<rparr>) (append_chars E u b) =
      map_option (\<lambda>(n, b). b\<lparr>put_area := []\<rparr>) (append_chars E u (b\<lparr>put_area := []\<rparr>))" for u
      by (auto simp: append_chars_def size_left_def Let_def split: option.splits)
    moreover have "b'\<lparr>put_area := []\<rparr> = b'" using a(2) by (simp add: stored_def)
    ultimately show ?thesis using a False no by (simp add: sync_def)
  qed
qed

lemma sputc_buffered:
  assumes "bounded E" "buffered t b"
  shows "\<exists>b'. sputc E c b = Some b' \<and> buffered (t @ [c]) b' \<and> max_size b' = max_size b \<and> (overflow b \<longrightarrow> overflow b')"
proof (cases "length (put_area b) < buffer_size")
  case True
  have "buffered (t @ [c]) (b\<lparr>put_area := put_area b @ [c]\<rparr>)"
    using assms(2) buffered_more [OF assms(2), of "[c]"] by (cases "overflow b") (auto simp: buffered_def)
  then show ?thesis using True by (simp add: sputc_def)
next
  case False
  obtain b1 where b1: "sync E b = Some b1" "stored t b1" "max_size b1 = max_size b" "overflow b \<longrightarrow> overflow b1" using sync_stored [OF assms] by auto
  with push_back_stored [OF b1(2), of c] show ?thesis using False by (auto simp: sputc_def overflow_char_def stored_def)
qed

lemma xsputn_stored:
  assumes "bounded E" "buffered t b"
  shows "\<exists>n b'. xsputn E s b = Some (n, b') \<and> stored (t @ s) b' \<and> max_size b' = max_size b \<and> (n = length s \<or> overflow b') \<and> (overflow b \<longrightarrow> overflow b')"
proof -
  obtain b1 where b1: "sync E b = Some b1" "stored t b1" "max_size b1 = max_size b" "overflow b \<longrightarrow> overflow b1" using sync_stored [OF assms] by auto
  with append_chars_stored [OF assms(1) b1(2), of s] show ?thesis by (auto simp: xsputn_def)
qed

section \<open>The text in the stream\<close>

text \<open>Only a truncated output leaves the stream in an error state.\<close>

definition stream_holds :: "'c \<Rightarrow> bool \<Rightarrow> nat \<Rightarrow> 'c list \<Rightarrow> 'c fmt_stream \<Rightarrow> bool" where
  "stream_holds c l m t st \<longleftrightarrow>
     buffered t (rdbuf st) \<and> max_size (rdbuf st) = m \<and> fill st = c \<and> align_left st = l \<and>
     (good st \<or> overflow (rdbuf st) \<and> put_area (rdbuf st) = [])"

lemma stream_holds_buffered: "stream_holds c l m t st \<Longrightarrow> buffered t (rdbuf st)"
  by (simp add: stream_holds_def)

definition held :: "'c \<Rightarrow> bool \<Rightarrow> nat \<Rightarrow> 'c fmt_stream \<Rightarrow> 'c list \<Rightarrow> int \<Rightarrow> 'c outcome \<Rightarrow> bool" where
  "held c l m st t w r \<longleftrightarrow> (\<exists>e st'. r = Some (e, st') \<and> stream_holds c l m t st' \<and> throwing st' = throwing st \<and>
     (overflow (rdbuf st) \<longrightarrow> overflow (rdbuf st')) \<and> (e = None \<or> overflow (rdbuf st') \<and> throwing st \<and> \<not> good st') \<and>
     (\<not> good st' \<or> width st' = w))"

lemma setstate_bad_held:
  assumes "stream_holds c l m t st" "overflow (rdbuf st)" "put_area (rdbuf st) = []" "overflow (rdbuf st0) \<longrightarrow> overflow (rdbuf st)" "throwing st = throwing st0"
  shows "held c l m st0 t w (setstate_bad st)"
  using assms by (auto simp: held_def setstate_bad_def stream_holds_def)

lemma stream_flush_held:
  assumes "bounded E" "stream_holds c l m t st"
  shows "\<exists>e st'. stream_flush E st = Some (e, st') \<and> stream_holds c l m t st' \<and> stored t (rdbuf st') \<and> throwing st' = throwing st \<and>
     (overflow (rdbuf st) \<longrightarrow> overflow (rdbuf st')) \<and> (e = None \<or> overflow (rdbuf st') \<and> throwing st \<and> \<not> good st') \<and> width st' = width st \<and>
     (good st \<longrightarrow> e = None \<and> good st')"
proof -
  obtain b where "sync E (rdbuf st) = Some b" "stored t b" "max_size b = max_size (rdbuf st)" "overflow (rdbuf st) \<longrightarrow> overflow b"
    using sync_stored [OF assms(1) stream_holds_buffered [OF assms(2)]] by auto
  then show ?thesis using assms(2)
    by (auto simp: stream_flush_def guarded_def with_buf_def setstate_bad_def stream_holds_def stored_def)
qed

lemma put_char_held:
  assumes "bounded E" "stream_holds c l m t st"
  shows "held c l m st (t @ [x]) (width st) (put_char E x st)"
proof (cases "good st")
  case True
  obtain b where "sputc E x (rdbuf st) = Some b" "buffered (t @ [x]) b" "max_size b = max_size (rdbuf st)" "overflow (rdbuf st) \<longrightarrow> overflow b"
    using sputc_buffered [OF assms(1) stream_holds_buffered [OF assms(2)], of x] by auto
  then show ?thesis using True assms(2)
    by (auto simp: put_char_def guarded_def with_buf_def held_def stream_holds_def)
next
  case False
  then have "stream_holds c l m (t @ [x]) st" using assms(2) buffered_more by (auto simp: stream_holds_def)
  then show ?thesis using False assms(2) by (auto simp: put_char_def guarded_def stream_holds_def intro!: setstate_bad_held)
qed

lemma write_text_held:
  assumes "bounded E" "stream_holds c l m t st"
  shows "held c l m st (t @ s) (width st) (write_text E s st)"
proof (cases "good st")
  case True
  obtain n b where b: "xsputn E s (rdbuf st) = Some (n, b)" "stored (t @ s) b" "max_size b = max_size (rdbuf st)"
    "n = length s \<or> overflow b" "overflow (rdbuf st) \<longrightarrow> overflow b"
    using xsputn_stored [OF assms(1) stream_holds_buffered [OF assms(2)], of s] by auto
  have "stream_holds c l m (t @ s) (st\<lparr>rdbuf := b\<rparr>)" using b assms(2) True by (auto simp: stream_holds_def stored_def)
  then show ?thesis using True b
    by (auto simp: write_text_def guarded_def stored_def intro!: setstate_bad_held) (auto simp: held_def)
next
  case False
  then have "stream_holds c l m (t @ s) st" using assms(2) buffered_more by (auto simp: stream_holds_def)
  then show ?thesis using False assms(2) by (auto simp: write_text_def guarded_def stream_holds_def intro!: setstate_bad_held)
qed

lemma aligned_write_stored:
  assumes "bounded E" "stored t (rdbuf st)" "int (length s) < width st"
  shows "\<exists>b. aligned_write E s st = Some (None, st\<lparr>rdbuf := b\<rparr>) \<and> stored (t @ padded (fill st) (align_left st) (width st) s) b \<and>
    max_size b = max_size (rdbuf st) \<and> (overflow (rdbuf st) \<longrightarrow> overflow b)"
proof (cases "align_left st")
  case True
  obtain n b where b: "append_chars E s (rdbuf st) = Some (n, b)" "stored (t @ s) b" "max_size b = max_size (rdbuf st)" "overflow (rdbuf st) \<longrightarrow> overflow b"
    using append_chars_stored [OF assms(1,2)] by metis
  with append_fill_stored [OF b(2), of "nat (width st - int (length s))" "fill st"] True show ?thesis
    by (auto simp: aligned_write_def with_buf_def padded_def Let_def)
next
  case False
  obtain n b where b: "append_fill (nat (width st - int (length s))) (fill st) (rdbuf st) = Some (n, b)"
    "stored (t @ replicate (nat (width st - int (length s))) (fill st)) b" "max_size b = max_size (rdbuf st)" "overflow (rdbuf st) \<longrightarrow> overflow b"
    using append_fill_stored [OF assms(2)] by metis
  with append_chars_stored [OF assms(1) b(2), of s] False show ?thesis
    by (auto simp: aligned_write_def with_buf_def padded_def Let_def)
qed

lemma formatted_write_held:
  assumes "bounded E" "stream_holds c l m t st"
  shows "held c l m st (t @ padded c l (width st) s) 0 (formatted_write E s st)"
proof (cases "good st")
  case False
  then have "stream_holds c l m (t @ padded c l (width st) s) st" using assms(2) buffered_more by (auto simp: stream_holds_def)
  then show ?thesis using False assms(2) by (auto simp: formatted_write_def guarded_def stream_holds_def intro!: setstate_bad_held)
next
  case True
  obtain st1 where f: "stream_flush E st = Some (None, st1)" "stream_holds c l m t st1" "stored t (rdbuf st1)" "throwing st1 = throwing st"
     "overflow (rdbuf st) \<longrightarrow> overflow (rdbuf st1)" "width st1 = width st" "good st1"
    using stream_flush_held [OF assms] True by auto
  show ?thesis
  proof (cases "width st \<le> int (length s)")
    case narrow: True
    obtain n b where "append_chars E s (rdbuf st1) = Some (n, b)" "stored (t @ s) b" "max_size b = max_size (rdbuf st1)" "overflow (rdbuf st1) \<longrightarrow> overflow b"
      using append_chars_stored [OF assms(1) f(3)] by metis
    then show ?thesis using narrow True f
      by (auto simp: formatted_write_def guarded_def then_do_def with_buf_def held_def stream_holds_def stored_def padded_def)
  next
    case wide: False
    obtain b where "aligned_write E s st1 = Some (None, st1\<lparr>rdbuf := b\<rparr>)" "stored (t @ padded c l (width st) s) b"
      "max_size b = max_size (rdbuf st1)" "overflow (rdbuf st1) \<longrightarrow> overflow b"
      using aligned_write_stored [OF assms(1) f(3), of s] wide f(2,6) by (auto simp: stream_holds_def)
    then show ?thesis using wide True f
      by (auto simp: formatted_write_def guarded_def then_do_def held_def stream_holds_def stored_def)
  qed
qed

fun next_width :: "int \<Rightarrow> 'c stream_output \<Rightarrow> int" where
  "next_width w (Insert s) = 0"
| "next_width w (Setw v) = v"
| "next_width w _ = w"

lemma output_text_Cons: "output_text c l w (x # xs) = output_text c l w [x] @ output_text c l (next_width w x) xs"
  by (cases x) simp_all

lemma do_output_held:
  assumes "bounded E" "stream_holds c l m t st"
  shows "held c l m st (t @ output_text c l (width st) [x]) (next_width (width st) x) (do_output E x st)"
proof (cases x)
  case (Setw v)
  then show ?thesis using assms(2) by (simp add: held_def stream_holds_def)
next
  case Flush
  then show ?thesis using stream_flush_held [OF assms] by (auto simp: held_def)
qed (use put_char_held [OF assms] write_text_held [OF assms] formatted_write_held [OF assms] in simp_all)

text \<open>Nothing is written to a stream in an error state.\<close>

lemma do_outputs_bad:
  assumes "stream_holds c l m t st" "\<not> good st"
  shows "held c l m st t w (do_outputs E xs st)"
  using assms
proof (induction xs arbitrary: st)
  case Nil
  then show ?case by (auto simp: held_def)
next
  case (Cons x xs)
  have bad: "held c l m st t w (setstate_bad st)" using Cons.prems by (auto simp: stream_holds_def intro!: setstate_bad_held)
  have "do_output E x st = setstate_bad st \<or> (\<exists>v. do_output E x st = Some (None, st\<lparr>width := v\<rparr>))"
    using Cons.prems(2) by (cases x) (auto simp: put_char_def write_text_def formatted_write_def stream_flush_def guarded_def)
  then show ?case
  proof
    assume x: "do_output E x st = setstate_bad st"
    show ?thesis
    proof (cases "throwing st")
      case True
      then show ?thesis using bad x by (simp add: then_do_def setstate_bad_def)
    next
      case False
      have "held c l m (st\<lparr>good := False\<rparr>) t w (do_outputs E xs (st\<lparr>good := False\<rparr>))"
        using Cons.prems by (intro Cons.IH) (auto simp: stream_holds_def)
      then show ?thesis using x False by (auto simp: then_do_def setstate_bad_def held_def)
    qed
  next
    assume "\<exists>v. do_output E x st = Some (None, st\<lparr>width := v\<rparr>)"
    then obtain v where x: "do_output E x st = Some (None, st\<lparr>width := v\<rparr>)" by auto
    have "held c l m (st\<lparr>width := v\<rparr>) t w (do_outputs E xs (st\<lparr>width := v\<rparr>))"
      using Cons.prems by (intro Cons.IH) (auto simp: stream_holds_def)
    then show ?thesis using x by (auto simp: then_do_def held_def)
  qed
qed

lemma held_more:
  assumes "held c l m st t w r" "overflow (rdbuf st)"
  shows "held c l m st (t @ u) w r"
  using assms buffered_more by (auto simp: held_def stream_holds_def) blast+

lemma do_outputs_held:
  assumes "bounded E" "stream_holds c l m t st"
  shows "held c l m st (t @ output_text c l (width st) xs) (foldl next_width (width st) xs) (do_outputs E xs st)"
  using assms(2)
proof (induction xs arbitrary: t st)
  case Nil
  then show ?case by (auto simp: held_def)
next
  case (Cons x xs)
  let ?t = "t @ output_text c l (width st) [x]" and ?u = "output_text c l (next_width (width st) x) xs"
  obtain e st' where x: "do_output E x st = Some (e, st')" "stream_holds c l m ?t st'" "throwing st' = throwing st"
    "overflow (rdbuf st) \<longrightarrow> overflow (rdbuf st')" "e = None \<or> overflow (rdbuf st') \<and> throwing st \<and> \<not> good st'" "\<not> good st' \<or> width st' = next_width (width st) x"
    using do_output_held [OF assms(1) Cons.prems, of x] by (auto simp: held_def)
  have whole: "t @ output_text c l (width st) (x # xs) = ?t @ ?u" by (subst output_text_Cons) simp
  let ?w = "foldl next_width (width st) (x # xs)"
  show ?case
  proof (cases "e = None")
    case True
    have "held c l m st' (?t @ ?u) ?w (do_outputs E xs st')"
    proof (cases "good st'")
      case True
      then show ?thesis using x Cons.IH [OF x(2)] by simp
    next
      case False
      then have "overflow (rdbuf st')" using x(2) by (simp add: stream_holds_def)
      then show ?thesis using held_more [OF do_outputs_bad [OF x(2) False]] by simp
    qed
    then show ?thesis unfolding whole using x True by (auto simp: then_do_def held_def)
  next
    case False
    then have "stream_holds c l m (?t @ ?u) st'" using x buffered_more [of ?t "rdbuf st'" ?u] by (auto simp: stream_holds_def)
    then show ?thesis unfolding whole using x False by (auto simp: then_do_def held_def)
  qed
qed

lemma do_outputs_append: "do_outputs E (xs @ ys) st = then_do (do_outputs E xs st) (do_outputs E ys)"
  by (induction xs arbitrary: st) (auto simp: then_do_def split: option.splits prod.splits)

lemma do_puts:
  assumes "good st" "length (put_area (rdbuf st)) + length u \<le> buffer_size"
  shows "do_outputs E (map Put u) st = Some (None, st\<lparr>rdbuf := (rdbuf st)\<lparr>put_area := put_area (rdbuf st) @ u\<rparr>\<rparr>)"
  using assms
proof (induction u arbitrary: st)
  case (Cons x u)
  then show ?case by (simp add: put_char_def guarded_def sputc_def with_buf_def then_do_def)
qed simp

text \<open>A stream that is attached to the text \<open>s0\<close>, without an error and with nothing in the put area.\<close>

definition ready :: "'c list \<Rightarrow> 'c fmt_stream \<Rightarrow> bool" where
  "ready s0 st \<longleftrightarrow> storage (rdbuf st) = Some s0 \<and> length s0 \<le> max_size (rdbuf st) \<and> \<not> overflow (rdbuf st) \<and>
     put_area (rdbuf st) = [] \<and> good st"

definition stream_text :: "'c fmt_stream \<Rightarrow> 'c stream_output list \<Rightarrow> 'c list" where
  "stream_text st = output_text (fill st) (align_left st) (width st)"

lemma then_do_Some: "then_do (Some (None, st)) f = f st"
  by (simp add: then_do_def)

lemma stream_flush_ready: "ready s0 st \<Longrightarrow> stream_flush E st = Some (None, st)"
  by (simp add: ready_def stream_flush_def guarded_def with_buf_def sync_def)

lemma ready_holds: "ready s0 st \<Longrightarrow> stream_holds (fill st) (align_left st) (max_size (rdbuf st)) s0 st"
  by (simp add: ready_def stream_holds_def buffered_def)

lemma outputs_flushed:
  assumes "bounded E" "stream_holds (fill st) (align_left st) (max_size (rdbuf st)) s0 st"
  shows "\<exists>e st'. then_do (do_outputs E xs st) (stream_flush E) = Some (e, st') \<and> stored (s0 @ stream_text st xs) (rdbuf st') \<and>
    max_size (rdbuf st') = max_size (rdbuf st) \<and> (e = None \<or> overflow (rdbuf st') \<and> throwing st) \<and> (good st' \<or> overflow (rdbuf st'))"
proof -
  let ?c = "fill st" and ?l = "align_left st" and ?m = "max_size (rdbuf st)" and ?t = "s0 @ stream_text st xs"
  obtain e st1 where o: "do_outputs E xs st = Some (e, st1)" "stream_holds ?c ?l ?m ?t st1" "throwing st1 = throwing st"
    "e = None \<or> overflow (rdbuf st1) \<and> throwing st \<and> \<not> good st1"
    using do_outputs_held [OF assms, of xs] by (auto simp: held_def stream_text_def)
  show ?thesis
  proof (cases "e = None")
    case True
    then show ?thesis using o stream_flush_held [OF assms(1) o(2)] by (auto simp: then_do_def stream_holds_def)
  next
    case False
    then show ?thesis using o by (auto simp: then_do_def stream_holds_def stored_def)
  qed
qed

section \<open>Limiting the size\<close>

lemma set_max_size_result:
  assumes "bounded E" "storage b = Some s" "n \<le> string_max_size E"
  shows "\<exists>i. set_max_size E n b = b\<lparr>storage := Some (take i s), max_size := n, overflow := (overflow b \<or> n < length s)\<rparr> \<and>
    (if n < length s then i \<le> n else i = length s)"
proof (cases "n < length s")
  case True
  then show ?thesis using assms boundedD [OF assms(1), of n "length s" s]
    by (cases b) (auto simp: set_max_size_def ensure_max_size_def intro: exI [of _ "length_until_boundary E s (length s) n"])
next
  case False
  then show ?thesis using assms by (cases b) (auto simp: set_max_size_def ensure_max_size_def)
qed

lemma set_max_size_fits:
  assumes "storage b = Some s" "length s \<le> n" "n \<le> string_max_size E"
  shows "set_max_size E n b = b\<lparr>max_size := n\<rparr>"
  using assms by (simp add: set_max_size_def ensure_max_size_def)

lemma append_marker_result:
  assumes "bounded E" "storage b = Some s" "length s \<le> max_size b" "length marker \<le> max_size b" "max_size b \<le> string_max_size E"
  shows "\<exists>i. length (take i s) + length marker \<le> max_size b \<and> append_marker E marker b =
    Some (b\<lparr>storage := Some (take i s @ marker), max_size := string_max_size E, overflow := False\<rparr>)"
proof -
  let ?n = "max_size b - length marker"
  obtain i where i: "set_max_size E ?n b = b\<lparr>storage := Some (take i s), max_size := ?n, overflow := (overflow b \<or> ?n < length s)\<rparr>"
    "if ?n < length s then i \<le> ?n else i = length s"
    using set_max_size_result [OF assms(1,2) le_trans [OF diff_le_self assms(5)]] by blast
  have len: "length (take i s) + length marker \<le> max_size b" using i(2) assms(4) by (auto split: if_splits)
  have "set_max_size E (string_max_size E) (b\<lparr>storage := Some (take i s), max_size := ?n, overflow := (overflow b \<or> ?n < length s)\<rparr>) =
    b\<lparr>storage := Some (take i s), max_size := string_max_size E, overflow := (overflow b \<or> ?n < length s)\<rparr>"
    using len assms(5) by (subst set_max_size_fits) auto
  then have "append_marker E marker b =
    map_option snd (append_chars E marker (b\<lparr>storage := Some (take i s), max_size := string_max_size E, overflow := False\<rparr>))"
    by (simp add: append_marker_def i(1) Let_def)
  also have "\<dots> = Some (b\<lparr>storage := Some (take i s @ marker), max_size := string_max_size E, overflow := False\<rparr>)"
  proof -
    have "\<not> min (length s) i < string_max_size E \<Longrightarrow> marker = []" using len assms(5) by (cases marker) auto
    then show ?thesis using len assms(5) by (cases b) (auto simp: append_chars_def size_left_def Let_def)
  qed
  finally have "append_marker E marker b =
    Some (b\<lparr>storage := Some (take i s @ marker), max_size := string_max_size E, overflow := False\<rparr>)" .
  then show ?thesis using len by auto
qed

text \<open>The text that the decorator makes of a text that starts at \<open>start\<close>, for some cut.\<close>

definition limited :: "nat \<Rightarrow> nat \<Rightarrow> 'c list \<Rightarrow> 'c list \<Rightarrow> 'c list \<Rightarrow> bool" where
  "limited start limit marker t u \<longleftrightarrow>
     (if length t \<le> start + limit then u = t else (\<exists>j. u = take j t @ marker \<and> length u \<le> start + limit))"

lemma limited_marker:
  assumes "bounded E" "stored t b" "overflow b" "max_size b = start + limit" "length marker \<le> limit" "start + limit \<le> string_max_size E"
  shows "\<exists>b' u. (if marker \<noteq> [] then append_marker E marker b else Some (b\<lparr>overflow := False\<rparr>)) = Some b' \<and>
    storage b' = Some u \<and> limited start limit marker t u \<and> \<not> overflow b'"
proof -
  obtain j where j: "j \<le> max_size b" "storage b = Some (take j t)" "max_size b < length t" using assms(2,3) by (auto simp: stored_def buffered_def)
  show ?thesis
  proof (cases "marker = []")
    case True
    then show ?thesis using j assms(4) by (auto simp: limited_def)
  next
    case False
    obtain i where i: "length (take i (take j t)) + length marker \<le> max_size b" "append_marker E marker b =
        Some (b\<lparr>storage := Some (take i (take j t) @ marker), max_size := string_max_size E, overflow := False\<rparr>)"
    proof -
      have "length (take j t) \<le> max_size b" "length marker \<le> max_size b" "max_size b \<le> string_max_size E" using j assms(4-6) by auto
      from append_marker_result [OF assms(1) j(2) this] show thesis using that by blast
    qed
    then have "limited start limit marker t (take i (take j t) @ marker)"
      using j(3) assms(4) by (auto simp: limited_def intro: exI [of _ "min i j"])
    then show ?thesis using False i by auto
  qed
qed


lemma limited_result:
  assumes "bounded E" "length marker \<le> limit" "start + limit \<le> string_max_size E"
    and "stored t b" "max_size b = start + limit" "e = None \<or> overflow b \<and> thr"
  shows "\<exists>b' u. (if e \<noteq> None then Some (b\<lparr>overflow := False\<rparr>)
      else if overflow b then (if marker \<noteq> [] then append_marker E marker b else Some (b\<lparr>overflow := False\<rparr>))
      else Some b) = Some b' \<and> storage b' = Some u \<and> \<not> overflow b' \<and>
    (if e = None then limited start limit marker t u
     else thr \<and> start + limit < length t \<and> (\<exists>j \<le> start + limit. u = take j t))"
proof (cases "overflow b")
  case False
  then show ?thesis using assms(4-6) by (auto simp: stored_def buffered_def limited_def)
next
  case True
  show ?thesis
  proof (cases "e = None")
    case True
    then show ?thesis using limited_marker [OF assms(1,4) \<open>overflow b\<close> assms(5,2,3)] \<open>overflow b\<close> by auto
  next
    case False
    then show ?thesis using assms(4-6) True by (auto simp: stored_def buffered_def)
  qed
qed

section \<open>Characters and errors at the limit\<close>

lemma boundary_loop_le: "boundary_loop s k \<le> k"
  by (induction k) auto

lemma bounded_units:
  "length_until_boundary E = length_until_boundary_2 \<Longrightarrow> bounded E"
  "length_until_boundary F = length_until_boundary_4 \<Longrightarrow> bounded F"
  using boundary_loop_le by (auto simp: bounded_def length_until_boundary_2_def length_until_boundary_4_def)

lemma boundary_complete: "boundary_loop s k = 0 \<or> \<not> is_leading_surrogate (s ! (boundary_loop s k - 1))"
  by (induction k) auto

text \<open>
  The put area is appended without regard to a character that goes on after it: sixteen units and one more, put one by
  one, leave the sixteen, also when the last of them is a leading surrogate.
\<close>

lemma split_character_stored:
  assumes "ready [] st" "max_size (rdbuf st) = 16" "length u = 16"
  shows "\<exists>st'. do_outputs E (map Put (u @ [c])) st = Some (None, st') \<and> storage (rdbuf st') = Some u \<and> overflow (rdbuf st')"
proof -
  let ?st = "st\<lparr>rdbuf := (rdbuf st)\<lparr>put_area := u\<rparr>\<rparr>"
  have "do_outputs E (map Put u) st = Some (None, ?st)" using assms do_puts [of st u E] by (simp add: ready_def buffer_size_def)
  then show ?thesis using assms
    by (auto simp: do_outputs_append then_do_Some put_char_def guarded_def sputc_def buffer_size_def overflow_char_def sync_def
        append_chars_def size_left_def push_back_def with_buf_def ready_def)
qed

text \<open>A write that is cut puts the stream into an error state, in which nothing more is written, or throws.\<close>

lemma truncated_write:
  assumes "bounded E" "ready s0 st" "max_size (rdbuf st) < length s0 + length s"
  shows "\<exists>st'. write_text E s st = Some (if throwing st then Some Stream_failure else None, st') \<and> \<not> good st'"
proof -
  let ?left = "max_size (rdbuf st) - length s0"
  have "length_until_boundary E s (length s) ?left \<le> ?left" "?left < length s"
    using assms(2,3) boundedD [OF assms(1), of ?left "length s" s] by (auto simp: ready_def)
  moreover have "size_left s0 (rdbuf st) = ?left" by (simp add: size_left_def)
  ultimately show ?thesis using assms(2)
    by (auto simp: write_text_def guarded_def xsputn_def sync_def append_chars_def ready_def setstate_bad_def Let_def)
qed

section \<open>Properties\<close>

text \<open>
  C38. The decorator that limits the size of a text, for a limit that is not below the length of the marker and with
  which the string stays below its largest size. When the decorated formatter returns, its output, with the marker
  when it was cut, is not longer than the limit. When it throws, which only a stream with exceptions enabled does
  and only for a text that exceeds the limit, the output that was written before is a part of the text within the
  limit and has no marker. In both cases the limit that the stream had before is in force again, and a text that
  exceeds it is cut to it.
\<close>

theorem max_size_decorator_limits:
  assumes "bounded E" "ready s0 st" "length marker \<le> limit"
    "length s0 + limit \<le> string_max_size E" "max_size (rdbuf st) \<le> string_max_size E"
  shows "\<exists>e st' u i. max_size_decorator_output E limit marker (\<lambda>st. Some (None, st)) (do_outputs E xs) st = Some (e, st') \<and>
    (if e = None then limited (length s0) limit marker (s0 @ stream_text st xs) u
     else throwing st \<and> length s0 + limit < length (s0 @ stream_text st xs) \<and>
       (\<exists>j \<le> length s0 + limit. u = take j (s0 @ stream_text st xs))) \<and>
    max_size (rdbuf st') = max_size (rdbuf st) \<and> storage (rdbuf st') = Some (take i u) \<and>
    (if length u \<le> max_size (rdbuf st) then i = length u \<and> \<not> overflow (rdbuf st') else i \<le> max_size (rdbuf st) \<and> overflow (rdbuf st'))"
proof -
  let ?t = "s0 @ stream_text st xs" and ?m = "max_size (rdbuf st)"
  let ?b = "(rdbuf st)\<lparr>max_size := length s0 + limit\<rparr>"
  have st: "storage (rdbuf st) = Some s0" "\<not> overflow (rdbuf st)" "put_area (rdbuf st) = []" "good st" using assms(2) by (auto simp: ready_def)
  have b: "set_max_size E (length s0 + limit) (rdbuf st) = ?b" using st(1) assms(4) by (intro set_max_size_fits) auto
  have "ready s0 (st\<lparr>rdbuf := ?b\<rparr>)" using st by (simp add: ready_def)
  then obtain e st1 where o: "then_do (do_outputs E xs (st\<lparr>rdbuf := ?b\<rparr>)) (stream_flush E) = Some (e, st1)" "stored ?t (rdbuf st1)"
    "max_size (rdbuf st1) = length s0 + limit" "e = None \<or> overflow (rdbuf st1) \<and> throwing st"
    using outputs_flushed [OF assms(1) ready_holds, of s0 "st\<lparr>rdbuf := ?b\<rparr>" xs] by (auto simp: stream_text_def)
  let ?r = "if e \<noteq> None then Some ((rdbuf st1)\<lparr>overflow := False\<rparr>)
    else if overflow (rdbuf st1) then (if marker \<noteq> [] then append_marker E marker (rdbuf st1) else Some ((rdbuf st1)\<lparr>overflow := False\<rparr>))
    else Some (rdbuf st1)"
  obtain b' u where r: "?r = Some b'" "storage b' = Some u" "\<not> overflow b'"
    "if e = None then limited (length s0) limit marker ?t u
     else throwing st \<and> length s0 + limit < length ?t \<and> (\<exists>j \<le> length s0 + limit. u = take j ?t)"
    using limited_result [OF assms(1,3,4) o(2-4)] by blast
  obtain i where i: "set_max_size E ?m b' = b'\<lparr>storage := Some (take i u), max_size := ?m, overflow := (overflow b' \<or> ?m < length u)\<rparr>"
    "if ?m < length u then i \<le> ?m else i = length u"
    using set_max_size_result [OF assms(1) r(2) assms(5)] by blast
  have "max_size_decorator_output E limit marker (\<lambda>st. Some (None, st)) (do_outputs E xs) st =
    Some (e, st1\<lparr>rdbuf := set_max_size E ?m b'\<rparr>)"
  proof -
    have "limit \<le> string_max_size E - length s0" using assms(4) by simp
    then show ?thesis using o(1) b st(1,2) stream_flush_ready [OF assms(2)] r(1)
      by (cases e) (auto simp: max_size_decorator_output_def then_do_Some Let_def with_buf_def split: if_splits)
  qed
  then show ?thesis using r(3,4) i
    by (intro exI [of _ e] exI [of _ "st1\<lparr>rdbuf := set_max_size E ?m b'\<rparr>"] exI [of _ u] exI [of _ i])
      (simp add: not_le not_less split: if_splits)
qed

text \<open>
  C37. Whatever sequence of operations writes characters to a stream with a limit, the storage afterwards holds the
  text, or a part of it from its beginning that is within the limit, and the overflow flag tells which. Only a
  text that does not fit can raise an error.
\<close>

theorem stream_output_within_limit:
  assumes "bounded E" "ready s0 st"
  shows "\<exists>e st' j. do_outputs E (xs @ [Flush]) st = Some (e, st') \<and>
    storage (rdbuf st') = Some (take j (s0 @ stream_text st xs)) \<and> j \<le> max_size (rdbuf st) \<and>
    (if length (s0 @ stream_text st xs) \<le> max_size (rdbuf st)
     then e = None \<and> good st' \<and> \<not> overflow (rdbuf st') \<and> j = length (s0 @ stream_text st xs)
     else overflow (rdbuf st'))"
proof -
  let ?t = "s0 @ stream_text st xs"
  obtain e st' where o: "then_do (do_outputs E xs st) (stream_flush E) = Some (e, st')" "stored ?t (rdbuf st')"
    "max_size (rdbuf st') = max_size (rdbuf st)" "e = None \<or> overflow (rdbuf st') \<and> throwing st" "good st' \<or> overflow (rdbuf st')"
    using outputs_flushed [OF assms(1) ready_holds [OF assms(2)], of xs] by blast
  have "do_outputs E [Flush] = stream_flush E" by (rule ext) (simp add: then_do_def split: option.split prod.split)
  then have "do_outputs E (xs @ [Flush]) st = Some (e, st')" using o(1) by (simp add: do_outputs_append)
  moreover have "\<exists>j. storage (rdbuf st') = Some (take j ?t) \<and> j \<le> max_size (rdbuf st) \<and>
    (if length ?t \<le> max_size (rdbuf st) then \<not> overflow (rdbuf st') \<and> j = length ?t else overflow (rdbuf st'))"
    using o(2,3) by (cases "overflow (rdbuf st')") (auto simp: stored_def buffered_def)
  ultimately show ?thesis using o(4,5) by auto
qed

section \<open>Witnesses\<close>

text \<open>A stream of characters with a limit.\<close>

definition demo_locale :: "char char_env" where
  "demo_locale = \<lparr>string_max_size = 100, length_until_boundary = length_until_boundary_4, blank = CHR '' ''\<rparr>"

definition demo_stream :: "string \<Rightarrow> nat \<Rightarrow> char fmt_stream" where
  "demo_stream s m = (let st = new_stream demo_locale s in st\<lparr>rdbuf := set_max_size demo_locale m (rdbuf st)\<rparr>)"

lemma demo_bounded: "bounded demo_locale"
  by (simp add: bounded_def demo_locale_def length_until_boundary_4_def)

lemma demo_ready: "length s \<le> m \<Longrightarrow> m \<le> 100 \<Longrightarrow> ready s (demo_stream s m)"
  by (simp add: ready_def demo_stream_def new_stream_def init_stream_def set_max_size_def ensure_max_size_def new_streambuf_def
      demo_locale_def Let_def)

lemma demo_stream_simps [simp]:
  "length s \<le> m \<Longrightarrow> m \<le> 100 \<Longrightarrow> max_size (rdbuf (demo_stream s m)) = m"
  "fill (demo_stream s m) = CHR '' ''" "\<not> align_left (demo_stream s m)" "width (demo_stream s m) = 0" "\<not> throwing (demo_stream s m)"
  by (simp_all add: demo_stream_def new_stream_def init_stream_def set_max_size_def ensure_max_size_def new_streambuf_def
      demo_locale_def Let_def)

theorem stream_output_within_limit_witness:
  "\<exists>e st' j. do_outputs demo_locale ([Put CHR ''c'', Setw 5, Insert ''def''] @ [Flush]) (demo_stream ''ab'' 6) = Some (e, st') \<and>
    storage (rdbuf st') = Some (take j ''abc  def'') \<and> j \<le> 6 \<and> overflow (rdbuf st')"
  using stream_output_within_limit [OF demo_bounded demo_ready [of "''ab''" 6], of "[Put CHR ''c'', Setw 5, Insert ''def'']"]
  by (simp add: stream_text_def padded_def numeral_eq_Suc)

lemma demo_throwing_ready: "length s \<le> m \<Longrightarrow> m \<le> 100 \<Longrightarrow> ready s ((demo_stream s m)\<lparr>throwing := True\<rparr>)"
  using demo_ready [of s m] by (simp add: ready_def)

theorem max_size_decorator_limits_witness:
  "(\<exists>st' u. max_size_decorator_output demo_locale 5 ''>>'' (\<lambda>st. Some (None, st)) (do_outputs demo_locale [Insert ''quick fox'']) (demo_stream ''ab'' 20) = Some (None, st') \<and>
    storage (rdbuf st') = Some u \<and> length u \<le> 7 \<and> (\<exists>j. u = take j ''abquick fox'' @ ''>>'')) \<and>
   (\<exists>e st' j. max_size_decorator_output demo_locale 5 ''>>'' (\<lambda>st. Some (None, st)) (do_outputs demo_locale [Write ''quick fox''])
      ((demo_stream ''ab'' 20)\<lparr>throwing := True\<rparr>) = Some (Some e, st') \<and>
    max_size (rdbuf st') = 20 \<and> storage (rdbuf st') = Some (take j ''abquick fox''))"
proof
  show "\<exists>st' u. max_size_decorator_output demo_locale 5 ''>>'' (\<lambda>st. Some (None, st)) (do_outputs demo_locale [Insert ''quick fox'']) (demo_stream ''ab'' 20) = Some (None, st') \<and>
    storage (rdbuf st') = Some u \<and> length u \<le> 7 \<and> (\<exists>j. u = take j ''abquick fox'' @ ''>>'')"
    using max_size_decorator_limits [OF demo_bounded demo_ready [of "''ab''" 20], of "''>>''" 5 "[Insert ''quick fox'']"]
    by (auto simp: limited_def stream_text_def padded_def demo_locale_def split: if_splits)
  let ?r = "max_size_decorator_output demo_locale 5 ''>>'' (\<lambda>st. Some (None, st)) (do_outputs demo_locale [Write ''quick fox''])
      ((demo_stream ''ab'' 20)\<lparr>throwing := True\<rparr>)"
  have "map_option fst ?r = Some (Some Stream_failure)" by code_simp
  then show "\<exists>e st' j. ?r = Some (Some e, st') \<and> max_size (rdbuf st') = 20 \<and> storage (rdbuf st') = Some (take j ''abquick fox'')"
    using max_size_decorator_limits [OF demo_bounded demo_throwing_ready [of "''ab''" 20], of "''>>''" 5 "[Write ''quick fox'']"]
    by (auto simp: stream_text_def demo_locale_def take_take split: if_splits)
qed

end
