(* ===== verification/Stream_Conversion.thy ===== *)
theory Stream_Conversion
  imports Stream_Output
begin

text \<open>
  The conversion loop on a facet that encodes character by character, and the output of text of another character type.
\<close>

section \<open>Converting text\<close>

text \<open>
  A facet without a state that writes the units of an encoding for each character, as many characters as fit, as the
  facets from wide characters to a multibyte encoding do.
\<close>

fun fit :: "('d \<Rightarrow> 'c list) \<Rightarrow> 'd list \<Rightarrow> nat \<Rightarrow> nat" where
  "fit enc [] limit = 0"
| "fit enc (c # cs) limit = (if length (enc c) \<le> limit then Suc (fit enc cs (limit - length (enc c))) else 0)"

definition encoding :: "('d \<Rightarrow> 'c list) \<Rightarrow> 'd list \<Rightarrow> 'c list" where
  "encoding enc s = concat (map enc s)"

definition encoder_facet :: "('d \<Rightarrow> 'c list) \<Rightarrow> (unit, 'd, 'c) facet" where
  "encoder_facet enc =
     \<lparr>init_state = (),
      cvt = (\<lambda>st src limit. let k = fit enc src limit
             in (if k = length src then Cvt_ok else Cvt_partial, (), k, encoding enc (take k src))),
      unit_cast = (\<lambda>c. hd (enc c))\<rparr>"

lemma encoding_simps [simp]:
  "encoding enc [] = []" "encoding enc (c # s) = enc c @ encoding enc s" "encoding enc (s @ t) = encoding enc s @ encoding enc t"
  by (simp_all add: encoding_def)

lemma fit_le: "fit enc src limit \<le> length src"
  by (induction src arbitrary: limit) auto

lemma fit_encoding: "length (encoding enc (take (fit enc src limit) src)) \<le> limit"
proof (induction src arbitrary: limit)
  case (Cons c src)
  show ?case using Cons.IH [of "limit - length (enc c)"] by auto
qed simp

lemma fit_split:
  assumes "k \<le> limit"
  shows "fit enc src limit =
    fit enc src k + fit enc (drop (fit enc src k) src) (limit - length (encoding enc (take (fit enc src k) src)))"
  using assms
proof (induction src arbitrary: k limit)
  case (Cons c src)
  show ?case using Cons.prems Cons.IH [of "k - length (enc c)" "limit - length (enc c)"] by (auto simp: diff_diff_left)
qed simp

text \<open>Every character has an encoding, which fits into the buffer of the conversion.\<close>

definition encodes :: "('d \<Rightarrow> 'c list) \<Rightarrow> bool" where
  "encodes enc \<longleftrightarrow> (\<forall>c. enc c \<noteq> [] \<and> length (enc c) \<le> 256)"

lemma encodes_take:
  assumes "encodes enc" "encoding enc (take k src) = []" "k \<le> length src"
  shows "k = 0"
  using assms by (cases k; cases src) (auto simp: encodes_def)

definition conversion_result :: "('d \<Rightarrow> 'c list) \<Rightarrow> 'd list \<Rightarrow> nat \<Rightarrow> nat option" where
  "conversion_result enc src limit =
     (let k = fit enc src limit
      in if k = length src \<or> length (encoding enc (take k src)) = limit then Some k else None)"

lemma conversion_result_split:
  assumes "b \<le> limit"
  shows "conversion_result enc src limit = map_option ((+) (fit enc src b))
    (conversion_result enc (drop (fit enc src b) src) (limit - length (encoding enc (take (fit enc src b) src))))"
proof -
  define k where "k = fit enc src b"
  define out where "out = encoding enc (take k src)"
  define r where "r = fit enc (drop k src) (limit - length out)"
  have eq: "fit enc src limit = k + r" unfolding k_def r_def out_def using assms by (rule fit_split)
  have k: "k \<le> length src" "length out \<le> limit" using fit_le fit_encoding [of enc src b] assms by (simp_all add: k_def out_def)
  have "k + r = length src \<longleftrightarrow> r = length src - k" using k(1) by auto
  moreover have "length (encoding enc (take (k + r) src)) = limit \<longleftrightarrow> length (encoding enc (take r (drop k src))) = limit - length out"
    using k(2) by (auto simp: take_add out_def)
  ultimately show ?thesis
    by (simp add: conversion_result_def eq Let_def k_def [symmetric] out_def [symmetric] r_def [symmetric])
qed

lemma convert_loop_encoder:
  assumes "encodes enc"
  shows "convert_loop (encoder_facet enc) st src limit conv n =
    Some (map_option ((+) n) (conversion_result enc src limit), conv @ encoding enc (take (fit enc src limit) src))"
proof (induction "length src" arbitrary: st src limit conv n rule: less_induct)
  case less
  let ?buf = "min limit 256" let ?k = "fit enc src ?buf" let ?out = "encoding enc (take ?k src)"
  have split: "fit enc src limit = ?k + fit enc (drop ?k src) (limit - length ?out)" by (rule fit_split) simp
  show ?case
  proof (cases "src \<noteq> [] \<and> ?buf > 0")
    case False
    then have "fit enc src limit = 0" using assms by (cases src) (auto simp: encodes_def min_def split: if_splits)
    then show ?thesis using False by (subst convert_loop.simps) (auto simp: conversion_result_def min_def split: if_splits)
  next
    case True
    have unfolded: "convert_loop (encoder_facet enc) st src limit conv n =
      (if ?k = length src \<or> ?out \<noteq> []
       then convert_loop (encoder_facet enc) () (drop ?k src) (limit - length ?out) (conv @ ?out) (n + ?k)
       else Some (None, conv))"
      using True fit_le [of enc src ?buf] by (subst convert_loop.simps) (auto simp: encoder_facet_def Let_def)
    show ?thesis
    proof (cases "?k = 0")
      case zero: True
      then obtain c cs where src: "src = c # cs" "length (enc c) > ?buf" using True by (cases src) (auto split: if_splits)
      moreover have "length (enc c) \<le> 256" using assms by (simp add: encodes_def)
      ultimately have "?buf = limit" "0 < limit" using True by (auto simp: min_def split: if_splits)
      then show ?thesis using zero src unfolded by (simp add: conversion_result_def)
    next
      case pos: False
      have out: "?out \<noteq> []" using pos encodes_take [OF assms _ fit_le] by metis
      have "length (drop ?k src) < length src" using pos True by simp
      from less [OF this] have "convert_loop (encoder_facet enc) st src limit conv n =
        Some (map_option ((+) (n + ?k)) (conversion_result enc (drop ?k src) (limit - length ?out)),
          conv @ ?out @ encoding enc (take (fit enc (drop ?k src) (limit - length ?out)) (drop ?k src)))"
        using unfolded out by simp
      moreover have "encoding enc (take (fit enc src limit) src) =
        ?out @ encoding enc (take (fit enc (drop ?k src) (limit - length ?out)) (drop ?k src))"
        unfolding split by (simp add: take_add)
      moreover have "conversion_result enc src limit = map_option ((+) ?k) (conversion_result enc (drop ?k src) (limit - length ?out))"
        by (rule conversion_result_split) simp
      moreover have "(+) (n + ?k) = (\<lambda>x. n + (?k + x))" by (rule ext) simp
      ultimately show ?thesis by (simp add: option.map_comp comp_def)
    qed
  qed
qed

text \<open>
  C39. The output of text of another character type, of a different size, to a stream, with a facet that has no state and
  encodes character by character: the encoding of as many characters as fit is appended,
  where the limit of the stream counts for the new text alone, whatever the stream holds already. When the limit is
  reached exactly at the end of a character the overflow flag is set, otherwise the conversion throws.
\<close>

theorem converted_output_result:
  assumes "encodes enc" "ready s0 st"
  shows "\<exists>st' k. write_other E (code_convert_impl (encoder_facet enc)) p st =
      Some (if k = length p \<or> length (encoding enc (take k p)) = max_size (rdbuf st) then None else Some Conversion_error, st') \<and>
    k = fit enc p (max_size (rdbuf st)) \<and> storage (rdbuf st') = Some (s0 @ encoding enc (take k p)) \<and>
    (overflow (rdbuf st') \<longleftrightarrow> k < length p \<and> length (encoding enc (take k p)) = max_size (rdbuf st))"
proof -
  let ?m = "max_size (rdbuf st)" let ?k = "fit enc p ?m"
  have c: "code_convert_impl (encoder_facet enc) p ?m s0 =
    Some (map_option (\<lambda>n. n = length p) (conversion_result enc p ?m), s0 @ encoding enc (take ?k p))"
    using convert_loop_encoder [OF assms(1)]
    by (simp add: code_convert_impl_def code_convert_def option.map_comp comp_def)
  have st: "storage (rdbuf st) = Some s0" "\<not> overflow (rdbuf st)" "good st" using assms(2) by (auto simp: ready_def)
  show ?thesis
    using st stream_flush_ready [OF assms(2), of E] c fit_le [of enc p ?m]
    by (auto simp: write_other_def guarded_def then_do_Some convert_to_storage_def conversion_result_def Let_def)
qed

text \<open>The text of seven characters is written to the storage with a limit of four, and no overflow is seen.\<close>

theorem converted_output_result_witness:
  "\<exists>st'. write_other demo_locale (code_convert_impl (encoder_facet (\<lambda>c. [c]))) ''defg'' (demo_stream ''abc'' 4) = Some (None, st') \<and>
    storage (rdbuf st') = Some ''abcdefg'' \<and> \<not> overflow (rdbuf st')"
  using converted_output_result [of "\<lambda>c. [c]", OF _ demo_ready [of "''abc''" 4], of demo_locale "''defg''"]
  by (simp add: encodes_def)


end
