(* ===== verification/Formatting_Frontend.thy ===== *)
theory Formatting_Frontend
  imports Formatting_Stream
begin

text \<open>
  The frontend of a sink that formats records: filter and exception handler, the formatter and the locale with their
  version, and the formatting context of each thread. The operations that the code runs under the mutex of the
  frontend are single steps. The backend is a parameter.
\<close>

section \<open>The state\<close>

text \<open>
  A formatter takes the record, the locale of the stream and the stream. A handler yields the error that it throws, if
  any. The version is an unsigned int.
\<close>

type_synonym ('r, 'c) record_formatter = "'r \<Rightarrow> 'c char_env \<Rightarrow> 'c formatter"

datatype frontend_error = Formatting_failed stream_error | Backend_failed nat | Filter_failed nat | Lock_failed | Handler_failed nat

record ('r, 'c) formatting_context =
  context_version :: "32 word"
  formatting_stream :: "'c fmt_stream"
  context_locale :: "'c char_env"
  context_formatter :: "('r, 'c) record_formatter"

record ('r, 'c, 'v) frontend =
  front_filter :: "'v \<Rightarrow> frontend_error + bool"
  exception_handler :: "(frontend_error \<Rightarrow> frontend_error option) option"
  version :: "32 word"
  front_formatter :: "('r, 'c) record_formatter"
  front_locale :: "'c char_env"
  contexts :: "nat \<Rightarrow> ('r, 'c) formatting_context option"

section \<open>Settings\<close>

definition set_filter :: "('v \<Rightarrow> frontend_error + bool) \<Rightarrow> ('r, 'c, 'v) frontend \<Rightarrow> ('r, 'c, 'v) frontend" where
  "set_filter flt f = f\<lparr>front_filter := flt\<rparr>"

text \<open>The default filter passes everything.\<close>

definition reset_filter :: "('r, 'c, 'v) frontend \<Rightarrow> ('r, 'c, 'v) frontend" where
  "reset_filter f = f\<lparr>front_filter := (\<lambda>v. Inr True)\<rparr>"

definition set_exception_handler :: "(frontend_error \<Rightarrow> frontend_error option) \<Rightarrow> ('r, 'c, 'v) frontend \<Rightarrow> ('r, 'c, 'v) frontend" where
  "set_exception_handler h f = f\<lparr>exception_handler := Some h\<rparr>"

definition reset_exception_handler :: "('r, 'c, 'v) frontend \<Rightarrow> ('r, 'c, 'v) frontend" where
  "reset_exception_handler f = f\<lparr>exception_handler := None\<rparr>"

definition set_formatter :: "('r, 'c) record_formatter \<Rightarrow> ('r, 'c, 'v) frontend \<Rightarrow> ('r, 'c, 'v) frontend" where
  "set_formatter fmt f = f\<lparr>front_formatter := fmt, version := version f + 1\<rparr>"

definition reset_formatter :: "('r, 'c) record_formatter \<Rightarrow> ('r, 'c, 'v) frontend \<Rightarrow> ('r, 'c, 'v) frontend" where
  "reset_formatter default_formatter f = f\<lparr>front_formatter := default_formatter, version := version f + 1\<rparr>"

definition imbue :: "'c char_env \<Rightarrow> ('r, 'c, 'v) frontend \<Rightarrow> ('r, 'c, 'v) frontend" where
  "imbue loc f = f\<lparr>front_locale := loc, version := version f + 1\<rparr>"

section \<open>Errors\<close>

text \<open>An error is thrown on when there is no handler.\<close>

definition handle :: "('r, 'c, 'v) frontend \<Rightarrow> frontend_error \<Rightarrow> frontend_error option" where
  "handle f e = (case exception_handler f of None \<Rightarrow> Some e | Some h \<Rightarrow> h e)"

definition will_consume :: "'v \<Rightarrow> ('r, 'c, 'v) frontend \<Rightarrow> frontend_error + bool" where
  "will_consume attrs f =
     (case front_filter f attrs of
        Inr b \<Rightarrow> Inr b
      | Inl e \<Rightarrow> (case handle f e of None \<Rightarrow> Inr False | Some e \<Rightarrow> Inl e))"

section \<open>Feeding records\<close>

definition new_context :: "('r, 'c, 'v) frontend \<Rightarrow> ('r, 'c) formatting_context" where
  "new_context f =
     \<lparr>context_version = version f, formatting_stream = (new_stream (front_locale f) [])\<lparr>throwing := True\<rparr>,
      context_locale = front_locale f, context_formatter = front_formatter f\<rparr>"

definition get_context :: "nat \<Rightarrow> ('r, 'c, 'v) frontend \<Rightarrow> ('r, 'c) formatting_context" where
  "get_context t f =
     (case contexts f t of
        Some c \<Rightarrow> if context_version c \<noteq> version f then new_context f else c
      | None \<Rightarrow> new_context f)"

text \<open>The destructor of the cleanup guard.\<close>

definition cleanup :: "('r, 'c) formatting_context \<Rightarrow> ('r, 'c) formatting_context" where
  "cleanup c =
     (let st = formatting_stream c; E = context_locale c;
          b = set_max_size E (string_max_size E) ((rdbuf st)\<lparr>storage := map_option (\<lambda>s. []) (storage (rdbuf st))\<rparr>)
      in c\<lparr>formatting_stream := st\<lparr>rdbuf := b\<lparr>overflow := False\<rparr>, good := True\<rparr>\<rparr>)"

text \<open>
  The backend takes the record and its text and yields its new state and the error that it throws, if any. The result is
  the error that is thrown to the caller.
\<close>

type_synonym ('r, 'c, 'b) backend_consume = "'r \<Rightarrow> 'c list \<Rightarrow> 'b \<Rightarrow> nat option \<times> 'b"

definition feed_record ::
  "('r, 'c, 'b) backend_consume \<Rightarrow> nat \<Rightarrow> 'r \<Rightarrow> ('r, 'c, 'v) frontend \<times> 'b \<Rightarrow>
   (frontend_error option \<times> ('r, 'c, 'v) frontend \<times> 'b) option" where
  "feed_record consume t r = (\<lambda>(f, b).
     let c = get_context t f;
         done = (\<lambda>e st b. (e, f\<lparr>contexts := (contexts f)(t \<mapsto> cleanup (c\<lparr>formatting_stream := st\<rparr>))\<rparr>, b))
     in case then_do (context_formatter c r (context_locale c) (formatting_stream c)) (stream_flush (context_locale c)) of
          None \<Rightarrow> None
        | Some (Some e, st) \<Rightarrow> Some (done (handle f (Formatting_failed e)) st b)
        | Some (None, st) \<Rightarrow>
            map_option (\<lambda>s.
              case consume r s b of
                (None, b) \<Rightarrow> done None st b
              | (Some e, b) \<Rightarrow> done (handle f (Backend_failed e)) st b) (storage (rdbuf st)))"

text \<open>The mutex of the backend is free, taken or its operation throws.\<close>

datatype lock_attempt = Locked | Not_locked | Lock_throws

definition try_feed_record ::
  "('r, 'c, 'b) backend_consume \<Rightarrow> lock_attempt \<Rightarrow> nat \<Rightarrow> 'r \<Rightarrow> ('r, 'c, 'v) frontend \<times> 'b \<Rightarrow>
   ((frontend_error + bool) \<times> ('r, 'c, 'v) frontend \<times> 'b) option" where
  "try_feed_record consume lock t r = (\<lambda>(f, b).
     case lock of
       Not_locked \<Rightarrow> Some (Inr False, f, b)
     | Lock_throws \<Rightarrow> Some (case handle f Lock_failed of None \<Rightarrow> Inr False | Some e \<Rightarrow> Inl e, f, b)
     | Locked \<Rightarrow>
         map_option (\<lambda>(e, s). (case e of None \<Rightarrow> Inr True | Some e \<Rightarrow> Inl e, s)) (feed_record consume t r (f, b)))"

text \<open>Feeding and flushing a backend that does not need formatted records.\<close>

definition feed_record_plain :: "('r \<Rightarrow> 'b \<Rightarrow> nat option \<times> 'b) \<Rightarrow> 'r \<Rightarrow> ('r, 'c, 'v) frontend \<times> 'b \<Rightarrow> frontend_error option \<times> 'b" where
  "feed_record_plain consume r = (\<lambda>(f, b).
     case consume r b of (None, b) \<Rightarrow> (None, b) | (Some e, b) \<Rightarrow> (handle f (Backend_failed e), b))"

definition try_feed_record_plain ::
  "('r \<Rightarrow> 'b \<Rightarrow> nat option \<times> 'b) \<Rightarrow> lock_attempt \<Rightarrow> 'r \<Rightarrow> ('r, 'c, 'v) frontend \<times> 'b \<Rightarrow> (frontend_error + bool) \<times> 'b" where
  "try_feed_record_plain consume lock r = (\<lambda>(f, b).
     case lock of
       Not_locked \<Rightarrow> (Inr False, b)
     | Lock_throws \<Rightarrow> (case handle f Lock_failed of None \<Rightarrow> Inr False | Some e \<Rightarrow> Inl e, b)
     | Locked \<Rightarrow> (case feed_record_plain consume r (f, b) of (None, b) \<Rightarrow> (Inr True, b) | (Some e, b) \<Rightarrow> (Inl e, b)))"

definition flush_backend :: "bool \<Rightarrow> ('b \<Rightarrow> nat option \<times> 'b) \<Rightarrow> ('r, 'c, 'v) frontend \<times> 'b \<Rightarrow> frontend_error option \<times> 'b" where
  "flush_backend flushing do_flush = (\<lambda>(f, b).
     if flushing
     then (case do_flush b of (None, b) \<Rightarrow> (None, b) | (Some e, b) \<Rightarrow> (handle f (Backend_failed e), b))
     else (None, b))"

end
