(* ===== verification/Formatting_Frontend_Properties.thy ===== *)
theory Formatting_Frontend_Properties
  imports Formatting_Frontend Stream_Output
begin

text \<open>
  The formatting frontend against a specification without contexts: each record is formatted on a new stream with
  the current settings, as long as the formatter leaves nothing in the stream and restores its format parameters.
\<close>

section \<open>Clean contexts\<close>

definition fresh_stream :: "'c char_env \<Rightarrow> 'c fmt_stream" where
  "fresh_stream E = (new_stream E [])\<lparr>throwing := True\<rparr>"

definition format_record :: "('r, 'c) record_formatter \<Rightarrow> 'c char_env \<Rightarrow> 'r \<Rightarrow> 'c outcome" where
  "format_record fmt E r = then_do (fmt r E (fresh_stream E)) (stream_flush E)"

text \<open>
  A formatter is tidy on a record when it ends and leaves the stream attached, with the format parameters that it found
  and with nothing in the put area.
\<close>

definition tidy :: "('r, 'c) record_formatter \<Rightarrow> 'c char_env \<Rightarrow> 'r \<Rightarrow> bool" where
  "tidy fmt E r = (case format_record fmt E r of
     None \<Rightarrow> False
   | Some (e, st) \<Rightarrow> storage (rdbuf st) \<noteq> None \<and> put_area (rdbuf st) = [] \<and> throwing st \<and> width st = 0 \<and>
       fill st = blank E \<and> \<not> align_left st \<and> fmt_flags st = initial_flags \<and> precision st = 6)"

lemma fresh_stream_simps [simp]:
  "rdbuf (fresh_stream E) = \<lparr>storage = Some [], max_size = string_max_size E, overflow = False, put_area = []\<rparr>"
  "good (fresh_stream E)" "throwing (fresh_stream E)" "width (fresh_stream E) = 0" "fill (fresh_stream E) = blank E" "\<not> align_left (fresh_stream E)"
  "fmt_flags (fresh_stream E) = initial_flags" "precision (fresh_stream E) = 6"
  by (simp_all add: fresh_stream_def new_stream_def init_stream_def set_max_size_def ensure_max_size_def new_streambuf_def)

lemma fresh_stream_ready: "ready [] (fresh_stream E)"
  by (simp add: ready_def)

lemma cleanup_fresh:
  assumes "storage (rdbuf st) = Some s" "throwing st" "width st = 0" "fill st = blank (context_locale c)" "\<not> align_left st"
    "fmt_flags st = initial_flags" "precision st = 6"
  shows "cleanup (c\<lparr>formatting_stream := st\<rparr>) =
    c\<lparr>formatting_stream := (fresh_stream (context_locale c))\<lparr>rdbuf := (rdbuf (fresh_stream (context_locale c)))\<lparr>put_area := put_area (rdbuf st)\<rparr>\<rparr>\<rparr>"
proof -
  have "st\<lparr>rdbuf := (rdbuf st)\<lparr>storage := Some [], max_size := string_max_size (context_locale c), overflow := False\<rparr>, good := True\<rparr> =
    (fresh_stream (context_locale c))\<lparr>rdbuf := (rdbuf (fresh_stream (context_locale c)))\<lparr>put_area := put_area (rdbuf st)\<rparr>\<rparr>"
    using assms(2-7) by (intro fmt_stream.equality) simp_all
  then show ?thesis using assms(1)
    by (simp add: cleanup_def set_max_size_def ensure_max_size_def Let_def)
qed

section \<open>The invariant of the frontend\<close>

text \<open>After \<open>n\<close> changes of the settings, with every context clean and those of the current version up to date.\<close>

definition clean_context :: "('r, 'c) formatting_context \<Rightarrow> bool" where
  "clean_context c \<longleftrightarrow> formatting_stream c = fresh_stream (context_locale c)"

definition frontend_ok :: "nat \<Rightarrow> ('r, 'c, 'v) frontend \<Rightarrow> bool" where
  "frontend_ok n f \<longleftrightarrow> version f = word_of_nat n \<and> n < 2 ^ 32 \<and>
     (\<forall>t c. contexts f t = Some c \<longrightarrow> clean_context c \<and>
        (\<exists>m \<le> n. context_version c = word_of_nat m \<and>
           (m = n \<longrightarrow> context_formatter c = front_formatter f \<and> context_locale c = front_locale f)))"

lemma word_of_nat_inj:
  assumes "m < 2 ^ 32" "n < 2 ^ 32" "word_of_nat m = (word_of_nat n :: 32 word)"
  shows "m = n"
proof -
  have "unat (word_of_nat k :: 32 word) = k" if "k < 2 ^ 32" for k using that by (simp add: unat_of_nat)
  then show ?thesis using assms by metis
qed

lemma get_context_fresh:
  assumes "frontend_ok n f"
  shows "get_context t f = \<lparr>context_version = version f, formatting_stream = fresh_stream (front_locale f),
    context_locale = front_locale f, context_formatter = front_formatter f\<rparr>"
proof (cases "contexts f t")
  case None
  then show ?thesis by (simp add: get_context_def new_context_def fresh_stream_def)
next
  case (Some c)
  show ?thesis
  proof (cases "context_version c = version f")
    case True
    obtain m where m: "m \<le> n" "context_version c = word_of_nat m" "m = n \<longrightarrow> context_formatter c = front_formatter f \<and> context_locale c = front_locale f"
      "clean_context c" using assms Some by (auto simp: frontend_ok_def)
    have "n < 2 ^ 32" "word_of_nat m = (word_of_nat n :: 32 word)" using assms True m(2) unfolding frontend_ok_def by simp_all
    then have "m = n" using m(1) word_of_nat_inj [of m n] by simp
    then show ?thesis using Some True m by (cases c) (auto simp: get_context_def clean_context_def)
  next
    case False
    then show ?thesis using Some by (simp add: get_context_def new_context_def fresh_stream_def)
  qed
qed

section \<open>Runs\<close>

text \<open>Changes of the settings and records of threads, and what they mean without contexts.\<close>

datatype ('r, 'c) frontend_event =
  Set_formatter "('r, 'c) record_formatter" | Imbue "'c char_env" | Feed nat 'r

fun frontend_run ::
  "('r, 'c, 'b) backend_consume \<Rightarrow> ('r, 'c) frontend_event list \<Rightarrow> ('r, 'c, 'v) frontend \<times> 'b \<Rightarrow>
   (frontend_error option list \<times> 'b) option" where
  "frontend_run consume [] (f, b) = Some ([], b)"
| "frontend_run consume (Set_formatter fmt # es) (f, b) = frontend_run consume es (set_formatter fmt f, b)"
| "frontend_run consume (Imbue loc # es) (f, b) = frontend_run consume es (imbue loc f, b)"
| "frontend_run consume (Feed t r # es) (f, b) =
     (case feed_record consume t r (f, b) of
        None \<Rightarrow> None
      | Some (e, s) \<Rightarrow> map_option (\<lambda>(errs, b). (e # errs, b)) (frontend_run consume es s))"

definition spec_feed ::
  "('r, 'c, 'b) backend_consume \<Rightarrow> (frontend_error \<Rightarrow> frontend_error option) \<Rightarrow> stream_error option \<times> 'c fmt_stream \<Rightarrow> 'r \<Rightarrow> 'b \<Rightarrow>
   frontend_error option \<times> 'b" where
  "spec_feed consume h result r b =
     (case result of
        (Some e, st) \<Rightarrow> (h (Formatting_failed e), b)
      | (None, st) \<Rightarrow>
          (case consume r (the (storage (rdbuf st))) b of
             (None, b) \<Rightarrow> (None, b)
           | (Some e, b) \<Rightarrow> (h (Backend_failed e), b)))"

fun spec_run ::
  "('r, 'c, 'b) backend_consume \<Rightarrow> (frontend_error \<Rightarrow> frontend_error option) \<Rightarrow> ('r, 'c) frontend_event list \<Rightarrow>
   ('r, 'c) record_formatter \<Rightarrow> 'c char_env \<Rightarrow> 'b \<Rightarrow> frontend_error option list \<times> 'b" where
  "spec_run consume h [] fmt E b = ([], b)"
| "spec_run consume h (Set_formatter fmt' # es) fmt E b = spec_run consume h es fmt' E b"
| "spec_run consume h (Imbue loc # es) fmt E b = spec_run consume h es fmt loc b"
| "spec_run consume h (Feed t r # es) fmt E b =
     (let (e, b) = spec_feed consume h (the (format_record fmt E r)) r b; (errs, b) = spec_run consume h es fmt E b
      in (e # errs, b))"

fun tidy_run :: "('r, 'c) frontend_event list \<Rightarrow> ('r, 'c) record_formatter \<Rightarrow> 'c char_env \<Rightarrow> bool" where
  "tidy_run [] fmt E = True"
| "tidy_run (Set_formatter fmt' # es) fmt E = tidy_run es fmt' E"
| "tidy_run (Imbue loc # es) fmt E = tidy_run es fmt loc"
| "tidy_run (Feed t r # es) fmt E = (tidy fmt E r \<and> tidy_run es fmt E)"

lemma change_ok:
  assumes "frontend_ok n f" "Suc n < 2 ^ 32"
  shows "frontend_ok (Suc n) (set_formatter fmt f)" "frontend_ok (Suc n) (imbue loc f)"
proof -
  have "version f + 1 = word_of_nat (Suc n)" using assms(1) by (simp add: frontend_ok_def)
  moreover have "clean_context c \<and> (\<exists>m \<le> Suc n. context_version c = word_of_nat m \<and> (m = Suc n \<longrightarrow> P))" if "contexts f t = Some c" for t c P
    using assms(1) that unfolding frontend_ok_def by (metis Suc_n_not_le_n le_SucI)
  ultimately show "frontend_ok (Suc n) (set_formatter fmt f)" "frontend_ok (Suc n) (imbue loc f)"
    using assms(2) by (simp_all add: frontend_ok_def set_formatter_def imbue_def)
qed

lemma feed_record_ok:
  assumes "frontend_ok n f" "tidy (front_formatter f) (front_locale f) r"
  shows "\<exists>f'. feed_record consume t r (f, b) =
      Some (let (e, b) = spec_feed consume (handle f) (the (format_record (front_formatter f) (front_locale f) r)) r b in (e, f', b)) \<and>
    frontend_ok n f' \<and> front_formatter f' = front_formatter f \<and> front_locale f' = front_locale f \<and> exception_handler f' = exception_handler f"
proof -
  let ?E = "front_locale f"
  let ?c = "\<lparr>context_version = version f, formatting_stream = fresh_stream ?E, context_locale = ?E, context_formatter = front_formatter f\<rparr>"
  let ?f = "f\<lparr>contexts := (contexts f)(t \<mapsto> ?c)\<rparr>"
  obtain e st s where fr: "format_record (front_formatter f) ?E r = Some (e, st)" "storage (rdbuf st) = Some s" "put_area (rdbuf st) = []"
    "throwing st" "width st = 0" "fill st = blank ?E" "\<not> align_left st"
    "fmt_flags st = initial_flags" "precision st = 6"
    using assms(2) by (auto simp: tidy_def split: option.splits)
  have "cleanup (?c\<lparr>formatting_stream := st\<rparr>) = ?c" using cleanup_fresh [of st s ?c] fr by simp
  moreover have "frontend_ok n ?f" using assms(1) by (auto simp: frontend_ok_def clean_context_def)
  ultimately show ?thesis using fr
    by (intro exI [of _ ?f])
      (auto simp: feed_record_def get_context_fresh [OF assms(1)] format_record_def spec_feed_def Let_def split: option.splits prod.splits)
qed

text \<open>
  C35. The formatting contexts of the threads cannot be seen, for a frontend whose contexts are clean, fewer than
  \<open>2 ^ 32\<close> changes of the settings, which its version counts, and formatters that are tidy on the records of the run:
  a formatter ends, normally or with an exception, and leaves nothing in the put area of the stream and the format
  parameters as it found them. Then each record is given to the backend with the text that the current formatter
  makes of it on a new stream in the current locale, whichever threads feed the records, and errors go to the
  handler.
\<close>

theorem frontend_formats_each_record:
  assumes "frontend_ok n f" "n + length es < 2 ^ 32" "tidy_run es (front_formatter f) (front_locale f)"
  shows "frontend_run consume es (f, b) = Some (spec_run consume (handle f) es (front_formatter f) (front_locale f) b)"
  using assms
proof (induction consume es "(f, b)" arbitrary: f b n rule: frontend_run.induct)
  case (2 consume fmt es f b)
  have "handle (set_formatter fmt f) = handle f" by (rule ext) (simp add: handle_def set_formatter_def)
  then show ?case using 2 change_ok(1) [of n f fmt] by (simp add: set_formatter_def)
next
  case (3 consume loc es f b)
  have "handle (imbue loc f) = handle f" by (rule ext) (simp add: handle_def imbue_def)
  then show ?case using 3 change_ok(2) [of n f loc] by (simp add: imbue_def)
next
  case (4 consume t r es f b)
  obtain f' where f': "feed_record consume t r (f, b) =
      Some (let (e, b) = spec_feed consume (handle f) (the (format_record (front_formatter f) (front_locale f) r)) r b in (e, f', b))"
    "frontend_ok n f'" "front_formatter f' = front_formatter f" "front_locale f' = front_locale f" "exception_handler f' = exception_handler f"
    using feed_record_ok [OF 4(2), of r consume t b] 4(4) by auto
  have "handle f' = handle f" using f'(5) by (intro ext) (simp add: handle_def)
  then show ?case using 4 f' by (auto simp: Let_def split: prod.splits)
qed simp

section \<open>Text that is left behind\<close>

text \<open>A formatter that runs operations on the stream and then may throw.\<close>

definition script_formatter :: "('r \<Rightarrow> 'c stream_output list \<times> bool) \<Rightarrow> ('r, 'c) record_formatter" where
  "script_formatter script r E st =
     then_do (do_outputs E (fst (script r)) st) (\<lambda>st. Some (if snd (script r) then Some Formatter_error else None, st))"

text \<open>
  C36. When the formatter throws after it has put characters one by one into the stream, they stay in its buffer, and
  the next record of the thread is given to the backend with them in front of its text.
\<close>

theorem failed_record_leaves_text:
  assumes "bounded (front_locale f)" "frontend_ok n f" "front_formatter f = script_formatter script"
    "script r1 = (map Put u, True)" "length u \<le> 16" "script r2 = (xs, False)"
    "length (u @ stream_text (fresh_stream (front_locale f)) xs) \<le> string_max_size (front_locale f)"
  shows "\<exists>f1. feed_record consume t r1 (f, b) = Some (handle f (Formatting_failed Formatter_error), f1, b) \<and>
    (\<exists>f2. feed_record consume t r2 (f1, b) =
      Some (case consume r2 (u @ stream_text (fresh_stream (front_locale f)) xs) b of
              (None, b) \<Rightarrow> (None, f2, b) | (Some e, b) \<Rightarrow> (handle f (Backend_failed e), f2, b)))"
proof -
  let ?E = "front_locale f" let ?s = "fresh_stream ?E"
  let ?u = "?s\<lparr>rdbuf := (rdbuf ?s)\<lparr>put_area := u\<rparr>\<rparr>"
  let ?c = "\<lparr>context_version = version f, formatting_stream = ?s, context_locale = ?E, context_formatter = front_formatter f\<rparr>"
  let ?f1 = "f\<lparr>contexts := (contexts f)(t \<mapsto> ?c\<lparr>formatting_stream := ?u\<rparr>)\<rparr>"
  have "script_formatter script r1 ?E ?s = Some (Some Formatter_error, ?u)"
    using assms(4,5) do_puts [of ?s u ?E] by (simp add: script_formatter_def then_do_def buffer_size_def)
  moreover have "cleanup (?c\<lparr>formatting_stream := ?u\<rparr>) = ?c\<lparr>formatting_stream := ?u\<rparr>" using cleanup_fresh [of ?u "[]" ?c] by simp
  ultimately have r1: "feed_record consume t r1 (f, b) = Some (handle f (Formatting_failed Formatter_error), ?f1, b)"
    using assms(3) by (simp add: feed_record_def get_context_fresh [OF assms(2)] then_do_def Let_def)
  have "stream_holds (fill ?u) (align_left ?u) (max_size (rdbuf ?u)) u ?u" by (simp add: stream_holds_def buffered_def)
  moreover have "stream_text ?u xs = stream_text ?s xs" by (simp add: stream_text_def)
  ultimately obtain st where st: "then_do (do_outputs ?E xs ?u) (stream_flush ?E) = Some (None, st)" "storage (rdbuf st) = Some (u @ stream_text ?s xs)"
    using outputs_flushed [OF assms(1), of ?u u xs] assms(7) by (auto dest: stored_fits)
  have "then_do (script_formatter script r2 ?E ?u) (stream_flush ?E) = Some (None, st)"
    using st(1) assms(6) by (auto simp: script_formatter_def then_do_def split: option.splits)
  then have "\<exists>f2. feed_record consume t r2 (?f1, b) =
    Some (case consume r2 (u @ stream_text ?s xs) b of (None, b) \<Rightarrow> (None, f2, b) | (Some e, b) \<Rightarrow> (handle f (Backend_failed e), f2, b))"
    using assms(3) st(2) by (auto simp: feed_record_def get_context_def Let_def handle_def split: option.splits prod.splits)
  then show ?thesis using r1 by blast
qed

section \<open>Witnesses\<close>

text \<open>A frontend whose formatter throws for one record, and a backend that collects the texts.\<close>

definition demo_script :: "bool \<Rightarrow> char stream_output list \<times> bool" where
  "demo_script r = (if r then ([Put CHR ''x'', Put CHR ''y''], True) else ([Insert ''second''], False))"

definition demo_frontend :: "(bool, char, unit) frontend" where
  "demo_frontend =
     \<lparr>front_filter = (\<lambda>v. Inr True), exception_handler = Some (\<lambda>e. None), version = 0,
      front_formatter = script_formatter demo_script, front_locale = demo_locale, contexts = (\<lambda>t. None)\<rparr>"

definition demo_consume :: "(bool, char, string list) backend_consume" where
  "demo_consume r s b = (None, b @ [s])"

lemma demo_frontend_ok: "frontend_ok 0 demo_frontend"
  by (simp add: frontend_ok_def demo_frontend_def)

lemma demo_format: "format_record (script_formatter demo_script) demo_locale False =
  Some (None, (fresh_stream demo_locale)\<lparr>rdbuf := (rdbuf (fresh_stream demo_locale))\<lparr>storage := Some ''second''\<rparr>\<rparr>)"
  by (simp add: format_record_def script_formatter_def demo_script_def formatted_write_def guarded_def then_do_def
      stream_flush_def with_buf_def sync_def append_chars_def size_left_def demo_locale_def)

theorem frontend_formats_each_record_witness:
  "frontend_run demo_consume [Feed 0 False, Imbue demo_locale, Feed 0 False, Feed 7 False] (demo_frontend, []) =
     Some ([None, None, None], [''second'', ''second'', ''second''])"
proof -
  let ?es = "[Feed 0 False, Imbue demo_locale, Feed 0 False, Feed 7 False]"
  have "tidy (script_formatter demo_script) demo_locale False" by (simp add: tidy_def demo_format)
  then have "tidy_run ?es (front_formatter demo_frontend) (front_locale demo_frontend)" by (simp add: demo_frontend_def)
  then show ?thesis using frontend_formats_each_record [OF demo_frontend_ok, of ?es demo_consume "[]"]
    by (simp add: demo_frontend_def spec_feed_def demo_format demo_consume_def)
qed

theorem failed_record_leaves_text_witness:
  "\<exists>f1. feed_record demo_consume 0 True (demo_frontend, []) = Some (None, f1, []) \<and>
    (\<exists>f2. feed_record demo_consume 0 False (f1, []) = Some (None, f2, [''xysecond'']))"
proof -
  have t: "stream_text (fresh_stream (front_locale demo_frontend)) [Insert ''second''] = ''second''" by (simp add: stream_text_def padded_def)
  have "\<exists>f1. feed_record demo_consume 0 True (demo_frontend, []) = Some (handle demo_frontend (Formatting_failed Formatter_error), f1, []) \<and>
    (\<exists>f2. feed_record demo_consume 0 False (f1, []) =
      Some (case demo_consume False (''xy'' @ stream_text (fresh_stream (front_locale demo_frontend)) [Insert ''second'']) [] of
              (None, b) \<Rightarrow> (None, f2, b) | (Some e, b) \<Rightarrow> (handle demo_frontend (Backend_failed e), f2, b)))"
  proof (rule failed_record_leaves_text [of demo_frontend 0 demo_script True "''xy''" False "[Insert ''second'']"])
    show "frontend_ok 0 demo_frontend" by (rule demo_frontend_ok)
    show "length (''xy'' @ stream_text (fresh_stream (front_locale demo_frontend)) [Insert ''second'']) \<le> string_max_size (front_locale demo_frontend)"
      unfolding t by (simp add: demo_frontend_def demo_locale_def)
  qed (simp_all add: demo_bounded demo_frontend_def demo_script_def)
  then show ?thesis unfolding t by (simp add: demo_consume_def handle_def demo_frontend_def)
qed

end
