(* ===== verification/Spec2Isabelle.thy ===== *)
theory Spec2Isabelle
  imports Ipc_Protocol Core_Properties Attribute_Name File_Name_Roundtrip File_Rotation Text_File_Properties Dump_Properties
    Async_Sink_Properties Char_Decorator_Properties Stream_Conversion Formatting_Frontend_Properties
begin

text \<open>
  A verification development for Boost.Log (the sources under src/).

  \<^bold>\<open>The program.\<close> Boost.Log is a logging library. A log source opens a record in the core, which composes the values of
  the source, thread and global attributes, applies the global filter and asks the registered sinks whether they accept
  the record; the record is then pushed to the sinks that do. A sink is a frontend, which filters, formats and
  synchronises, in front of a backend, which writes: the text file backend writes and rotates files and hands
  them to a file collector, and messages can go through a queue in shared memory to another process. The asynchronous
  frontend puts records into a queue that one thread feeds to the backend. Formatters write to a stream over a string
  with a size limit, and decorators rework what other formatters wrote.

  \<^bold>\<open>Theories and sources.\<close> \<open>Prelude\<close> has the lemmas on lists, bytes and words that the components share. Each component has a
  theory with the definitions, in the order of the code, and theories with the lemmas about them.

  \<^item> \<open>Bit_Tools\<close>: src/src/bit_tools.hpp and murmur3.hpp.
  \<^item> \<open>Ipc_Message_Queue\<close>: the queue in shared memory (src/src/posix/ipc_reliable_message_queue.cpp). The header and
    the ring of blocks are \<open>ipc_header\<close>, with the bytes of the ring and 32-bit positions; \<open>mq_send\<close>, \<open>mq_try_send\<close>,
    \<open>mq_receive\<close> and so on are the methods. \<open>Fifo_Interface\<close> states what a queue promises, \<open>Ipc_Queue_Refinement\<close>
    relates the ring to the list of messages and interprets that interface, \<open>Ipc_Queue_Properties\<close> has what follows
    for each operation, and \<open>Ipc_Protocol\<close> the concurrent system of processes over the queue.
  \<^item> \<open>Attribute_Set\<close>: src/src/attribute_set_impl.hpp and attribute_set.cpp, a hash table over one list of nodes.
    \<open>Attribute_Table\<close> has its invariant, \<open>Attribute_Set_Refinement\<close> the interface \<open>unique_map\<close> and the refinement of a
    finite map. \<open>Attribute_Value_Set\<close>: src/src/attribute_value_set.cpp; \<open>Attribute_Values\<close> has its lemmas. \<open>Attribute_Name\<close>:
    the repository of names of src/src/attribute_name.cpp, with its lookup in two phases by many threads.
  \<^item> \<open>Logging_Core\<close>: opening, pushing and flushing in src/src/core.cpp; \<open>Core_Properties\<close>.
  \<^item> \<open>File_Name_Pattern\<close>, \<open>File_Collector\<close>, \<open>File_Rotation\<close> and \<open>Text_File_Backend\<close>: the parts of
    src/src/text_file_backend.cpp, with \<open>File_Name_Roundtrip\<close>, \<open>File_Collector_Properties\<close> and \<open>Text_File_Properties\<close>.
  \<^item> \<open>Dump\<close>: the hexadecimal dump of src/src/dump.cpp, dump_ssse3.cpp and dump_avx2.cpp. \<open>Dump_Packs\<close> has what the
    vector instructions compute, \<open>Dump_Properties\<close> the interfaces \<open>pack_step\<close> and \<open>vector_routine\<close> between the loops and the
    instruction sets.
  \<^item> \<open>Async_Sink\<close>: include/boost/log/sinks/async_frontend.hpp over bounded_fifo_queue.hpp with block_on_overflow.hpp
    and drop_on_overflow.hpp, as steps of threads; \<open>Async_Sink_Steps\<close>, \<open>Async_Sink_Properties\<close>.
  \<^item> \<open>Char_Decorator\<close>: the decorators under include/boost/log/expressions/formatters; \<open>Char_Decorator_Properties\<close>.
  \<^item> \<open>Formatting_Stream\<close>: detail/attachable_sstream_buf.hpp, utility/formatting_ostream.hpp, the conversion loop of
    src/src/code_conversion.cpp and the output terminals of the decorators; \<open>Stream_Output\<close>, \<open>Stream_Conversion\<close>.
    \<open>Formatting_Frontend\<close>: sinks/basic_sink_frontend.hpp; \<open>Formatting_Frontend_Properties\<close>.

  \<^bold>\<open>Conventions.\<close> Classes are records and their methods functions that return the new state. Pointers are numbers.
  Integers are words where their width can matter. Exceptions are values of a sum or option type. The operating
  system, Boost.Filesystem, Boost.DateTime, the C++ locale and the functions of the user (filters, formatters, handlers,
  attributes) are parameters, functions on a state of the world; a property that relies on them says how. A function
  that runs under a mutex is one step.

  \<^bold>\<open>What is shown.\<close>
  \<^item> Message queue: no process waits in vain and messages arrive once, in order and unchanged, for every
    interleaving; the blocking and the fixed-size operations; the ABI tag; and what goes wrong in rings and messages
    of about 4 GiB, where 32-bit arithmetic wraps around.
  \<^item> Attributes: attribute sets refine finite maps; the values of a record are acquired once each
    and by priority, and fit the storage that was reserved for them; names and identifiers correspond one to one.
  \<^item> Core: every sink that accepted a record is offered it exactly once, whatever sinks throw; a record is
    opened for exactly the sinks that accept its values.
  \<^item> Files: names and patterns, the accounting of the collector and which files it removes, scanning, the
    loops that look for a free name and open a file end, rotation by size and by time.
  \<^item> Dump: all routines write the same text and access no memory out of bounds or misaligned.
  \<^item> Asynchronous sink: records are fed once and in order, the states stay well-formed, and a race of
    \<open>flush\<close> and \<open>stop\<close> after which threads wait forever.
  \<^item> Formatting: decorators can be undone; the frontend formats each record as if on a new stream, unless a
    formatter leaves something in the stream; output stays within limits; text of other character types.

  \<^bold>\<open>Loops.\<close> Loops over data are recursive functions with termination proofs. Three loops may fail to end and are partial
  functions to the option type: the loop that opens a file, which is shown to end always (\<open>Text_File_Properties\<close>), the
  loop of code conversion, which ends for facets that encode character by character (\<open>Stream_Conversion\<close>), and the
  replacement of a pattern, which ends for the tables of the decorators (\<open>Char_Decorator_Properties\<close>). The blocking
  operations of the message queue take the list of the states they find when they wake up, and their lemmas say with
  which of them they end.

  \<^bold>\<open>Not modelled.\<close> The Windows implementations, the backends that only call the system (syslog, event log, debugger), the
  unbounded queue, which is lock-free over the hardware memory model, and the ordering queues, which depend on the clock;
  the synchronous and unlocked frontends, which add only a mutex or nothing to the basic frontend; the loggers, expression
  templates, type dispatching, named scopes and attribute classes, whose results are parameters here; and the parsers of
  settings, filters, formats and dates, which are grammars of Boost.Spirit. In the modelled parts: a wait on a condition
  variable in the message queue does not fail; notifications of the condition variables of the asynchronous sink are
  left out, so that a thread may wake up at any time, and so is the join in \<open>stop\<close>; the search for a target name before
  the collector locks its mutex is part of one step; the width and the locale of the stream are ignored in the texts
  that the dump adds and in the file counter; the decorator for C in ASCII has narrow characters only.
\<close>

section \<open>Decorated output on a stream\<close>

text \<open>
  C40. A formatter that is decorated for XML, on a stream that already holds text, when the text of the formatter fits the
  limit before it is decorated: the storage holds the text before it and an output that reads as the text of the
  formatter; what the replacements make exceed the limit is cut.
\<close>

theorem decorated_output_readable:
  assumes "bounded E" "ready s0 st" "length (s0 @ stream_text st xs) \<le> max_size (rdbuf st)"
  shows "\<exists>st' x i. char_decorator_output E xml_decor (\<lambda>st. Some (None, st)) (do_outputs E xs) st = Some (None, st') \<and>
    unescape (table xml_patterns xml_replacements) x = stream_text st xs \<and> storage (rdbuf st') = Some (take i (s0 @ x)) \<and>
    (if length (s0 @ x) \<le> max_size (rdbuf st) then i = length (s0 @ x) \<and> \<not> overflow (rdbuf st')
     else i \<le> max_size (rdbuf st) \<and> overflow (rdbuf st'))"
proof -
  let ?w = "stream_text st xs" and ?m = "max_size (rdbuf st)"
  let ?x = "escaped (table xml_patterns xml_replacements) ?w"
  obtain st1 where o: "then_do (do_outputs E xs st) (stream_flush E) = Some (None, st1)" "storage (rdbuf st1) = Some (s0 @ ?w)"
    "max_size (rdbuf st1) = ?m" "\<not> overflow (rdbuf st1)"
    using outputs_flushed [OF assms(1) ready_holds [OF assms(2)], of xs] assms(3) by (auto dest: stored_fits)
  have x: "xml_decor (s0 @ ?w) (length s0) = Some (s0 @ ?x)" using decorators_escape(3) [of "length s0" "s0 @ ?w"] by simp
  have "readable (table xml_patterns xml_replacements)" by code_simp
  then have u: "unescape (table xml_patterns xml_replacements) ?x = ?w" by (rule unescape_escaped)
  let ?b = "(rdbuf st1)\<lparr>storage := Some (s0 @ ?x)\<rparr>"
  have c: "char_decorator_output E xml_decor (\<lambda>st. Some (None, st)) (do_outputs E xs) st = Some (None, st1\<lparr>rdbuf := ensure_max_size E ?b\<rparr>)"
    using o x stream_flush_ready [OF assms(2), of E] assms(2)
    by (simp add: char_decorator_output_def then_do_Some with_buf_def ready_def)
  show ?thesis
  proof (cases "length (s0 @ ?x) \<le> ?m")
    case True
    then show ?thesis using c u o by (intro exI [of _ "st1\<lparr>rdbuf := ensure_max_size E ?b\<rparr>"] exI [of _ ?x]) (simp add: ensure_max_size_def)
  next
    case False
    let ?i = "length_until_boundary E (s0 @ ?x) (length (s0 @ ?x)) ?m"
    have "?i \<le> ?m" using boundedD [OF assms(1)] False by simp
    then show ?thesis using c u o False
      by (intro exI [of _ "st1\<lparr>rdbuf := ensure_max_size E ?b\<rparr>"] exI [of _ ?x] exI [of _ ?i]) (simp add: ensure_max_size_def del: take_append)
  qed
qed

theorem decorated_output_readable_witness:
  "\<exists>st' x i. char_decorator_output demo_locale xml_decor (\<lambda>st. Some (None, st)) (do_outputs demo_locale [Insert ''<b>'']) (demo_stream ''a'' 20) =
      Some (None, st') \<and>
    unescape (table xml_patterns xml_replacements) x = ''<b>'' \<and> storage (rdbuf st') = Some (take i (''a'' @ x))"
  using decorated_output_readable [OF demo_bounded demo_ready [of "''a''" 20], of "[Insert ''<b>'']"]
  by (simp add: stream_text_def padded_def) blast

end
